(* ===== verification/Prelude.thy ===== *)
theory Prelude
  imports Complex_Main "HOL-Library.Word"
begin

text \<open>
  Shared vocabulary of the development: the fixed-width integer types of the C++ sources,
  the usual arithmetic conversions of C++ that promote operands narrower than \<open>int\<close>,
  and the generic word and list lemmas the component theories rest on.
\<close>

unbundle bit_operations_syntax

type_synonym uint8_t = "8 word"
type_synonym uint16_t = "16 word"
type_synonym uint32_t = "32 word"
type_synonym uint64_t = "64 word"

text \<open>
  The value of the C++ expression \<open>a - b\<close> for two operands of the same unsigned type.
  Operands narrower than the 32 bits of \<open>int\<close> are promoted to \<open>int\<close> first, so the
  difference may be negative; wider ones are subtracted modulo their own width.
\<close>

definition cpp_sub :: "'a::len word \<Rightarrow> 'a word \<Rightarrow> int" where
  "cpp_sub a b = (if LENGTH('a) < 32 then uint a - uint b else uint (a - b))"

lemma uint_diff_cases:
  fixes a b :: "'a::len word"
  shows "uint (a - b) = (if b \<le> a then uint a - uint b else uint a - uint b + 2 ^ LENGTH('a))"
  by (simp add: uint_sub_if' word_le_def)

lemma uint_lt_exp [simp]: "uint (a :: 'a::len word) < 2 ^ LENGTH('a)"
  by (simp add: uint_lt2p)

lemma sum_update_one:
  fixes f g :: "nat \<Rightarrow> int"
  assumes "i < n" and "\<And>k. k \<noteq> i \<Longrightarrow> g k = f k"
  shows "(\<Sum>k<n. g k) = (\<Sum>k<n. f k) - f i + g i"
proof -
  have "(\<Sum>k<n. g k) = g i + (\<Sum>k\<in>{..<n} - {i}. g k)"
    using assms(1) by (simp add: sum.remove)
  also have "(\<Sum>k\<in>{..<n} - {i}. g k) = (\<Sum>k\<in>{..<n} - {i}. f k)"
    by (intro sum.cong) (auto simp: assms(2))
  also have "\<dots> = (\<Sum>k<n. f k) - f i"
    using assms(1) by (simp add: sum_diff1)
  finally show ?thesis by simp
qed

lemma uint_word_of_int_id:
  "0 \<le> k \<Longrightarrow> k < 2 ^ LENGTH('a) \<Longrightarrow> uint (word_of_int k :: 'a::len word) = k"
  by (simp add: uint_word_of_int)

end
