(* ===== verification/SeqNum.thy ===== *)
theory SeqNum
  imports Prelude
begin

text \<open>
  Wrapping sequence numbers: \<open>rtc_base/numerics/mod_ops.h\<close>,
  \<open>sequence_number_util.h\<close>, \<open>sequence_number_unwrapper.h\<close> and the older
  comparison of \<open>modules/include/module_common_types_public.h\<close>. The templates
  are modelled for any width; the suffix \<open>M\<close> marks the instances that wrap at an explicit
  modulus, the others wrap at the width of the type.
\<close>

section \<open>Differences (mod\_ops.h)\<close>

definition ForwardDiff :: "'a::len word \<Rightarrow> 'a word \<Rightarrow> 'a word" where
  "ForwardDiff a b = b - a"

definition ReverseDiff :: "'a::len word \<Rightarrow> 'a word \<Rightarrow> 'a word" where
  "ReverseDiff a b = a - b"

definition ForwardDiffM :: "'a::len word \<Rightarrow> 'a word \<Rightarrow> 'a word \<Rightarrow> 'a word" where
  "ForwardDiffM M a b = (if a \<le> b then b - a else M - (a - b))"

definition ReverseDiffM :: "'a::len word \<Rightarrow> 'a word \<Rightarrow> 'a word \<Rightarrow> 'a word" where
  "ReverseDiffM M a b = (if b \<le> a then a - b else M - (b - a))"

definition MinDiffM :: "'a::len word \<Rightarrow> 'a word \<Rightarrow> 'a word \<Rightarrow> 'a word" where
  "MinDiffM M a b = min (ForwardDiffM M a b) (ReverseDiffM M a b)"

definition MinDiff :: "'a::len word \<Rightarrow> 'a word \<Rightarrow> 'a word" where
  "MinDiff a b = min (ForwardDiff a b) (ReverseDiff a b)"

text \<open>
  \<open>Add<M>\<close> and \<open>Subtract<M>\<close> work on \<open>unsigned long\<close>, 64 bits on the
  supported targets.
\<close>

definition AddM :: "uint64_t \<Rightarrow> uint64_t \<Rightarrow> uint64_t \<Rightarrow> uint64_t" where
  "AddM M a b =
     (let t = M - b mod M; res = a - t
      in if t > a then res + M else res)"

definition SubtractM :: "uint64_t \<Rightarrow> uint64_t \<Rightarrow> uint64_t \<Rightarrow> uint64_t" where
  "SubtractM M a b =
     (let s = b mod M in if a < s then M - (s - a) else a - s)"

section \<open>Order (sequence\_number\_util.h, module\_common\_types\_public.h)\<close>

definition maxDist :: "'a::len word" where
  "maxDist = (- 1) div 2 + 1"

definition AheadOrAt :: "'a::len word \<Rightarrow> 'a word \<Rightarrow> bool" where
  "AheadOrAt a b =
     (if cpp_sub a b = uint (maxDist :: 'a word) then b < a
      else ForwardDiff b a < maxDist)"

definition AheadOf :: "'a::len word \<Rightarrow> 'a word \<Rightarrow> bool" where
  "AheadOf a b \<longleftrightarrow> a \<noteq> b \<and> AheadOrAt a b"

definition AheadOrAtM :: "'a::len word \<Rightarrow> 'a word \<Rightarrow> 'a word \<Rightarrow> bool" where
  "AheadOrAtM M a b =
     (if M AND 1 = 0 \<and> MinDiffM M a b = M div 2 then b < a
      else ForwardDiffM M b a \<le> M div 2)"

definition AheadOfM :: "'a::len word \<Rightarrow> 'a word \<Rightarrow> 'a word \<Rightarrow> bool" where
  "AheadOfM M a b \<longleftrightarrow> a \<noteq> b \<and> AheadOrAtM M a b"

definition IsNewer :: "'a::len word \<Rightarrow> 'a word \<Rightarrow> bool" where
  "IsNewer value prev_value =
     (let kBreakpoint = drop_bit 1 (- 1) + 1 :: 'a word
      in if cpp_sub value prev_value = uint kBreakpoint then prev_value < value
         else value \<noteq> prev_value \<and> value - prev_value < kBreakpoint)"

definition LatestSequenceNumber :: "uint16_t \<Rightarrow> uint16_t \<Rightarrow> uint16_t" where
  "LatestSequenceNumber s1 s2 = (if IsNewer s1 s2 then s1 else s2)"

definition LatestTimestamp :: "uint32_t \<Rightarrow> uint32_t \<Rightarrow> uint32_t" where
  "LatestTimestamp t1 t2 = (if IsNewer t1 t2 then t1 else t2)"

section \<open>The unwrapper (sequence\_number\_unwrapper.h)\<close>

record 'a unwrapper =
  last_unwrapped :: int
  last_value :: "'a option"

definition unwrapper_init :: "'a unwrapper" where
  "unwrapper_init = \<lparr>last_unwrapped = 0, last_value = None\<rparr>"

definition Delta :: "'a::len word \<Rightarrow> 'a word \<Rightarrow> int" where
  "Delta last_val new_val =
     (let kBackwardAdjustment = uint (- 1 :: 'a word) + 1;
          result = uint (ForwardDiff last_val new_val)
      in if \<not> AheadOrAt new_val last_val then result - kBackwardAdjustment else result)"

definition Unwrap :: "'a::len word unwrapper \<Rightarrow> 'a word \<Rightarrow> 'a word unwrapper \<times> int" where
  "Unwrap u v =
     (let r = (case last_value u of
                 None \<Rightarrow> uint v
               | Some l \<Rightarrow> last_unwrapped u + Delta l v)
      in (u\<lparr>last_unwrapped := r, last_value := Some v\<rparr>, r))"

definition PeekUnwrap :: "'a::len word unwrapper \<Rightarrow> 'a word \<Rightarrow> int" where
  "PeekUnwrap u v =
     (case last_value u of None \<Rightarrow> uint v | Some l \<Rightarrow> last_unwrapped u + Delta l v)"

definition Reset :: "'a::len word unwrapper \<Rightarrow> 'a word unwrapper" where
  "Reset u = u\<lparr>last_unwrapped := 0, last_value := None\<rparr>"

text \<open>A client that unwraps a stream of values, one \<open>Unwrap\<close> per received value.\<close>

fun unwrap_all :: "'a::len word unwrapper \<Rightarrow> 'a word list \<Rightarrow> int list" where
  "unwrap_all u [] = []"
| "unwrap_all u (v # vs) = (let (u', r) = Unwrap u v in r # unwrap_all u' vs)"

section \<open>Lemmas\<close>

lemma uint_half_minus_1: "uint ((- 1 :: 'a::len word) div 2) = 2 ^ (LENGTH('a) - 1) - 1"
proof -
  obtain n where n: "LENGTH('a) = Suc n"
    by (cases "LENGTH('a)") (use len_gt_0 [where 'a = 'a] in auto)
  have m1: "uint (- 1 :: 'a word) = 2 ^ Suc n - 1"
    using n by (simp add: unsigned_minus_1_eq_mask mask_eq_exp_minus_1)
  have two: "uint (2 :: 'a word) = 2 mod 2 ^ Suc n"
    using n by (metis uint_numeral unsigned_of_int word_of_int_numeral take_bit_eq_mod)
  have "uint ((- 1 :: 'a word) div 2) = (2 ^ Suc n - 1) div (2 mod 2 ^ Suc n)"
    unfolding uint_div_distrib m1 two ..
  also have "\<dots> = 2 ^ n - 1"
  proof (cases n)
    case (Suc m)
    have "(2::int) ^ 1 < 2 ^ Suc n" using Suc by (intro power_strict_increasing) auto
    then have "(2::int) mod 2 ^ Suc n = 2" by (intro mod_pos_pos_trivial) simp_all
    then show ?thesis by simp
  qed simp
  finally show ?thesis using n by simp
qed

lemma uint_maxDist [simp]: "uint (maxDist :: 'a::len word) = 2 ^ (LENGTH('a) - 1)"
proof -
  have "(2 ^ (LENGTH('a) - 1) :: int) < 2 ^ LENGTH('a)"
    by (simp add: power_strict_increasing)
  then show ?thesis
    unfolding maxDist_def uint_word_ariths uint_half_minus_1 by simp
qed

lemma exp_half: "2 * 2 ^ (LENGTH('a::len) - 1) = (2 ^ LENGTH('a) :: int)"
  by (metis len_gt_0 power_minus_mult mult.commute)

text \<open>
  Whatever the width, and in spite of the promotion to \<open>int\<close> of the narrow ones, the
  comparison only depends on the distance modulo the width, with the larger value ahead at
  the maximal distance.
\<close>

lemma AheadOrAt_iff:
  fixes a b :: "'a::len word"
  shows "AheadOrAt a b \<longleftrightarrow>
    uint (a - b) < 2 ^ (LENGTH('a) - 1) \<or> (uint (a - b) = 2 ^ (LENGTH('a) - 1) \<and> b < a)"
proof -
  have "cpp_sub a b = 2 ^ (LENGTH('a) - 1) \<longleftrightarrow>
      uint (a - b) = 2 ^ (LENGTH('a) - 1) \<and> (LENGTH('a) < 32 \<longrightarrow> b < a)"
    using uint_ge_0 [of a] uint_lt2p [of b]
    by (auto simp: cpp_sub_def uint_diff_cases word_le_def word_less_def split: if_splits)
       (smt (verit) zero_less_power)+
  then show ?thesis
    by (auto simp: AheadOrAt_def ForwardDiff_def word_less_def)
qed

lemma uint_swap:
  fixes a b :: "'a::len word"
  assumes "a \<noteq> b"
  shows "uint (b - a) = 2 ^ LENGTH('a) - uint (a - b)"
  using assms by (auto simp: uint_diff_cases word_le_def word_uint_eq_iff)

lemma Delta_eq:
  fixes l v :: "'a::len word"
  shows "Delta l v = (if AheadOrAt v l then uint (v - l) else uint (v - l) - 2 ^ LENGTH('a))"
  by (simp add: Delta_def ForwardDiff_def unsigned_minus_1_eq_mask mask_eq_exp_minus_1)

lemma Delta_bounds: "\<bar>Delta l (v :: 'a::len word)\<bar> \<le> 2 ^ (LENGTH('a) - 1)"
  using uint_lt2p [of "v - l"] uint_ge_0 [of "v - l"] exp_half [where 'a = 'a]
  unfolding Delta_eq AheadOrAt_iff by (simp only: split: if_split) linarith

lemma Delta_of_int:
  assumes "\<bar>x' - x\<bar> < 2 ^ (LENGTH('a::len) - 1)"
  shows "Delta (word_of_int x :: 'a word) (word_of_int x') = x' - x"
proof -
  let ?N = "2 ^ LENGTH('a) :: int" and ?H = "2 ^ (LENGTH('a) - 1) :: int"
  have N: "2 * ?H = ?N" by (rule exp_half)
  have d: "uint (word_of_int x' - word_of_int x :: 'a word) = (x' - x) mod ?N"
    by (simp flip: of_int_diff add: uint_word_of_int)
  show ?thesis
  proof (cases "x \<le> x'")
    case True
    then have "(x' - x) mod ?N = x' - x" using assms N by (intro mod_pos_pos_trivial) auto
    then show ?thesis using True assms by (simp add: Delta_eq AheadOrAt_iff d)
  next
    case False
    then have "(x' - x + ?N) mod ?N = x' - x + ?N" using assms N by (intro mod_pos_pos_trivial) auto
    then have "(x' - x) mod ?N = x' - x + ?N" by simp
    then show ?thesis using False assms N by (simp add: Delta_eq AheadOrAt_iff d)
  qed
qed

section \<open>The order contract and its instances\<close>

text \<open>
  What the code relies on when it compares sequence numbers: exactly one of two distinct
  numbers is ahead of the other. The relation is not transitive.
\<close>

locale serial_order =
  fixes ahead :: "'a \<Rightarrow> 'a \<Rightarrow> bool"
  assumes ahead_irrefl: "\<not> ahead x x"
    and ahead_asym: "ahead x y \<Longrightarrow> \<not> ahead y x"
    and ahead_total: "x \<noteq> y \<Longrightarrow> ahead x y \<or> ahead y x"
begin

definition latest :: "'a \<Rightarrow> 'a \<Rightarrow> 'a" where
  "latest x y = (if ahead x y then x else y)"

lemma latest_commute: "latest x y = latest y x"
  unfolding latest_def by (metis ahead_asym ahead_total)

lemma latest_idem: "latest x x = x"
  by (simp add: latest_def)

lemma latest_not_behind: "\<not> ahead x (latest x y) \<and> \<not> ahead y (latest x y)"
  by (cases "ahead x y") (simp_all add: latest_def ahead_irrefl ahead_asym)

end

lemma uint_diff_pos: "0 < uint (a - b) \<longleftrightarrow> a \<noteq> (b :: 'a::len word)"
proof -
  have "0 < uint (a - b) \<longleftrightarrow> a - b \<noteq> 0"
    by (simp add: unsigned_greater_eq order_less_le eq_commute [of 0] uint_0_iff del: right_minus_eq)
  then show ?thesis by simp
qed

lemma AheadOf_iff:
  fixes a b :: "'a::len word"
  shows "AheadOf a b \<longleftrightarrow> 0 < uint (a - b) \<and>
    (uint (a - b) < 2 ^ (LENGTH('a) - 1) \<or> (uint (a - b) = 2 ^ (LENGTH('a) - 1) \<and> b < a))"
  unfolding AheadOf_def AheadOrAt_iff uint_diff_pos by simp

lemma AheadOf_serial_order: "serial_order (AheadOf :: 'a::len word \<Rightarrow> 'a word \<Rightarrow> bool)"
proof unfold_locales
  fix x y :: "'a word"
  show "\<not> AheadOf x x" by (simp add: AheadOf_def)
  have H: "2 * 2 ^ (LENGTH('a) - 1) = (2 ^ LENGTH('a) :: int)" by (rule exp_half)
  show "\<not> AheadOf y x" if a: "AheadOf x y"
  proof -
    from a have "x \<noteq> y" by (simp add: AheadOf_def)
    with a show ?thesis using H uint_swap [of x y]
      unfolding AheadOf_iff by (auto simp: not_less_iff_gr_or_eq)
  qed
  show "AheadOf x y \<or> AheadOf y x" if n: "x \<noteq> y"
  proof -
    from n have "0 < uint (x - y)" "0 < uint (y - x)"
      by (simp_all add: uint_diff_pos)
    then show ?thesis using H uint_swap [OF n] n
      unfolding AheadOf_iff by (auto simp: neq_iff)
  qed
qed

lemma IsNewer_eq_AheadOf: "IsNewer a b = AheadOf a (b :: 'a::len word)"
proof -
  have k: "drop_bit 1 (- 1) + 1 = (maxDist :: 'a word)"
    by (simp only: maxDist_def drop_bit_eq_div power_one_right)
  show ?thesis
    unfolding IsNewer_def Let_def k AheadOf_def AheadOrAt_def ForwardDiff_def by auto
qed

interpretation seq16: serial_order "IsNewer :: uint16_t \<Rightarrow> uint16_t \<Rightarrow> bool"
  rewrites "serial_order.latest (IsNewer :: uint16_t \<Rightarrow> uint16_t \<Rightarrow> bool) = LatestSequenceNumber"
proof -
  show "serial_order (IsNewer :: uint16_t \<Rightarrow> uint16_t \<Rightarrow> bool)"
    unfolding IsNewer_eq_AheadOf [abs_def] by (rule AheadOf_serial_order)
  then show "serial_order.latest (IsNewer :: uint16_t \<Rightarrow> uint16_t \<Rightarrow> bool) = LatestSequenceNumber"
    by (simp add: fun_eq_iff serial_order.latest_def LatestSequenceNumber_def)
qed

interpretation ts32: serial_order "IsNewer :: uint32_t \<Rightarrow> uint32_t \<Rightarrow> bool"
  rewrites "serial_order.latest (IsNewer :: uint32_t \<Rightarrow> uint32_t \<Rightarrow> bool) = LatestTimestamp"
proof -
  show "serial_order (IsNewer :: uint32_t \<Rightarrow> uint32_t \<Rightarrow> bool)"
    unfolding IsNewer_eq_AheadOf [abs_def] by (rule AheadOf_serial_order)
  then show "serial_order.latest (IsNewer :: uint32_t \<Rightarrow> uint32_t \<Rightarrow> bool) = LatestTimestamp"
    by (simp add: fun_eq_iff serial_order.latest_def LatestTimestamp_def)
qed

section \<open>Properties\<close>

lemma unwrap_all_tracks:
  fixes u :: "'a::len word unwrapper"
  assumes "last_value u = Some (word_of_int x)" "last_unwrapped u = x"
    and "successively (\<lambda>x y. \<bar>y - x\<bar> < 2 ^ (LENGTH('a) - 1)) (x # xs)"
  shows "unwrap_all u (map word_of_int xs) = xs"
  using assms
proof (induction xs arbitrary: u x)
  case (Cons y ys)
  then have "Delta (word_of_int x :: 'a word) (word_of_int y) = y - x"
    by (intro Delta_of_int) (simp add: successively_Cons)
  with Cons show ?case by (simp add: Unwrap_def Let_def successively_Cons)
qed simp

text \<open>
  C16. Unwrapping recovers the original numbers: when the true values of a stream start in the
  first period and successive values differ by less than half the wrap-around period, the
  unwrapper returns exactly those values from their low bits, through any number of wraps
  forwards and backwards.
\<close>

theorem unwrap_all_correct:
  fixes x :: int
  assumes "0 \<le> x" "x < 2 ^ LENGTH('a::len)"
    and "successively (\<lambda>x y. \<bar>y - x\<bar> < 2 ^ (LENGTH('a) - 1)) (x # xs)"
  shows "unwrap_all unwrapper_init (map (word_of_int :: int \<Rightarrow> 'a word) (x # xs)) = x # xs"
proof -
  have "uint (word_of_int x :: 'a word) = x"
    using assms(1,2) by (simp add: uint_word_of_int)
  then show ?thesis using assms(3)
    by (simp add: Unwrap_def unwrapper_init_def Let_def unwrap_all_tracks)
qed

theorem unwrap_all_correct_witness:
  "unwrap_all unwrapper_init
     (map (word_of_int :: int \<Rightarrow> 16 word) [65000, 70000, 66000, 98000, 130000, 131073])
   = [65000, 70000, 66000, 98000, 130000, 131073]"
  using unwrap_all_correct [where 'a = 16, of 65000 "[70000, 66000, 98000, 130000, 131073]"]
  by (simp del: unwrap_all.simps)

definition unwrapper_ok :: "'a::len word unwrapper \<Rightarrow> bool" where
  "unwrapper_ok u \<longleftrightarrow>
     (case last_value u of None \<Rightarrow> True | Some l \<Rightarrow> word_of_int (last_unwrapped u) = l)"

lemma word_of_int_Delta: "word_of_int (Delta l v) = v - (l :: 'a::len word)"
proof -
  have "word_of_int (uint (v - l) - 2 ^ LENGTH('a)) = v - l"
    by (metis of_int_diff word_of_int_2p_len diff_zero word_of_int_uint)
  then show ?thesis by (simp add: Delta_eq)
qed

lemma Unwrap_ok:
  fixes u :: "'a::len word unwrapper"
  assumes "unwrapper_ok u"
  shows "unwrapper_ok (fst (Unwrap u v)) \<and> word_of_int (snd (Unwrap u v)) = v"
  using assms
  by (simp add: Unwrap_def Let_def unwrapper_ok_def word_of_int_Delta split: option.splits)

lemma unwrap_all_low_bits:
  "unwrapper_ok u \<Longrightarrow> map word_of_int (unwrap_all u vs) = vs"
proof (induction vs arbitrary: u)
  case (Cons v vs)
  have "unwrapper_ok (fst (Unwrap u v))" and v: "word_of_int (snd (Unwrap u v)) = v"
    using Unwrap_ok [OF Cons.prems] by blast+
  then have "map word_of_int (unwrap_all (fst (Unwrap u v)) vs) = vs" by (intro Cons.IH)
  with v show ?case by (simp add: split_def Let_def)
qed simp

text \<open>
  C30. For every stream, however wild its jumps, each unwrapped number has the received value
  as its low bits.
\<close>

theorem unwrap_all_congruent: "map word_of_int (unwrap_all unwrapper_init vs) = vs"
  by (rule unwrap_all_low_bits) (simp add: unwrapper_ok_def unwrapper_init_def)

section \<open>Wrapping at an explicit modulus\<close>

lemma uint_ForwardDiffM:
  assumes "a < M" "b < M"
  shows "uint (ForwardDiffM M a b) = (uint b - uint a) mod uint M"
proof (cases "a \<le> b")
  case True
  then have "uint (b - a) = uint b - uint a" by (simp add: uint_diff_cases)
  moreover have "uint b - uint a = (uint b - uint a) mod uint M"
    using True assms uint_ge_0 [of a] unfolding word_le_def word_less_def
    by (intro mod_pos_pos_trivial [symmetric]) linarith+
  ultimately show ?thesis using True by (simp add: ForwardDiffM_def)
next
  case False
  then have d: "uint (a - b) = uint a - uint b" by (simp add: uint_diff_cases word_le_def)
  have le: "a - b \<le> M" using assms False d uint_ge_0 [of b]
    unfolding word_le_def word_less_def by linarith
  have "uint (M - (a - b)) = uint b - uint a + uint M"
    using le d by (simp add: uint_diff_cases)
  also have "\<dots> = (uint b - uint a + uint M) mod uint M"
    using False assms uint_ge_0 [of b] unfolding word_le_def word_less_def
    by (intro mod_pos_pos_trivial [symmetric]) linarith+
  finally show ?thesis using False by (simp add: ForwardDiffM_def)
qed

lemma ReverseDiffM_eq: "ReverseDiffM M a b = ForwardDiffM M b a"
  by (simp add: ReverseDiffM_def ForwardDiffM_def)

text \<open>
  With an explicit modulus, a number is ahead of or at another exactly when it is reached
  from it by fewer than half the modulus of forward steps, and at the tie distance of an even
  modulus the numerically larger one is ahead.
\<close>

theorem AheadOrAtM_iff:
  fixes M a b :: "'a::len word"
  assumes "a < M" "b < M" and len: "1 < LENGTH('a)"
  shows "AheadOrAtM M a b \<longleftrightarrow>
    2 * ((uint a - uint b) mod uint M) < uint M \<or>
    (2 * ((uint a - uint b) mod uint M) = uint M \<and> b < a)"
proof -
  have a0: "uint a < uint M" "uint b < uint M" "0 \<le> uint a" "0 \<le> uint b"
    using assms by (simp_all add: word_less_def)
  define d where "d = (uint a - uint b) mod uint M"
  have "0 < uint M" using a0 by linarith
  then have dM: "0 \<le> d" "d < uint M" by (simp_all add: d_def)
  have fwd: "uint (ForwardDiffM M b a) = d"
    using assms by (simp add: uint_ForwardDiffM d_def)
  have "uint (ForwardDiffM M a b) = (- (uint a - uint b)) mod uint M"
    using assms by (simp add: uint_ForwardDiffM)
  then have rev: "uint (ForwardDiffM M a b) = (if d = 0 then 0 else uint M - d)"
    using zmod_zminus1_eq_if [of "uint a - uint b" "uint M"] by (simp add: d_def)
  have "uint (2 :: 'a word) = 2 mod 2 ^ LENGTH('a)"
    by (metis uint_numeral unsigned_of_int word_of_int_numeral take_bit_eq_mod)
  also have "\<dots> = 2"
    using power_strict_increasing [OF len, of "2::int"] by (intro mod_pos_pos_trivial) auto
  finally have half: "uint (M div 2) = uint M div 2"
    by (simp only: uint_div_distrib)
  have "M AND 1 = 0 \<longleftrightarrow> uint M AND 1 = 0"
    by (metis uint_0_iff uint_and unsigned_1)
  then have odd: "M AND 1 = 0 \<longleftrightarrow> even (uint M)"
    by (simp add: and_one_eq even_iff_mod_2_eq_zero)
  have tie: "MinDiffM M a b = M div 2 \<longleftrightarrow> d = uint M div 2" if "even (uint M)"
    using that dM unfolding MinDiffM_def ReverseDiffM_eq word_uint_eq_iff half
    by (auto simp: min_def word_le_def fwd rev split: if_splits elim!: evenE)
  show ?thesis
  proof (cases "even (uint M)")
    case True
    then show ?thesis using dM
      by (auto simp: AheadOrAtM_def odd tie word_le_def fwd half simp flip: d_def)
  next
    case False
    then show ?thesis using dM
      by (auto simp: AheadOrAtM_def odd word_le_def fwd half simp flip: d_def elim!: oddE)
  qed
qed

theorem AheadOrAtM_iff_witness:
  "AheadOrAtM (2 ^ 15) 3 (32760 :: uint16_t) \<longleftrightarrow>
     2 * ((uint (3 :: uint16_t) - uint (32760 :: uint16_t)) mod uint (2 ^ 15 :: uint16_t))
       < uint (2 ^ 15 :: uint16_t) \<or>
     (2 * ((uint (3 :: uint16_t) - uint (32760 :: uint16_t)) mod uint (2 ^ 15 :: uint16_t))
       = uint (2 ^ 15 :: uint16_t) \<and> 32760 < (3 :: uint16_t))"
  by (rule AheadOrAtM_iff) simp_all

lemma mod_add_reduced:
  fixes a s M :: int
  assumes "0 \<le> a" "a < M" "0 \<le> s" "s < M"
  shows "(a + s) mod M = (if a + s < M then a + s else a + s - M)"
proof (cases "a + s < M")
  case False
  then have "(a + s - M) mod M = a + s - M" using assms by (intro mod_pos_pos_trivial) auto
  then show ?thesis using False by simp
qed (use assms in simp)

lemma uint_AddM:
  assumes "a < M"
  shows "uint (AddM M a b) = (uint a + uint b) mod uint M"
proof -
  define r where "r = b mod M"
  have r: "uint r = uint b mod uint M" by (simp add: r_def uint_mod)
  have aM: "uint a < uint M" using assms by (simp add: word_less_def)
  then have M0: "0 < uint M" using uint_ge_0 [of a] by linarith
  have bnd: "0 \<le> uint a" "0 \<le> uint r" "uint r < uint M" "uint M < 2 ^ 64"
    using M0 uint_lt2p [of M] by (auto simp: r)
  have t: "uint (M - r) = uint M - uint r"
    using bnd by (simp add: uint_diff_cases word_le_def)
  have "uint (AddM M a b) = (if uint a + uint r < uint M then uint a + uint r else uint a + uint r - uint M)"
  proof (cases "uint a + uint r < uint M")
    case True
    then have "a < M - r" using t by (simp add: word_less_def)
    then have "AddM M a b = a + r" by (simp add: AddM_def Let_def r_def [symmetric])
    moreover have "uint (a + r) = uint a + uint r"
      using True bnd by (intro uint_add_lem [THEN iffD1]) simp
    ultimately show ?thesis using True by simp
  next
    case False
    then have "M - r \<le> a" using t by (simp add: word_le_def)
    then have "AddM M a b = a - (M - r)" "uint (a - (M - r)) = uint a - (uint M - uint r)"
      using t by (auto simp: AddM_def Let_def r_def [symmetric] uint_diff_cases)
    then show ?thesis using False by simp
  qed
  also have "\<dots> = (uint a + uint r) mod uint M"
    using bnd aM by (simp add: mod_add_reduced)
  finally show ?thesis by (simp add: r mod_add_right_eq)
qed

lemma uint_SubtractM:
  assumes "a < M"
  shows "uint (SubtractM M a b) = (uint a - uint b) mod uint M"
proof -
  define r where "r = b mod M"
  have r: "uint r = uint b mod uint M" by (simp add: r_def uint_mod)
  have aM: "uint a < uint M" using assms by (simp add: word_less_def)
  then have M0: "0 < uint M" using uint_ge_0 [of a] by linarith
  then have "r < M" by (simp add: word_less_def r)
  then have "uint (ForwardDiffM M r a) = (uint a - uint r) mod uint M"
    using assms by (simp add: uint_ForwardDiffM)
  moreover have "SubtractM M a b = ForwardDiffM M r a"
    by (auto simp: SubtractM_def ForwardDiffM_def Let_def r_def not_less)
  ultimately show ?thesis by (simp add: r mod_diff_right_eq)
qed

text \<open>
  The modular addition and subtraction helpers compute sum and difference modulo \<open>M\<close> for
  any 64-bit operand \<open>b\<close>, with no intermediate overflow visible in the result.
\<close>

theorem mod_ops_correct:
  assumes "a < M"
  shows "uint (AddM M a b) = (uint a + uint b) mod uint M \<and>
    uint (SubtractM M a b) = (uint a - uint b) mod uint M"
  using assms by (simp add: uint_AddM uint_SubtractM)

theorem mod_ops_correct_witness:
  "uint (AddM 10 7 (- 1)) = (uint (7 :: uint64_t) + uint (- 1 :: uint64_t)) mod uint (10 :: uint64_t) \<and>
   uint (SubtractM 10 7 (- 1)) = (uint (7 :: uint64_t) - uint (- 1 :: uint64_t)) mod uint (10 :: uint64_t)"
  by (rule mod_ops_correct) simp

end
