(* ===== verification/Float64.thy ===== *)
theory Float64
  imports Prelude "HOL-Library.Log_Nat"
begin

text \<open>
  The floating-point arithmetic of the C++ sources. A \<open>double\<close> or \<open>float\<close> is the
  rational number it denotes; every arithmetic operation computes the exact result and rounds
  it to the nearest number with 53 (or 24) significant bits, ties to even, as IEEE 754
  prescribes. The exponent is unbounded: infinities, NaN and subnormal numbers are not
  represented, so the theorems are about computations that stay in the normal range.
\<close>

section \<open>Rounding\<close>

definition rne :: "rat \<Rightarrow> int" where
  "rne r =
     (let f = \<lfloor>r\<rfloor>; d = r - of_int f
      in if d < 1 / 2 then f
         else if 1 / 2 < d then f + 1
         else if even f then f else f + 1)"

definition expo :: "rat \<Rightarrow> int" where
  "expo x =
     (case quotient_of \<bar>x\<bar> of (p, q) \<Rightarrow>
        let e = bitlen p - bitlen q
        in if 2 powi e \<le> \<bar>x\<bar> then e else e - 1)"

definition round_to :: "nat \<Rightarrow> rat \<Rightarrow> rat" where
  "round_to prec x =
     (if x = 0 then 0
      else let ulp = 2 powi (expo x + 1 - int prec) in of_int (rne (x / ulp)) * ulp)"

abbreviation f64 :: "rat \<Rightarrow> rat" where
  "f64 \<equiv> round_to 53"

abbreviation f32 :: "rat \<Rightarrow> rat" where
  "f32 \<equiv> round_to 24"

definition dadd :: "rat \<Rightarrow> rat \<Rightarrow> rat" where
  "dadd x y = f64 (x + y)"

definition dsub :: "rat \<Rightarrow> rat \<Rightarrow> rat" where
  "dsub x y = f64 (x - y)"

definition dmul :: "rat \<Rightarrow> rat \<Rightarrow> rat" where
  "dmul x y = f64 (x * y)"

definition ddiv :: "rat \<Rightarrow> rat \<Rightarrow> rat" where
  "ddiv x y = f64 (x / y)"

text \<open>Conversion of a floating-point value to an integer type drops the fraction.\<close>

definition trunc :: "rat \<Rightarrow> int" where
  "trunc x = (if 0 \<le> x then \<lfloor>x\<rfloor> else \<lceil>x\<rceil>)"

section \<open>Nearest rounding as a contract\<close>

text \<open>
  All the components use of the rounding: it yields a representable number, and none is
  nearer. Monotonicity and exactness on representable numbers follow.
\<close>

locale nearest_rounding =
  fixes rep :: "rat \<Rightarrow> bool" and rnd :: "rat \<Rightarrow> rat"
  assumes rnd_rep: "rep (rnd x)"
    and rnd_nearest: "rep y \<Longrightarrow> \<bar>rnd x - x\<bar> \<le> \<bar>y - x\<bar>"
begin

lemma rnd_exact: "rep x \<Longrightarrow> rnd x = x"
  using rnd_nearest [of x x] by simp

lemma rnd_mono:
  assumes "x \<le> y"
  shows "rnd x \<le> rnd y"
proof (rule ccontr)
  assume "\<not> rnd x \<le> rnd y"
  moreover have "\<bar>rnd x - x\<bar> \<le> \<bar>rnd y - x\<bar>" "\<bar>rnd y - y\<bar> \<le> \<bar>rnd x - y\<bar>"
    by (auto intro: rnd_nearest rnd_rep)
  ultimately have "x = y" using assms by (auto simp: abs_if split: if_splits)
  with \<open>\<not> rnd x \<le> rnd y\<close> show False by simp
qed

lemma rnd_le: "rep y \<Longrightarrow> x \<le> y \<Longrightarrow> rnd x \<le> y"
  using rnd_mono [of x y] by (simp add: rnd_exact)

lemma rnd_ge: "rep y \<Longrightarrow> y \<le> x \<Longrightarrow> y \<le> rnd x"
  using rnd_mono [of y x] by (simp add: rnd_exact)

lemma less_of_rnd_less: "rnd x < rnd y \<Longrightarrow> x < y"
  using rnd_mono [of y x] by (meson not_le)

end

section \<open>The rounding function meets the contract\<close>

definition representable :: "nat \<Rightarrow> rat \<Rightarrow> bool" where
  "representable prec y \<longleftrightarrow> (\<exists>m e. y = of_int m * 2 powi e \<and> \<bar>m\<bar> \<le> 2 ^ prec)"

lemma rne_cases:
  obtains f where "of_int f \<le> r" "r < of_int f + 1" and
    "rne r = (if r - of_int f < 1 / 2 then f
              else if 1 / 2 < r - of_int f then f + 1 else if even f then f else f + 1)"
proof
  show "of_int \<lfloor>r\<rfloor> \<le> r" "r < of_int \<lfloor>r\<rfloor> + 1" by linarith+
qed (simp add: rne_def Let_def)

lemma rne_bounds: "\<bar>of_int (rne r) - r\<bar> \<le> 1 / 2"
  by (rule rne_cases [of r]) (auto simp: abs_if not_less)

lemma rne_nearest: "\<bar>of_int (rne r) - r\<bar> \<le> \<bar>of_int k - r\<bar>"
proof (rule rne_cases [of r])
  fix f
  assume f: "of_int f \<le> r" "r < of_int f + 1" and
    e: "rne r = (if r - of_int f < 1 / 2 then f
              else if 1 / 2 < r - of_int f then f + 1 else if even f then f else f + 1)"
  show ?thesis
  proof (cases "k = f \<or> k = f + 1")
    case True
    with f show ?thesis unfolding e by (auto simp: abs_if not_less)
  next
    case False
    then have "of_int k \<le> (of_int f - 1 :: rat) \<or> (of_int f + 2 :: rat) \<le> of_int k"
      by linarith
    then have "1 / 2 \<le> \<bar>of_int k - r\<bar>" using f by linarith
    with rne_bounds [of r] show ?thesis by linarith
  qed
qed

lemma powi_add1: "(2 :: rat) powi (e + 1) = 2 * 2 powi e"
  by (simp add: power_int_add)

lemma powi_le: "e \<le> e' \<Longrightarrow> (2 :: rat) powi e \<le> 2 powi e'"
  by (rule power_int_increasing) auto

lemma bitlen_rat_bounds:
  assumes "0 < p"
  shows "(2 :: rat) powi (bitlen p - 1) \<le> of_int p" "of_int p < (2 :: rat) powi bitlen p"
proof -
  have b: "2 ^ nat (bitlen p - 1) \<le> p \<and> p < 2 ^ nat (bitlen p)"
    using assms by (rule bitlen_bounds)
  have pos: "0 < bitlen p"
    using assms bitlen_nonneg [of p] bitlen_eq_zero_iff [of p] by linarith
  have "(2 :: rat) powi (bitlen p - 1) = of_int (2 ^ nat (bitlen p - 1))"
    using pos by (simp add: power_int_def)
  then show "(2 :: rat) powi (bitlen p - 1) \<le> of_int p"
    using b by (simp only: of_int_le_iff)
  have "(2 :: rat) powi bitlen p = of_int (2 ^ nat (bitlen p))"
    using pos by (simp add: power_int_def)
  then show "of_int p < (2 :: rat) powi bitlen p"
    using b by (simp only: of_int_less_iff)
qed

lemma expo_bounds:
  assumes "x \<noteq> 0"
  shows "2 powi expo x \<le> \<bar>x\<bar>" "\<bar>x\<bar> < 2 powi (expo x + 1)"
proof -
  obtain p q where pq: "quotient_of \<bar>x\<bar> = (p, q)" by fastforce
  have q: "0 < q" using pq by (rule quotient_of_denom_pos)
  have x: "\<bar>x\<bar> = of_int p / of_int q" using pq by (rule quotient_of_div)
  have p: "0 < p" using x q assms by (metis divide_pos_pos zero_less_abs_iff zero_less_divide_iff of_int_0_less_iff order_less_asym)
  let ?e = "bitlen p - bitlen q"
  have "(2 :: rat) powi (bitlen p - 1) / 2 powi bitlen q \<le> of_int p / of_int q"
    using bitlen_rat_bounds [OF p] bitlen_rat_bounds [OF q] p q
    by (intro frac_le) auto
  also have "(2 :: rat) powi (bitlen p - 1) / 2 powi bitlen q = 2 powi (?e - 1)"
    by (subst power_int_diff [symmetric]) (auto simp: algebra_simps)
  finally have lo: "2 powi (?e - 1) \<le> \<bar>x\<bar>" unfolding x .
  have "of_int p / of_int q < (2 :: rat) powi bitlen p / 2 powi (bitlen q - 1)"
    using bitlen_rat_bounds [OF p] bitlen_rat_bounds [OF q] p q
    by (intro frac_less) auto
  also have "(2 :: rat) powi bitlen p / 2 powi (bitlen q - 1) = 2 powi (?e + 1)"
    by (subst power_int_diff [symmetric]) (auto simp: algebra_simps)
  finally have hi: "\<bar>x\<bar> < 2 powi (?e + 1)" unfolding x .
  show "2 powi expo x \<le> \<bar>x\<bar>" "\<bar>x\<bar> < 2 powi (expo x + 1)"
    using lo hi by (auto simp: expo_def pq Let_def)
qed

lemma round_to_nonzero:
  assumes "x \<noteq> 0"
  shows "round_to prec x =
    of_int (rne (x / 2 powi (expo x + 1 - int prec))) * 2 powi (expo x + 1 - int prec)"
  using assms by (simp add: round_to_def Let_def)

lemma scaled_abs:
  fixes a b u :: rat
  assumes "0 < u"
  shows "\<bar>a * u - b * u\<bar> = \<bar>a - b\<bar> * u"
  using assms by (simp add: abs_mult flip: left_diff_distrib)

lemma round_to_nearest_multiple:
  assumes "x \<noteq> 0"
  shows "\<bar>round_to prec x - x\<bar> \<le> \<bar>of_int k * 2 powi (expo x + 1 - int prec) - x\<bar>"
proof -
  define u :: rat where "u = 2 powi (expo x + 1 - int prec)"
  have u: "0 < u" by (simp add: u_def)
  define r where "r = x / u"
  have x: "x = r * u" using u by (simp add: r_def)
  have "\<bar>of_int (rne r) - r\<bar> * u \<le> \<bar>of_int k - r\<bar> * u"
    using u rne_nearest by (intro mult_right_mono) auto
  then have "\<bar>of_int (rne r) * u - r * u\<bar> \<le> \<bar>of_int k * u - r * u\<bar>"
    using u by (simp add: scaled_abs)
  then show ?thesis
    unfolding round_to_nonzero [OF assms] u_def [symmetric] r_def [symmetric] x [symmetric] .
qed

lemma round_to_representable: "representable prec (round_to prec x)"
proof (cases "x = 0")
  case True
  then show ?thesis
    by (auto simp: round_to_def representable_def intro: exI [of _ 0])
next
  case False
  define u :: rat where "u = 2 powi (expo x + 1 - int prec)"
  have u: "0 < u" by (simp add: u_def)
  have "\<bar>x\<bar> < 2 ^ prec * u"
    using expo_bounds(2) [OF False] unfolding u_def
    by (simp add: power_int_diff power_int_add field_simps flip: power_int_of_nat)
  then have "\<bar>x / u\<bar> < 2 ^ prec" using u by (simp add: field_simps)
  then have "\<bar>of_int (rne (x / u))\<bar> < (2 ^ prec + 1 :: rat)"
    using rne_bounds [of "x / u"] by linarith
  then have "\<bar>of_int (rne (x / u))\<bar> < (of_int (2 ^ prec + 1) :: rat)" by simp
  then have "\<bar>rne (x / u)\<bar> \<le> 2 ^ prec"
    by (metis of_int_abs of_int_less_iff zle_add1_eq_le)
  then show ?thesis
    unfolding round_to_nonzero [OF False] u_def [symmetric] representable_def
    unfolding u_def by blast
qed

lemma round_to_nearest:
  assumes "0 < prec" and y: "representable prec y"
  shows "\<bar>round_to prec x - x\<bar> \<le> \<bar>y - x\<bar>"
proof (cases "x = 0")
  case False
  obtain m e where me: "y = of_int m * 2 powi e" "\<bar>m\<bar> \<le> 2 ^ prec"
    using y by (auto simp: representable_def)
  define E where "E = expo x + 1 - int prec"
  note mult = round_to_nearest_multiple [OF False, of prec, folded E_def]
  show ?thesis
  proof (cases "E \<le> e")
    case True
    then have "(2 :: rat) powi e = of_int (2 ^ nat (e - E)) * 2 powi E"
      by (simp add: power_int_diff flip: power_int_of_nat)
    then have "y = of_int (m * 2 ^ nat (e - E)) * 2 powi E"
      by (simp add: me(1))
    then show ?thesis using mult by metis
  next
    case False
    have "\<bar>y\<bar> = of_int \<bar>m\<bar> * 2 powi e" by (simp add: me(1) abs_mult)
    also have "\<dots> \<le> of_int (2 ^ prec) * 2 powi (E - 1)"
      using me(2) False by (intro mult_mono powi_le) (auto simp only: of_int_le_iff, auto)
    also have "\<dots> = 2 powi expo x"
      by (simp add: E_def power_int_diff)
    finally have yx: "\<bar>y\<bar> \<le> 2 powi expo x" .
    define c :: int where "c = (if 0 < x then 1 else - 1) * 2 ^ (prec - 1)"
    have "(2 :: rat) ^ (prec - 1) * 2 powi E = 2 powi (int (prec - 1) + E)"
      by (simp add: power_int_add)
    then have c: "of_int c * 2 powi E = (if 0 < x then 1 else - 1) * (2 :: rat) powi expo x"
      using assms(1) by (simp add: c_def E_def of_nat_diff)
    have "\<bar>round_to prec x - x\<bar> \<le> \<bar>of_int c * 2 powi E - x\<bar>" by (rule mult)
    also have "\<dots> = \<bar>x\<bar> - 2 powi expo x"
      using expo_bounds(1) [of x] \<open>x \<noteq> 0\<close> unfolding c by (auto simp: abs_if)
    also have "\<dots> \<le> \<bar>y - x\<bar>" using yx by linarith
    finally show ?thesis .
  qed
qed (simp add: round_to_def)

interpretation double: nearest_rounding "representable 53" "round_to 53"
  by unfold_locales (simp_all add: round_to_representable round_to_nearest)

interpretation single: nearest_rounding "representable 24" "round_to 24"
  by unfold_locales (simp_all add: round_to_representable round_to_nearest)

section \<open>Facts the components use\<close>

lemma representable_of_int: "\<bar>k\<bar> \<le> 2 ^ prec \<Longrightarrow> representable prec (of_int k)"
  unfolding representable_def by (intro exI [of _ k] exI [of _ 0]) simp

lemma representable_numeral:
  "numeral w \<le> (2 :: int) ^ prec \<Longrightarrow> representable prec (numeral w)"
  using representable_of_int [of "numeral w" prec] by simp

lemma representable_0 [simp]: "representable prec 0"
  using representable_of_int [of 0] by simp

lemma representable_1 [simp]: "representable prec 1"
  using representable_of_int [of 1] by simp

lemma representable_scale:
  assumes "representable prec x"
  shows "representable prec (x * 2 powi k)"
proof -
  obtain m e where "x = of_int m * 2 powi e" "\<bar>m\<bar> \<le> 2 ^ prec"
    using assms by (auto simp: representable_def)
  then have "x * 2 powi k = of_int m * 2 powi (e + k)" by (simp add: power_int_add)
  with \<open>\<bar>m\<bar> \<le> 2 ^ prec\<close> show ?thesis unfolding representable_def by blast
qed

lemma representable_half: "representable prec x \<Longrightarrow> representable prec (x / 2)"
  using representable_scale [of prec x "- 1"] by (simp add: power_int_minus field_simps)

lemma round_to_error:
  assumes "0 < prec"
  shows "\<bar>round_to prec x - x\<bar> \<le> \<bar>x\<bar> / 2 ^ prec"
proof (cases "x = 0")
  case False
  define u :: rat where "u = 2 powi (expo x + 1 - int prec)"
  have u: "0 < u" by (simp add: u_def)
  have "\<bar>of_int (rne (x / u)) - x / u\<bar> * u \<le> 1 / 2 * u"
    using u rne_bounds by (intro mult_right_mono) auto
  then have "\<bar>round_to prec x - x\<bar> \<le> u / 2"
    using u scaled_abs [OF u, of "of_int (rne (x / u))" "x / u"]
    by (simp add: round_to_nonzero [OF False] flip: u_def)
  also have "\<dots> = 2 powi expo x / 2 ^ prec"
    by (simp add: u_def power_int_diff power_int_add)
  also have "\<dots> \<le> \<bar>x\<bar> / 2 ^ prec"
    using expo_bounds(1) [OF False] by (intro divide_right_mono) auto
  finally show ?thesis .
qed (simp add: round_to_def)

lemma trunc_unique:
  assumes "of_int k \<le> x" "x < of_int k + 1" "0 \<le> k"
  shows "trunc x = k"
  using assms floor_unique [of k x] by (simp add: trunc_def order_trans [of 0 "of_int k"])

lemma f64_nonneg: "0 \<le> x \<Longrightarrow> 0 \<le> f64 x"
  by (rule double.rnd_ge) auto

lemma rne_minus: "rne (- r) = - rne r"
proof (cases "r = of_int \<lfloor>r\<rfloor>")
  case True
  then have "\<lfloor>- r\<rfloor> = - \<lfloor>r\<rfloor>" by (metis floor_of_int of_int_minus)
  then show ?thesis using True by (simp add: rne_def Let_def)
next
  case False
  then have "of_int \<lfloor>r\<rfloor> < r" using of_int_floor_le [of r] by linarith
  then have "\<lfloor>- r\<rfloor> = - \<lfloor>r\<rfloor> - 1" by (intro floor_unique) (simp, linarith, simp)
  then show ?thesis by (auto simp: rne_def Let_def)
qed

lemma round_to_minus: "round_to prec (- x) = - round_to prec x"
  by (simp add: round_to_def expo_def Let_def rne_minus)

end
