(* ===== verification/Units.thy ===== *)
theory Units
  imports Float64 "HOL-Library.Signed_Division"
begin

text \<open>
  Rates, sizes and times: \<open>rtc_base/units/unit_base.h\<close>, \<open>rtc_base/numerics/divide_round.h\<close> and the
  arithmetic between \<open>DataRate\<close>, \<open>DataSize\<close>, \<open>TimeDelta\<close> and \<open>Timestamp\<close> of \<open>api/units\<close>. A value is
  the stored \<open>int64_t\<close> (bits per second, bytes, microseconds), with the two extreme values standing
  for the infinities. Sums and products that leave the 64-bit range are undefined in C++ and are
  outside the model. \<^const>\<open>signed_divide\<close> is C++ division, truncating towards zero. Products with a
  \<open>double\<close> are rounded as in \<open>Float64\<close>.
\<close>

section \<open>Rounding divisions\<close>

definition DivideRoundUp :: "int \<Rightarrow> int \<Rightarrow> int" where
  "DivideRoundUp dividend divisor =
     (let quotient = dividend sdiv divisor; remainder = dividend smod divisor
      in quotient + (if remainder > 0 then 1 else 0))"

definition DivideRoundToNearest :: "int \<Rightarrow> int \<Rightarrow> int" where
  "DivideRoundToNearest dividend divisor =
     (if dividend < 0
      then (let half_of_divisor = divisor sdiv 2;
                quotient = dividend sdiv divisor;
                remainder = dividend smod divisor
            in if - remainder > half_of_divisor then quotient - 1 else quotient)
      else (let half_of_divisor = (divisor - 1) sdiv 2;
                quotient = dividend sdiv divisor;
                remainder = dividend smod divisor
            in if remainder > half_of_divisor then quotient + 1 else quotient))"

text \<open>\<open>std::llround\<close>: to nearest, ties away from zero.\<close>

definition llround :: "rat \<Rightarrow> int" where
  "llround x = (if 0 \<le> x then \<lfloor>x + 1/2\<rfloor> else - \<lfloor>- x + 1/2\<rfloor>)"

section \<open>Values with infinities\<close>

definition PlusInfinityVal :: int where
  "PlusInfinityVal = 2 ^ 63 - 1"

definition MinusInfinityVal :: int where
  "MinusInfinityVal = - (2 ^ 63)"

definition IsFinite :: "int \<Rightarrow> bool" where
  "IsFinite v \<longleftrightarrow> \<not> (v = PlusInfinityVal \<or> v = MinusInfinityVal)"

definition unit_plus :: "int \<Rightarrow> int \<Rightarrow> int" where
  "unit_plus a b =
     (if a = PlusInfinityVal \<or> b = PlusInfinityVal then PlusInfinityVal
      else if a = MinusInfinityVal \<or> b = MinusInfinityVal then MinusInfinityVal
      else a + b)"

definition unit_minus :: "int \<Rightarrow> int \<Rightarrow> int" where
  "unit_minus a b =
     (if a = PlusInfinityVal \<or> b = MinusInfinityVal then PlusInfinityVal
      else if a = MinusInfinityVal \<or> b = PlusInfinityVal then MinusInfinityVal
      else a - b)"

definition unit_times_double :: "int \<Rightarrow> rat \<Rightarrow> int" where
  "unit_times_double a scalar = llround (dmul (f64 (of_int a)) scalar)"

definition unit_div_double :: "int \<Rightarrow> rat \<Rightarrow> int" where
  "unit_div_double a scalar = llround (ddiv (f64 (of_int a)) scalar)"

definition unit_ratio :: "int \<Rightarrow> int \<Rightarrow> rat" where
  "unit_ratio a b = ddiv (f64 (of_int a)) (f64 (of_int b))"

definition Clamped :: "int \<Rightarrow> int \<Rightarrow> int \<Rightarrow> int" where
  "Clamped v min_value max_value = max min_value (min v max_value)"

definition RoundTo :: "int \<Rightarrow> int \<Rightarrow> int" where
  "RoundTo v resolution = ((v + resolution sdiv 2) sdiv resolution) * resolution"

definition RoundUpTo :: "int \<Rightarrow> int \<Rightarrow> int" where
  "RoundUpTo v resolution = ((v + resolution - 1) sdiv resolution) * resolution"

definition RoundDownTo :: "int \<Rightarrow> int \<Rightarrow> int" where
  "RoundDownTo v resolution = (v sdiv resolution) * resolution"

section \<open>Rates, sizes and times\<close>

definition KilobitsPerSec :: "int \<Rightarrow> int" where
  "KilobitsPerSec v = v * 1000"

definition BytesPerSec :: "int \<Rightarrow> int" where
  "BytesPerSec v = v * 8"

definition kbps :: "int \<Rightarrow> int" where
  "kbps v = DivideRoundToNearest v 1000"

definition bytes_per_sec :: "int \<Rightarrow> int" where
  "bytes_per_sec v = DivideRoundToNearest v 8"

definition Seconds :: "int \<Rightarrow> int" where
  "Seconds v = v * 1000000"

definition Millis :: "int \<Rightarrow> int" where
  "Millis v = v * 1000"

definition ms :: "int \<Rightarrow> int" where
  "ms v = DivideRoundToNearest v 1000"

definition Microbits :: "int \<Rightarrow> int" where
  "Microbits bytes = bytes * 8000000"

text \<open>Size over duration, size over rate, and rate times duration; \<^term>\<open>None\<close> is a division by zero.\<close>

definition rate_of :: "int \<Rightarrow> int \<Rightarrow> int option" where
  "rate_of bytes duration = (if duration = 0 then None else Some (Microbits bytes sdiv duration))"

definition time_of :: "int \<Rightarrow> int \<Rightarrow> int option" where
  "time_of bytes rate = (if rate = 0 then None else Some (Microbits bytes sdiv rate))"

definition size_of :: "int \<Rightarrow> int \<Rightarrow> int" where
  "size_of rate duration = (rate * duration + 4000000) sdiv 8000000"

section \<open>Lemmas\<close>

lemma sdiv_nonneg: "0 \<le> a \<Longrightarrow> 0 \<le> b \<Longrightarrow> a sdiv b = a div b" for a b :: int
  by (cases "a = 0"; cases "b = 0") (auto simp: signed_divide_int_def sgn_if)

lemma smod_nonneg: "0 \<le> a \<Longrightarrow> 0 \<le> b \<Longrightarrow> a smod b = a mod b" for a b :: int
  by (cases "a = 0") (auto simp: signed_modulo_int_def sgn_if)

lemma sdiv_neg: "a \<le> 0 \<Longrightarrow> 0 \<le> b \<Longrightarrow> a sdiv b = - ((- a) div b)" for a b :: int
  by (cases "a = 0"; cases "b = 0") (auto simp: signed_divide_int_def sgn_if)

lemma unit_plus_finite [simp]: "IsFinite a \<Longrightarrow> IsFinite b \<Longrightarrow> unit_plus a b = a + b"
  by (simp add: unit_plus_def IsFinite_def)

lemma unit_minus_finite [simp]: "IsFinite a \<Longrightarrow> IsFinite b \<Longrightarrow> unit_minus a b = a - b"
  by (simp add: unit_minus_def IsFinite_def)

lemma IsFinite_bounds: "\<bar>v\<bar> < 9223372036854775807 \<Longrightarrow> IsFinite v"
  by (auto simp: IsFinite_def PlusInfinityVal_def MinusInfinityVal_def)

lemma size_of_div: "0 \<le> rate \<Longrightarrow> 0 \<le> duration \<Longrightarrow> size_of rate duration = (rate * duration + 4000000) div 8000000"
  by (simp add: size_of_def sdiv_nonneg)

lemma size_of_nonneg: "0 \<le> rate \<Longrightarrow> 0 \<le> duration \<Longrightarrow> 0 \<le> size_of rate duration"
  by (simp add: size_of_div pos_imp_zdiv_nonneg_iff)

lemma size_of_mono:
  "0 \<le> rate \<Longrightarrow> 0 \<le> d \<Longrightarrow> d \<le> d' \<Longrightarrow> size_of rate d \<le> size_of rate d'"
  by (simp add: size_of_div zdiv_mono1 mult_left_mono)

lemma quotient_unique: "\<lbrakk>b * q \<le> a; a < b * q + b; 0 < b\<rbrakk> \<Longrightarrow> a div b = q" for a b q :: int
  by (rule int_div_pos_eq [where r = "a - b * q"]) auto

lemma floor_half_div: "0 < d \<Longrightarrow> \<lfloor>rat_of_int a / rat_of_int d + 1/2\<rfloor> = (2 * a + d) div (2 * d)"
proof -
  assume "0 < d"
  then have "rat_of_int a / rat_of_int d + 1/2 = rat_of_int (2 * a + d) / rat_of_int (2 * d)"
    by (simp add: field_simps)
  then show ?thesis by (simp only: floor_divide_of_int_eq)
qed

lemma nearest_div:
  fixes a d :: int
  assumes "0 < d"
  shows "(2 * a + d) div (2 * d) = a div d + (if d \<le> 2 * (a mod d) then 1 else 0)"
proof -
  have a: "2 * a = 2 * d * (a div d) + 2 * (a mod d)"
    by (metis distrib_left mult.assoc mult_div_mod_eq)
  have r: "0 \<le> a mod d" "a mod d < d" using assms by simp_all
  show ?thesis
  proof (rule quotient_unique)
    show "0 < 2 * d" using assms by simp
  qed (use a r in \<open>auto simp: distrib_left split: if_splits\<close>)
qed

lemma half_bounds:
  fixes x S m b r :: int
  assumes "x + 4000000 = 8000000 * S + m" "0 \<le> m" "m < 8000000" "x \<le> b * 8000000" "b * 8000000 < x + r"
  shows "S \<le> b" "8000000 * (b - S) < r + 4000000" "r \<le> 4000000 \<Longrightarrow> S = b"
proof -
  show "S \<le> b" using assms by linarith
  show *: "8000000 * (b - S) < r + 4000000" unfolding right_diff_distrib using assms by linarith
  show "S = b" if "r \<le> 4000000"
  proof -
    have "8000000 * (b - S) < 8000000 * 1" using * that by linarith
    then have "b - S < 1" by (rule mult_less_cancel_left_pos [THEN iffD1, rotated]) simp
    then show ?thesis using \<open>S \<le> b\<close> by linarith
  qed
qed

section \<open>Properties\<close>

text \<open>
  \<open>DivideRoundToNearest\<close> rounds the exact quotient to the nearest integer, ties upwards, for
  positive and negative dividends alike.
\<close>

theorem DivideRoundToNearest_correct:
  assumes "0 < d"
  shows "DivideRoundToNearest a d = \<lfloor>rat_of_int a / rat_of_int d + 1/2\<rfloor>"
proof (cases "a < 0")
  case False
  have "(d - 1) div 2 < x \<longleftrightarrow> d \<le> 2 * x" for x by presburger
  with False assms show ?thesis
    by (simp add: DivideRoundToNearest_def Let_def sdiv_nonneg smod_nonneg floor_half_div nearest_div)
next
  case True
  define b where "b = - a"
  have sm: "a smod d = - (b mod d)" "a sdiv d = - (b div d)"
    using True assms
    by (simp_all add: b_def signed_modulo_int_def sdiv_neg minus_mult_div_eq_mod [symmetric] mult.commute)
  have "(2 * a + d) div (2 * d) = - (b div d) - (if d < 2 * (b mod d) then 1 else 0)"
  proof (rule quotient_unique)
    have "2 * b = 2 * d * (b div d) + 2 * (b mod d)"
      by (metis distrib_left mult.assoc mult_div_mod_eq)
    then have "2 * a = - (2 * d * (b div d)) - 2 * (b mod d)" by (simp add: b_def)
    moreover have "0 \<le> b mod d" "b mod d < d" using assms by simp_all
    ultimately show "2 * d * (- (b div d) - (if d < 2 * (b mod d) then 1 else 0)) \<le> 2 * a + d"
      "2 * a + d < 2 * d * (- (b div d) - (if d < 2 * (b mod d) then 1 else 0)) + 2 * d"
      by (auto simp: right_diff_distrib split: if_splits)
  qed (use assms in simp)
  moreover have "d div 2 < x \<longleftrightarrow> d < 2 * x" for x by presburger
  ultimately show ?thesis
    using True assms by (simp add: DivideRoundToNearest_def Let_def sm floor_half_div sdiv_nonneg)
qed

theorem DivideRoundToNearest_correct_witness:
  "DivideRoundToNearest (- 1500) 1000 = \<lfloor>rat_of_int (- 1500) / rat_of_int 1000 + 1/2\<rfloor>"
  using DivideRoundToNearest_correct [of 1000 "- 1500"] by simp

text \<open>
  C34. Sending takes the right time: at a positive rate the bytes that fit in the time computed
  for a packet never exceed the packet, fall short of it by at most half a byte plus the bits of
  one microsecond, and are exactly the packet for rates up to 4 Mbps.
\<close>

theorem size_of_time_of:
  assumes "0 \<le> bytes" "0 < rate" "time_of bytes rate = Some t"
  shows "0 \<le> t \<and> size_of rate t \<le> bytes \<and> 8000000 * (bytes - size_of rate t) < rate + 4000000 \<and>
    (rate \<le> 4000000 \<longrightarrow> size_of rate t = bytes)"
proof -
  have t: "t = bytes * 8000000 div rate"
    using assms by (auto simp: time_of_def Microbits_def sdiv_nonneg)
  then have t0: "0 \<le> t" using assms by (simp add: pos_imp_zdiv_nonneg_iff)
  have "rate * t + (bytes * 8000000) mod rate = bytes * 8000000" by (simp add: t)
  moreover have "0 \<le> (bytes * 8000000) mod rate" "(bytes * 8000000) mod rate < rate"
    using assms by simp_all
  ultimately have rt: "rate * t \<le> bytes * 8000000" "bytes * 8000000 < rate * t + rate" by linarith+
  have s: "size_of rate t = (rate * t + 4000000) div 8000000"
    using t0 assms by (simp add: size_of_div)
  have e: "rate * t + 4000000 = 8000000 * size_of rate t + (rate * t + 4000000) mod 8000000"
    unfolding s by (rule mult_div_mod_eq [symmetric])
  have m: "0 \<le> (rate * t + 4000000) mod 8000000" "(rate * t + 4000000) mod 8000000 < 8000000"
    by simp_all
  show ?thesis using half_bounds [OF e m rt] t0 by blast
qed

theorem size_of_time_of_witness: "time_of 1200 1000000 = Some 9600 \<and> size_of 1000000 9600 = 1200"
proof -
  have "time_of 1200 1000000 = Some 9600" by (simp add: time_of_def Microbits_def sdiv_nonneg)
  then show ?thesis using size_of_time_of [of 1200 1000000 9600] by simp
qed

end
