(* ===== verification/InterArrivalDelta.thy ===== *)
theory InterArrivalDelta
  imports Units
begin

text \<open>
  Grouping of packets into send bursts, \<open>modules/congestion_controller/goog_cc/inter_arrival_delta.cc\<close>:
  the delay detector is fed the differences between consecutive groups.
\<close>

section \<open>Data\<close>

record SendTimeGroup =
  group_size :: int
  first_send_time :: int
  group_send_time :: int
  first_arrival :: int
  complete_time :: int
  last_system_time :: int

definition new_SendTimeGroup :: SendTimeGroup where
  "new_SendTimeGroup =
     \<lparr>group_size = 0, first_send_time = MinusInfinityVal, group_send_time = MinusInfinityVal,
      first_arrival = MinusInfinityVal, complete_time = MinusInfinityVal,
      last_system_time = MinusInfinityVal\<rparr>"

definition IsFirstPacket :: "SendTimeGroup \<Rightarrow> bool" where
  "IsFirstPacket g \<longleftrightarrow> \<not> IsFinite (complete_time g)"

record InterArrivalDelta =
  send_time_group_length :: int
  current_timestamp_group :: SendTimeGroup
  prev_timestamp_group :: SendTimeGroup
  num_consecutive_reordered_packets :: int

definition new_InterArrivalDelta :: "int \<Rightarrow> InterArrivalDelta" where
  "new_InterArrivalDelta group_length =
     \<lparr>send_time_group_length = group_length, current_timestamp_group = new_SendTimeGroup,
      prev_timestamp_group = new_SendTimeGroup, num_consecutive_reordered_packets = 0\<rparr>"

definition kBurstDeltaThreshold :: int where
  "kBurstDeltaThreshold = Millis 5"

definition kMaxBurstDuration :: int where
  "kMaxBurstDuration = Millis 100"

definition kReorderedResetThreshold :: int where
  "kReorderedResetThreshold = 3"

definition kArrivalTimeOffsetThreshold :: int where
  "kArrivalTimeOffsetThreshold = Seconds 3"

section \<open>Operations\<close>

definition BelongsToBurst :: "int \<Rightarrow> int \<Rightarrow> InterArrivalDelta \<Rightarrow> bool" where
  "BelongsToBurst arrival_time send_time d =
     (let g = current_timestamp_group d;
          arrival_time_delta = unit_minus arrival_time (complete_time g);
          send_time_delta = unit_minus send_time (group_send_time g)
      in if send_time_delta = 0 then True
         else let propagation_delta = unit_minus arrival_time_delta send_time_delta
         in propagation_delta < 0 \<and> arrival_time_delta \<le> kBurstDeltaThreshold \<and>
            unit_minus arrival_time (first_arrival g) < kMaxBurstDuration)"

definition NewTimestampGroup :: "int \<Rightarrow> int \<Rightarrow> InterArrivalDelta \<Rightarrow> bool" where
  "NewTimestampGroup arrival_time send_time d =
     (if IsFirstPacket (current_timestamp_group d) then False
      else if BelongsToBurst arrival_time send_time d then False
      else unit_minus send_time (first_send_time (current_timestamp_group d)) > send_time_group_length d)"

definition ia_Reset :: "InterArrivalDelta \<Rightarrow> InterArrivalDelta" where
  "ia_Reset d =
     d\<lparr>num_consecutive_reordered_packets := 0, current_timestamp_group := new_SendTimeGroup,
       prev_timestamp_group := new_SendTimeGroup\<rparr>"

text \<open>The output arguments: send time, arrival time and size delta.\<close>

record deltas =
  send_time_delta :: int
  arrival_time_delta :: int
  packet_size_delta :: int

text \<open>The packet joins the current group, at the end of \<open>ComputeDeltas\<close>.\<close>

definition join_group :: "int \<Rightarrow> int \<Rightarrow> int \<Rightarrow> InterArrivalDelta \<Rightarrow> InterArrivalDelta" where
  "join_group arrival_time system_time packet_size d =
     d\<lparr>current_timestamp_group := (current_timestamp_group d)
         \<lparr>group_size := group_size (current_timestamp_group d) + packet_size,
          complete_time := arrival_time, last_system_time := system_time\<rparr>\<rparr>"

definition start_group :: "int \<Rightarrow> int \<Rightarrow> InterArrivalDelta \<Rightarrow> InterArrivalDelta" where
  "start_group send_time arrival_time d =
     d\<lparr>prev_timestamp_group := current_timestamp_group d,
       current_timestamp_group := (current_timestamp_group d)
         \<lparr>first_send_time := send_time, group_send_time := send_time, first_arrival := arrival_time,
          group_size := 0\<rparr>\<rparr>"

text \<open>
  The result is the return value, the output arguments (as the caller passed them in \<open>out\<close> where they
  are not assigned) and the new state. Packet groups are far below 2 GiB, so the casts of their sizes to
  \<open>int\<close> are the identity.
\<close>

definition ComputeDeltas ::
  "int \<Rightarrow> int \<Rightarrow> int \<Rightarrow> int \<Rightarrow> deltas \<Rightarrow> InterArrivalDelta \<Rightarrow> bool \<times> deltas \<times> InterArrivalDelta" where
  "ComputeDeltas send_time arrival_time system_time packet_size out d =
     (let cur = current_timestamp_group d; prev = prev_timestamp_group d
      in if IsFirstPacket cur
         then (False, out,
               join_group arrival_time system_time packet_size
                 (d\<lparr>current_timestamp_group := cur\<lparr>group_send_time := send_time, first_send_time := send_time,
                                                  first_arrival := arrival_time\<rparr>\<rparr>))
         else if first_send_time cur > send_time then (False, out, d)
         else if NewTimestampGroup arrival_time send_time d
         then (if IsFinite (complete_time prev)
               then let send_delta = unit_minus (group_send_time cur) (group_send_time prev);
                        arrival_delta = unit_minus (complete_time cur) (complete_time prev);
                        system_delta = unit_minus (last_system_time cur) (last_system_time prev);
                        out = out\<lparr>send_time_delta := send_delta, arrival_time_delta := arrival_delta\<rparr>
                    in if unit_minus arrival_delta system_delta \<ge> kArrivalTimeOffsetThreshold
                       then (False, out, ia_Reset d)
                       else if arrival_delta < 0
                       then (let d = d\<lparr>num_consecutive_reordered_packets :=
                                        num_consecutive_reordered_packets d + 1\<rparr>
                             in (False, out,
                                 if num_consecutive_reordered_packets d \<ge> kReorderedResetThreshold
                                 then ia_Reset d else d))
                       else (True, out\<lparr>packet_size_delta := group_size cur - group_size prev\<rparr>,
                             join_group arrival_time system_time packet_size
                               (start_group send_time arrival_time
                                  (d\<lparr>num_consecutive_reordered_packets := 0\<rparr>)))
               else (False, out,
                     join_group arrival_time system_time packet_size (start_group send_time arrival_time d)))
         else (False, out,
               join_group arrival_time system_time packet_size
                 (d\<lparr>current_timestamp_group :=
                      cur\<lparr>group_send_time := max (group_send_time cur) send_time\<rparr>\<rparr>)))"


section \<open>Runs\<close>

record ia_packet =
  ip_send :: int
  ip_arrival :: int
  ip_system :: int
  ip_size :: int

definition no_deltas :: deltas where
  "no_deltas = \<lparr>send_time_delta = 0, arrival_time_delta = 0, packet_size_delta = 0\<rparr>"

definition ia_step :: "ia_packet \<Rightarrow> InterArrivalDelta \<Rightarrow> bool \<times> deltas \<times> InterArrivalDelta" where
  "ia_step p d = ComputeDeltas (ip_send p) (ip_arrival p) (ip_system p) (ip_size p) no_deltas d"

fun ia_run :: "ia_packet list \<Rightarrow> InterArrivalDelta \<Rightarrow> deltas list \<times> InterArrivalDelta" where
  "ia_run [] d = ([], d)"
| "ia_run (p # ps) d =
     (let (calculated, out, d) = ia_step p d; (outs, d) = ia_run ps d
      in (if calculated then out # outs else outs, d))"

text \<open>A previous group is there all along: the grouping has started and is not reset on the way.\<close>

fun not_reset :: "ia_packet list \<Rightarrow> InterArrivalDelta \<Rightarrow> bool" where
  "not_reset [] d \<longleftrightarrow> IsFinite (complete_time (prev_timestamp_group d))"
| "not_reset (p # ps) d \<longleftrightarrow>
     IsFinite (complete_time (prev_timestamp_group d)) \<and> not_reset ps (snd (snd (ia_step p d)))"

definition packet_ok :: "ia_packet \<Rightarrow> bool" where
  "packet_ok p \<longleftrightarrow> IsFinite (ip_send p) \<and> IsFinite (ip_arrival p)"

definition group_ok :: "SendTimeGroup \<Rightarrow> bool" where
  "group_ok g \<longleftrightarrow> (IsFinite (complete_time g) \<longrightarrow> IsFinite (group_send_time g))"

definition ia_ok :: "InterArrivalDelta \<Rightarrow> bool" where
  "ia_ok d \<longleftrightarrow> group_ok (current_timestamp_group d) \<and> group_ok (prev_timestamp_group d)"

lemma ia_ok_new: "ia_ok (new_InterArrivalDelta n)"
  by (simp add: ia_ok_def group_ok_def new_InterArrivalDelta_def new_SendTimeGroup_def IsFinite_def)

lemma infinite_new [simp]: "\<not> IsFinite (complete_time new_SendTimeGroup)"
  by (simp add: new_SendTimeGroup_def IsFinite_def)

lemma ia_ok_step: "ia_ok d \<Longrightarrow> packet_ok p \<Longrightarrow> ia_ok (snd (snd (ia_step p d)))"
  by (auto simp: ia_step_def ComputeDeltas_def Let_def ia_ok_def group_ok_def packet_ok_def join_group_def
      start_group_def ia_Reset_def IsFirstPacket_def max_def)

lemma ia_ok_run: "ia_ok d \<Longrightarrow> \<forall>p\<in>set ps. packet_ok p \<Longrightarrow> ia_ok (snd (ia_run ps d))"
proof (induction ps arbitrary: d)
  case (Cons p ps)
  obtain c out d1 where s: "ia_step p d = (c, out, d1)" by (metis prod.exhaust)
  have "ia_ok d1" using ia_ok_step [of d p] Cons.prems s by simp
  then show ?case using Cons.IH [of d1] Cons.prems s by (simp add: case_prod_beta)
qed simp

lemma ia_step_reports:
  assumes "ia_ok d" and "ia_step p d = (True, out, d')"
  shows "IsFinite (complete_time (prev_timestamp_group d))"
    and "prev_timestamp_group d' = current_timestamp_group d"
    and "send_time_delta out =
      group_send_time (current_timestamp_group d) - group_send_time (prev_timestamp_group d)"
    and "arrival_time_delta out =
      complete_time (current_timestamp_group d) - complete_time (prev_timestamp_group d)"
    and "packet_size_delta out = group_size (current_timestamp_group d) - group_size (prev_timestamp_group d)"
    and "0 \<le> arrival_time_delta out"
  using assms
  by (auto simp: ia_step_def ComputeDeltas_def Let_def ia_ok_def group_ok_def IsFirstPacket_def join_group_def
      start_group_def split: if_splits)

lemma ia_step_silent:
  assumes "ia_step p d = (False, out, d')" and "IsFinite (complete_time (prev_timestamp_group d))"
    and "IsFinite (complete_time (prev_timestamp_group d'))"
  shows "prev_timestamp_group d' = prev_timestamp_group d"
  using assms
  by (auto simp: ia_step_def ComputeDeltas_def Let_def join_group_def start_group_def ia_Reset_def
      split: if_splits)

lemma not_reset_start: "not_reset ps d \<Longrightarrow> IsFinite (complete_time (prev_timestamp_group d))"
  by (cases ps) auto

lemma run_telescopes:
  assumes "ia_ok d" and "\<forall>p\<in>set ps. packet_ok p" and "not_reset ps d" and "ia_run ps d = (outs, d')"
  shows "sum_list (map send_time_delta outs) =
      group_send_time (prev_timestamp_group d') - group_send_time (prev_timestamp_group d) \<and>
    sum_list (map arrival_time_delta outs) =
      complete_time (prev_timestamp_group d') - complete_time (prev_timestamp_group d) \<and>
    sum_list (map packet_size_delta outs) =
      group_size (prev_timestamp_group d') - group_size (prev_timestamp_group d) \<and>
    (\<forall>out\<in>set outs. 0 \<le> arrival_time_delta out)"
  using assms
proof (induction ps arbitrary: d outs)
  case (Cons p ps)
  obtain c out d1 where s: "ia_step p d = (c, out, d1)" by (metis prod.exhaust)
  obtain outs1 d2 where r: "ia_run ps d1 = (outs1, d2)" by fastforce
  have o: "outs = (if c then out # outs1 else outs1)" "d2 = d'" using Cons.prems(4) s r by auto
  have ok: "ia_ok d1" using ia_ok_step [of d p] Cons.prems s by simp
  have nr: "not_reset ps d1" "IsFinite (complete_time (prev_timestamp_group d))" using Cons.prems(3) s by simp_all
  note IH = Cons.IH [OF ok _ nr(1) r [unfolded o(2)]]
  show ?case
  proof (cases c)
    case True
    have s': "ia_step p d = (True, out, d1)" using s True by simp
    note R = ia_step_reports [OF Cons.prems(1) s']
    show ?thesis using IH Cons.prems(2) R o True by auto
  next
    case False
    have s': "ia_step p d = (False, out, d1)" using s False by simp
    show ?thesis
      using IH Cons.prems(2) ia_step_silent [OF s' nr(2) not_reset_start [OF nr(1)]] o False by simp
  qed
qed simp

section \<open>Property\<close>

text \<open>
  C17. No delay is lost or counted twice: over any stretch of packets in which the grouping is not
  reset, whatever the reordering, the deltas handed to the delay detector add up to the distance
  between the groups at its two ends, in send time, arrival time and size, and no arrival delta is
  negative.
\<close>

theorem deltas_telescope:
  assumes "\<forall>p\<in>set (qs @ ps). packet_ok p"
    and "ia_run qs (new_InterArrivalDelta group_length) = (before, d)"
    and "ia_run ps d = (outs, d')" and "not_reset ps d"
  shows "sum_list (map send_time_delta outs) =
      group_send_time (prev_timestamp_group d') - group_send_time (prev_timestamp_group d) \<and>
    sum_list (map arrival_time_delta outs) =
      complete_time (prev_timestamp_group d') - complete_time (prev_timestamp_group d) \<and>
    sum_list (map packet_size_delta outs) =
      group_size (prev_timestamp_group d') - group_size (prev_timestamp_group d) \<and>
    (\<forall>out\<in>set outs. 0 \<le> arrival_time_delta out)"
proof -
  have "ia_ok d" using ia_ok_run [OF ia_ok_new, of qs group_length] assms(1,2) by simp
  then show ?thesis by (rule run_telescopes) (use assms in auto)
qed

definition sample_ia_packets :: "ia_packet list" where
  "sample_ia_packets =
     [\<lparr>ip_send = 20000, ip_arrival = 71000, ip_system = 100000, ip_size = 1200\<rparr>,
      \<lparr>ip_send = 10000, ip_arrival = 72000, ip_system = 100000, ip_size = 1200\<rparr>,
      \<lparr>ip_send = 40000, ip_arrival = 95000, ip_system = 120000, ip_size = 1200\<rparr>,
      \<lparr>ip_send = 60000, ip_arrival = 125000, ip_system = 150000, ip_size = 1200\<rparr>]"

definition sample_ia_start :: "ia_packet list" where
  "sample_ia_start =
     [\<lparr>ip_send = 0, ip_arrival = 50000, ip_system = 80000, ip_size = 1200\<rparr>,
      \<lparr>ip_send = 10000, ip_arrival = 61000, ip_system = 80000, ip_size = 1200\<rparr>]"

lemma sample_ia_facts:
  "(case ia_run sample_ia_start (new_InterArrivalDelta (Millis 5)) of
      (before, d) \<Rightarrow> (case ia_run sample_ia_packets d of
        (outs, d') \<Rightarrow> length outs = 3 \<and> not_reset sample_ia_packets d \<and>
          complete_time (prev_timestamp_group d') = 95000 \<and> complete_time (prev_timestamp_group d) = 50000))"
  by code_simp

theorem deltas_telescope_witness:
  "\<exists>outs before d d'. ia_run sample_ia_start (new_InterArrivalDelta (Millis 5)) = (before, d) \<and>
     ia_run sample_ia_packets d = (outs, d') \<and> length outs = 3 \<and>
     sum_list (map arrival_time_delta outs) = 45000"
proof -
  obtain before d outs d' where r: "ia_run sample_ia_start (new_InterArrivalDelta (Millis 5)) = (before, d)"
      "ia_run sample_ia_packets d = (outs, d')" by fastforce
  have p: "\<forall>p\<in>set (sample_ia_start @ sample_ia_packets). packet_ok p"
    by (auto simp: sample_ia_start_def sample_ia_packets_def packet_ok_def intro!: IsFinite_bounds)
  have f: "length outs = 3" "not_reset sample_ia_packets d" "complete_time (prev_timestamp_group d') = 95000"
      "complete_time (prev_timestamp_group d) = 50000"
    using sample_ia_facts unfolding r prod.case by simp_all
  show ?thesis using deltas_telescope [OF p r f(2)] r f by auto
qed

end
