(* ===== verification/UnitsDouble.thy ===== *)
theory UnitsDouble
  imports Units
begin

text \<open>
  Conversions between units and \<open>double\<close> (\<open>rtc_base/units/unit_base.h\<close>, \<open>api/units\<close>), and the
  correctly rounded square root of \<open>double\<close> values that IEEE 754 prescribes for \<open>std::sqrt\<close>.
\<close>

section \<open>Conversions\<close>

text \<open>\<open>FromFraction\<close> and \<open>ToFraction\<close> at a floating-point type; the values are finite.\<close>

definition FromFraction_double :: "int \<Rightarrow> rat \<Rightarrow> int" where
  "FromFraction_double denominator v = trunc (dmul v (f64 (of_int denominator)))"

definition ToFraction_double :: "int \<Rightarrow> int \<Rightarrow> rat" where
  "ToFraction_double denominator v = dmul (f64 (of_int v)) (ddiv 1 (f64 (of_int denominator)))"

definition KilobitsPerSec_double :: "rat \<Rightarrow> int" where
  "KilobitsPerSec_double v = FromFraction_double 1000 v"

definition Seconds_double :: "rat \<Rightarrow> int" where
  "Seconds_double v = FromFraction_double 1000000 v"

definition BitsPerSec_double :: "rat \<Rightarrow> int" where
  "BitsPerSec_double v = trunc v"

definition ms_double :: "int \<Rightarrow> rat" where
  "ms_double v = ToFraction_double 1000 v"

definition seconds_double :: "int \<Rightarrow> rat" where
  "seconds_double v = ToFraction_double 1000000 v"

section \<open>Square root\<close>

text \<open>The integer square root, two bits of the argument at a time.\<close>

function isqrt :: "int \<Rightarrow> int" where
  "isqrt n =
     (if n \<le> 0 then 0
      else let r = 2 * isqrt (n div 4) in if (r + 1) * (r + 1) \<le> n then r + 1 else r)"
  by pat_completeness auto
termination by (relation "measure nat") auto

declare isqrt.simps [simp del]

lemma isqrt_bounds: "0 \<le> n \<Longrightarrow> 0 \<le> isqrt n \<and> isqrt n * isqrt n \<le> n \<and> n < (isqrt n + 1) * (isqrt n + 1)"
proof (induction n rule: isqrt.induct)
  case (1 n)
  show ?case
  proof (cases "n = 0")
    case True
    then show ?thesis by (simp add: isqrt.simps)
  next
    case False
    let ?s = "isqrt (n div 4)"
    have IH: "0 \<le> ?s" "?s * ?s \<le> n div 4" "n div 4 < (?s + 1) * (?s + 1)" using 1 False by auto
    have "n div 4 + 1 \<le> (?s + 1) * (?s + 1)" using IH(3) by simp
    then have "4 * (n div 4) + 4 \<le> (2 * ?s + 2) * (2 * ?s + 2)" by (simp add: algebra_simps)
    moreover have "n < 4 * (n div 4) + 4" "4 * (n div 4) \<le> n" by presburger+
    moreover have "(2 * ?s) * (2 * ?s) \<le> 4 * (n div 4)" using IH(2) by simp
    ultimately show ?thesis
      using IH(1) 1(2) False by (simp add: isqrt.simps [of n] Let_def algebra_simps)
  qed
qed

text \<open>
  The root is computed to 55 bits or more; a half stands for the rest when it is not exact, which is
  enough for the rounding to 53 bits to go the right way.
\<close>

definition dsqrt :: "rat \<Rightarrow> rat" where
  "dsqrt x =
     (if x \<le> 0 then 0
      else let e = 55 - expo x div 2;
               y = x * 2 powi (2 * e);
               s = isqrt \<lfloor>y\<rfloor>
           in f64 ((of_int s + (if of_int (s * s) = y then 0 else 1 / 2)) / 2 powi e))"

lemma dsqrt_nonneg: "0 \<le> dsqrt x"
proof (cases "x \<le> 0")
  case False
  let ?y = "x * 2 powi (2 * (55 - expo x div 2))"
  have "0 \<le> ?y" using False by simp
  then have "0 \<le> isqrt \<lfloor>?y\<rfloor>" using isqrt_bounds [of "\<lfloor>?y\<rfloor>"] by simp
  then show ?thesis
    using False by (auto simp: dsqrt_def Let_def intro!: f64_nonneg divide_nonneg_nonneg)
qed (simp add: dsqrt_def)

end
