(* ===== verification/Trendline.thy ===== *)
theory Trendline
  imports Float64
begin

text \<open>
  The delay-trend detector, \<open>modules/congestion_controller/goog_cc/trendline_estimator.cc\<close>
  and \<open>.h\<close>: a window of packet delays, the slope of a line fitted to it, the
  over-use hypothesis with its adaptive threshold, and the aggressiveness ratio that is
  handed to the video encoder.

  Reading the delay window outside its bounds is undefined in C++; an operation that would do
  so returns \<open>None\<close>.
\<close>

section \<open>Data\<close>

datatype BandwidthUsage = kBwNormal | kBwUnderusing | kBwOverusing | kLast

record PacketTiming =
  arrival_time_ms :: rat
  smoothed_delay_ms :: rat
  raw_delay_ms :: rat

record TrendlineSettings =
  enable_sort :: bool
  enable_cap :: bool
  beginning_packets :: nat
  end_packets :: nat
  cap_uncertainty :: rat
  window_size :: nat

definition kDefaultTrendlineWindowSize :: nat where
  "kDefaultTrendlineWindowSize = 20"

definition default_settings :: TrendlineSettings where
  "default_settings = \<lparr>enable_sort = False, enable_cap = False, beginning_packets = 7,
     end_packets = 7, cap_uncertainty = 0, window_size = kDefaultTrendlineWindowSize\<rparr>"

text \<open>The constructor's sanity checks on the parsed settings.\<close>

definition disable_cap :: "TrendlineSettings \<Rightarrow> TrendlineSettings" where
  "disable_cap st = st\<lparr>enable_cap := False, beginning_packets := 0, end_packets := 0,
     cap_uncertainty := 0\<rparr>"

definition check_settings :: "TrendlineSettings \<Rightarrow> TrendlineSettings" where
  "check_settings st0 =
     (let st = (if window_size st0 < 10 \<or> 200 < window_size st0
                then st0\<lparr>window_size := kDefaultTrendlineWindowSize\<rparr> else st0)
      in if enable_cap st then
           let st1 = (if beginning_packets st < 1 \<or> end_packets st < 1 \<or>
                         window_size st < beginning_packets st \<or> window_size st < end_packets st
                      then disable_cap st else st);
               st2 = (if window_size st1 < beginning_packets st1 + end_packets st1
                      then disable_cap st1 else st1)
           in if cap_uncertainty st2 < 0 \<or> f64 (25 / 1000) < cap_uncertainty st2
              then st2\<lparr>cap_uncertainty := 0\<rparr> else st2
         else st)"

record TrendlineEstimator =
  settings :: TrendlineSettings
  num_of_deltas :: int
  first_arrival_time_ms :: int
  accumulated_delay :: rat
  smoothed_delay :: rat
  delay_hist :: "PacketTiming list"
  threshold :: rat
  prev_modified_trend :: "rat option" \<comment> \<open>\<open>None\<close> is the initial NaN\<close>
  last_update_ms :: int
  prev_trend :: rat
  time_over_using :: rat
  overuse_counter :: int
  hypothesis :: BandwidthUsage
  hypothesis_predicted :: BandwidthUsage
  hypothesis_aggresive :: rat
  has_predictor :: bool

definition smoothing_coef :: rat where
  "smoothing_coef = f64 (9 / 10)"

definition threshold_gain :: rat where
  "threshold_gain = 4"

definition k_up :: rat where
  "k_up = f64 (87 / 10000)"

definition k_down :: rat where
  "k_down = f64 (39 / 1000)"

definition kMaxAdaptOffsetMs :: rat where
  "kMaxAdaptOffsetMs = 15"

definition overusing_time_threshold :: rat where
  "overusing_time_threshold = 10"

definition kMinNumDeltas :: int where
  "kMinNumDeltas = 60"

definition kDeltaCounterMax :: int where
  "kDeltaCounterMax = 1000"

definition TrendlineEstimator_init :: "TrendlineSettings \<Rightarrow> bool \<Rightarrow> TrendlineEstimator" where
  "TrendlineEstimator_init st predictor =
     \<lparr>settings = st, num_of_deltas = 0, first_arrival_time_ms = - 1, accumulated_delay = 0,
      smoothed_delay = 0, delay_hist = [], threshold = 25 / 2, prev_modified_trend = None,
      last_update_ms = - 1, prev_trend = 0, time_over_using = - 1, overuse_counter = 0,
      hypothesis = kBwNormal, hypothesis_predicted = kBwNormal, hypothesis_aggresive = 1,
      has_predictor = predictor\<rparr>"

section \<open>Line fitting\<close>

fun sum_timings :: "(PacketTiming \<Rightarrow> rat) \<Rightarrow> rat \<Rightarrow> PacketTiming list \<Rightarrow> rat" where
  "sum_timings f acc [] = acc"
| "sum_timings f acc (p # ps) = sum_timings f (dadd acc (f p)) ps"

definition LinearFitSlope :: "PacketTiming list \<Rightarrow> rat option" where
  "LinearFitSlope packets =
     (let n = f64 (of_nat (length packets));
          x_avg = ddiv (sum_timings arrival_time_ms 0 packets) n;
          y_avg = ddiv (sum_timings smoothed_delay_ms 0 packets) n;
          numerator = sum_timings
            (\<lambda>p. dmul (dsub (arrival_time_ms p) x_avg) (dsub (smoothed_delay_ms p) y_avg)) 0 packets;
          denominator = sum_timings
            (\<lambda>p. dmul (dsub (arrival_time_ms p) x_avg) (dsub (arrival_time_ms p) x_avg)) 0 packets
      in if denominator = 0 then None else Some (ddiv numerator denominator))"

fun min_raw_delay :: "PacketTiming \<Rightarrow> PacketTiming list \<Rightarrow> PacketTiming" where
  "min_raw_delay best [] = best"
| "min_raw_delay best (p # ps) =
     min_raw_delay (if raw_delay_ms p < raw_delay_ms best then p else best) ps"

text \<open>
  The outer \<open>None\<close> is an access outside the window, the inner one the code's
  \<open>absl::nullopt\<close>.
\<close>

definition ComputeSlopeCap :: "PacketTiming list \<Rightarrow> TrendlineSettings \<Rightarrow> rat option option" where
  "ComputeSlopeCap packets st =
     (if packets = [] \<or> length packets < beginning_packets st \<or>
         length packets < end_packets st \<or> end_packets st = 0 then None
      else
        let early = min_raw_delay (packets ! 0) (drop 1 (take (beginning_packets st) packets));
            late_start = length packets - end_packets st;
            late = min_raw_delay (packets ! late_start) (drop (late_start + 1) packets)
        in if dsub (arrival_time_ms late) (arrival_time_ms early) < 1 then Some None
           else Some (Some (dadd (ddiv (dsub (raw_delay_ms late) (raw_delay_ms early))
                                       (dsub (arrival_time_ms late) (arrival_time_ms early)))
                                 (cap_uncertainty st))))"

section \<open>Detection\<close>

definition SafeClamp :: "rat \<Rightarrow> rat \<Rightarrow> rat \<Rightarrow> rat" where
  "SafeClamp x lo hi = (if x \<le> lo then lo else if hi \<le> x then hi else x)"

definition UpdateThreshold :: "TrendlineEstimator \<Rightarrow> rat \<Rightarrow> int \<Rightarrow> TrendlineEstimator" where
  "UpdateThreshold s0 modified_trend now_ms =
     (let s = (if last_update_ms s0 = - 1 then s0\<lparr>last_update_ms := now_ms\<rparr> else s0)
      in if dadd (threshold s) kMaxAdaptOffsetMs < \<bar>modified_trend\<bar>
         then s\<lparr>last_update_ms := now_ms\<rparr>
         else
           let k = (if \<bar>modified_trend\<bar> < threshold s then k_down else k_up);
               time_delta_ms = min (now_ms - last_update_ms s) 100;
               t = dadd (threshold s)
                     (dmul (dmul k (dsub \<bar>modified_trend\<bar> (threshold s)))
                           (f64 (of_int time_delta_ms)))
           in s\<lparr>threshold := SafeClamp t 6 600, last_update_ms := now_ms\<rparr>)"

definition modified_trend_of :: "TrendlineEstimator \<Rightarrow> rat \<Rightarrow> rat" where
  "modified_trend_of s trend =
     dmul (dmul (of_int (min (num_of_deltas s) kMinNumDeltas)) trend) threshold_gain"

definition Detect :: "TrendlineEstimator \<Rightarrow> rat \<Rightarrow> rat \<Rightarrow> int \<Rightarrow> TrendlineEstimator" where
  "Detect s trend ts_delta now_ms =
     (if num_of_deltas s < 2
      then s\<lparr>hypothesis := kBwNormal, hypothesis_aggresive := 1\<rparr>
      else
        let modified_trend = modified_trend_of s trend;
            s1 = s\<lparr>prev_modified_trend := Some modified_trend\<rparr>;
            s2 = (if threshold s < modified_trend then
                    let t = (if time_over_using s1 = - 1 then ddiv ts_delta 2
                             else dadd (time_over_using s1) ts_delta);
                        c = overuse_counter s1 + 1
                    in if overusing_time_threshold < t \<and> 1 < c \<and> prev_trend s1 \<le> trend
                       then s1\<lparr>time_over_using := 0, overuse_counter := 0,
                               hypothesis := kBwOverusing\<rparr>
                       else s1\<lparr>time_over_using := t, overuse_counter := c\<rparr>
                  else if modified_trend < - threshold s
                  then s1\<lparr>time_over_using := - 1, overuse_counter := 0,
                          hypothesis := kBwUnderusing\<rparr>
                  else s1\<lparr>time_over_using := - 1, overuse_counter := 0,
                          hypothesis := kBwNormal\<rparr>);
            kAggressiveRatio = 1 / 2;
            s3 = s2\<lparr>hypothesis_aggresive :=
                   (if dmul (threshold s) kAggressiveRatio < modified_trend
                    then ddiv modified_trend (dmul (threshold s) kAggressiveRatio) else 1)\<rparr>
        in UpdateThreshold (s3\<lparr>prev_trend := trend\<rparr>) modified_trend now_ms)"

section \<open>The packet window\<close>

text \<open>
  With sorting on, the new entry is swapped towards the front while it is older than its
  predecessor; the list is processed from its end.
\<close>

fun insert_back :: "PacketTiming \<Rightarrow> PacketTiming list \<Rightarrow> PacketTiming list" where
  "insert_back p [] = [p]"
| "insert_back p (q # rest) =
     (if arrival_time_ms p < arrival_time_ms q then q # insert_back p rest else p # q # rest)"

definition emplace_timing ::
  "TrendlineSettings \<Rightarrow> PacketTiming list \<Rightarrow> PacketTiming \<Rightarrow> PacketTiming list" where
  "emplace_timing st hist p =
     (if enable_sort st then rev (insert_back p (rev hist)) else hist @ [p])"

text \<open>
  Entries are dropped from the front while the window spans more than 100 ms and has more
  than two entries; the flag tells whether any was dropped.
\<close>

fun trim_window :: "PacketTiming list \<Rightarrow> bool \<times> PacketTiming list" where
  "trim_window (p # q # r # rest) =
     (if 100 < dsub (arrival_time_ms (last (r # rest))) (arrival_time_ms p)
      then (True, snd (trim_window (q # r # rest)))
      else (False, p # q # r # rest))"
| "trim_window hist = (False, hist)"

definition fit_trend ::
  "TrendlineSettings \<Rightarrow> PacketTiming list \<Rightarrow> rat \<Rightarrow> rat option" where
  "fit_trend st hist prev =
     (let trend = (case LinearFitSlope hist of None \<Rightarrow> prev | Some k \<Rightarrow> k)
      in if enable_cap st then
           (case ComputeSlopeCap hist st of
              None \<Rightarrow> None
            | Some None \<Rightarrow> Some trend
            | Some (Some cap) \<Rightarrow> Some (if 0 \<le> trend \<and> cap < trend then cap else trend))
         else Some trend)"

definition UpdateTrendline ::
  "TrendlineEstimator \<Rightarrow> rat \<Rightarrow> rat \<Rightarrow> int \<Rightarrow> int \<Rightarrow> nat \<Rightarrow> TrendlineEstimator option" where
  "UpdateTrendline s recv_delta_ms send_delta_ms send_time_ms arr_ms packet_size =
     (let delta_ms = dsub recv_delta_ms send_delta_ms;
          first = (if first_arrival_time_ms s = - 1 then arr_ms else first_arrival_time_ms s);
          acc = dadd (accumulated_delay s) delta_ms;
          smo = dadd (dmul smoothing_coef (smoothed_delay s)) (dmul (dsub 1 smoothing_coef) acc);
          p = \<lparr>arrival_time_ms = f64 (of_int (arr_ms - first)),
               smoothed_delay_ms = smo, raw_delay_ms = acc\<rparr>;
          (dofit, hist) = trim_window (emplace_timing (settings s) (delay_hist s) p);
          s' = s\<lparr>num_of_deltas := min (num_of_deltas s + 1) kDeltaCounterMax,
                 first_arrival_time_ms := first, accumulated_delay := acc,
                 smoothed_delay := smo, delay_hist := hist\<rparr>
      in case (if dofit then fit_trend (settings s) hist (prev_trend s) else Some (prev_trend s)) of
           None \<Rightarrow> None
         | Some trend \<Rightarrow> Some (Detect s' trend send_delta_ms arr_ms))"

text \<open>
  \<open>Update\<close>: the injected network-state predictor is code outside this component; its
  answer to this call is the argument \<open>predict\<close>.
\<close>

definition Update ::
  "(int \<Rightarrow> int \<Rightarrow> BandwidthUsage \<Rightarrow> BandwidthUsage) \<Rightarrow> TrendlineEstimator \<Rightarrow>
   rat \<Rightarrow> rat \<Rightarrow> int \<Rightarrow> int \<Rightarrow> nat \<Rightarrow> bool \<Rightarrow> TrendlineEstimator option" where
  "Update predict s recv_delta_ms send_delta_ms send_time_ms arr_ms packet_size calculated_deltas =
     (case (if calculated_deltas
            then UpdateTrendline s recv_delta_ms send_delta_ms send_time_ms arr_ms packet_size
            else Some s) of
        None \<Rightarrow> None
      | Some s' \<Rightarrow>
          Some (if has_predictor s'
                then s'\<lparr>hypothesis_predicted := predict send_time_ms arr_ms (hypothesis s')\<rparr>
                else s'))"

definition State :: "TrendlineEstimator \<Rightarrow> BandwidthUsage" where
  "State s = (if has_predictor s then hypothesis_predicted s else hypothesis s)"

definition AggresiveState :: "TrendlineEstimator \<Rightarrow> rat" where
  "AggresiveState s = hypothesis_aggresive s"

section \<open>Lemmas on the threshold and the ratio\<close>

lemma representable_f64 [simp]: "representable 53 (f64 x)"
  by (rule double.rnd_rep)

lemma SafeClamp_bounds: "lo \<le> hi \<Longrightarrow> lo \<le> SafeClamp x lo hi \<and> SafeClamp x lo hi \<le> hi"
  by (auto simp: SafeClamp_def)

definition threshold_ok :: "TrendlineEstimator \<Rightarrow> bool" where
  "threshold_ok s \<longleftrightarrow> representable 53 (threshold s) \<and> 6 \<le> threshold s \<and> threshold s \<le> 600"

lemma UpdateThreshold_ok:
  assumes "threshold_ok s"
  shows "threshold_ok (UpdateThreshold s mt now)"
proof -
  have "representable 53 (SafeClamp (dadd a b) 6 600)" for a b
    using representable_of_int [of 6 53] representable_of_int [of 600 53]
    by (simp add: SafeClamp_def dadd_def)
  then show ?thesis using assms SafeClamp_bounds [of 6 600]
    by (simp add: threshold_ok_def UpdateThreshold_def Let_def)
qed

lemma UpdateThreshold_frame [simp]:
  "hypothesis (UpdateThreshold s mt now) = hypothesis s"
  "hypothesis_aggresive (UpdateThreshold s mt now) = hypothesis_aggresive s"
  "num_of_deltas (UpdateThreshold s mt now) = num_of_deltas s"
  "overuse_counter (UpdateThreshold s mt now) = overuse_counter s"
  "delay_hist (UpdateThreshold s mt now) = delay_hist s"
  "settings (UpdateThreshold s mt now) = settings s"
  "has_predictor (UpdateThreshold s mt now) = has_predictor s"
  by (simp_all add: UpdateThreshold_def Let_def)

lemma half_threshold: "representable 53 t \<Longrightarrow> dmul t (1 / 2) = t / 2"
  by (simp add: dmul_def double.rnd_exact representable_half)

lemma representable_2 [simp]: "representable 53 2"
  using representable_of_int [of 2 53] by simp

lemma aggressive_ratio:
  assumes "0 < t"
  shows "t / 2 < m \<Longrightarrow> 1 \<le> ddiv m (t / 2)"
    and "2 < ddiv m (t / 2) \<Longrightarrow> t < m"
    and "t < m \<Longrightarrow> 2 \<le> ddiv m (t / 2)"
proof -
  show "1 \<le> ddiv m (t / 2)" if "t / 2 < m"
    unfolding ddiv_def using that assms by (intro double.rnd_ge) (simp_all add: field_simps)
  show "t < m" if "2 < ddiv m (t / 2)"
  proof (rule ccontr)
    assume "\<not> t < m"
    then have "ddiv m (t / 2) \<le> 2"
      unfolding ddiv_def using assms by (intro double.rnd_le) (simp_all add: field_simps)
    with that show False by simp
  qed
  show "2 \<le> ddiv m (t / 2)" if "t < m"
    unfolding ddiv_def using that assms by (intro double.rnd_ge) (simp_all add: field_simps)
qed

lemma Detect_frame [simp]:
  "num_of_deltas (Detect s trend d now) = num_of_deltas s"
  "delay_hist (Detect s trend d now) = delay_hist s"
  "settings (Detect s trend d now) = settings s"
  "has_predictor (Detect s trend d now) = has_predictor s"
  by (simp_all add: Detect_def Let_def)

lemma Detect_threshold_ok: "threshold_ok s \<Longrightarrow> threshold_ok (Detect s trend d now)"
  by (auto simp: Detect_def Let_def intro!: UpdateThreshold_ok) (auto simp: threshold_ok_def)

lemma Detect_aggresive:
  assumes "threshold_ok s" "2 \<le> num_of_deltas s"
  shows "hypothesis_aggresive (Detect s trend d now) =
    (if threshold s / 2 < modified_trend_of s trend
     then ddiv (modified_trend_of s trend) (threshold s / 2) else 1)"
  using assms by (simp add: Detect_def Let_def threshold_ok_def half_threshold)

lemma Detect_aggresive_ge_1:
  "threshold_ok s \<Longrightarrow> 1 \<le> hypothesis_aggresive (Detect s trend d now)"
  by (cases "num_of_deltas s < 2")
     (auto simp: Detect_aggresive threshold_ok_def not_less intro!: aggressive_ratio(1),
      simp add: Detect_def)

lemma Detect_counter: "0 \<le> overuse_counter s \<Longrightarrow> 0 \<le> overuse_counter (Detect s trend d now)"
  by (simp add: Detect_def Let_def)

lemma Detect_new_overuse:
  assumes "hypothesis (Detect s trend d now) = kBwOverusing" "hypothesis s \<noteq> kBwOverusing"
  shows "2 \<le> num_of_deltas s \<and> threshold s < modified_trend_of s trend"
  using assms by (auto simp: Detect_def Let_def split: if_splits)

section \<open>Lemmas on the window\<close>

definition window_ok :: "PacketTiming list \<Rightarrow> bool" where
  "window_ok h \<longleftrightarrow> length h \<le> 2 \<or> dsub (arrival_time_ms (last h)) (arrival_time_ms (hd h)) \<le> 100"

definition arrival_sorted :: "PacketTiming list \<Rightarrow> bool" where
  "arrival_sorted h \<longleftrightarrow> sorted_wrt (\<lambda>p q. arrival_time_ms p \<le> arrival_time_ms q) h"

lemma trim_window_ok: "window_ok (snd (trim_window h))"
  by (induction h rule: trim_window.induct) (auto simp: window_ok_def not_less)

lemma trim_window_suffix: "\<exists>k. snd (trim_window h) = drop k h"
proof (induction h rule: trim_window.induct)
  case (1 p q r rest)
  show ?case
  proof (cases "100 < dsub (arrival_time_ms (last (r # rest))) (arrival_time_ms p)")
    case True
    with 1 obtain k where "snd (trim_window (q # r # rest)) = drop k (q # r # rest)" by blast
    with True have "snd (trim_window (p # q # r # rest)) = drop (Suc k) (p # q # r # rest)" by simp
    then show ?thesis by blast
  qed (auto intro: exI [of _ 0])
qed (auto intro: exI [of _ 0])

lemma trim_window_length:
  "fst (trim_window h) \<Longrightarrow> 2 \<le> length (snd (trim_window h))"
proof (induction h rule: trim_window.induct)
  case (1 p q r rest)
  show ?case
    by (cases rest) (use 1 in \<open>auto split: if_splits\<close>)
qed auto

lemma trim_window_keeps:
  "h \<noteq> [] \<Longrightarrow> snd (trim_window h) \<noteq> [] \<and> last (snd (trim_window h)) = last h"
  by (induction h rule: trim_window.induct) auto

lemma set_insert_back: "set (insert_back p h) = insert p (set h)"
  by (induction h) auto

lemma insert_back_sorted:
  assumes "sorted_wrt (\<lambda>p q. arrival_time_ms q \<le> arrival_time_ms p) h"
  shows "sorted_wrt (\<lambda>p q. arrival_time_ms q \<le> arrival_time_ms p) (insert_back p h)"
  using assms by (induction h) (auto simp: set_insert_back)

lemma arrival_sorted_emplace:
  "enable_sort st \<Longrightarrow> arrival_sorted h \<Longrightarrow> arrival_sorted (emplace_timing st h p)"
  by (simp add: arrival_sorted_def emplace_timing_def sorted_wrt_rev insert_back_sorted)

lemma arrival_sorted_trim: "arrival_sorted h \<Longrightarrow> arrival_sorted (snd (trim_window h))"
  using trim_window_suffix [of h] by (auto simp: arrival_sorted_def sorted_wrt_drop)

section \<open>Invariant\<close>

definition trendline_inv :: "TrendlineEstimator \<Rightarrow> bool" where
  "trendline_inv s \<longleftrightarrow>
     threshold_ok s \<and> 1 \<le> hypothesis_aggresive s \<and>
     0 \<le> num_of_deltas s \<and> num_of_deltas s \<le> kDeltaCounterMax \<and> 0 \<le> overuse_counter s \<and>
     window_ok (delay_hist s) \<and> (enable_sort (settings s) \<longrightarrow> arrival_sorted (delay_hist s))"

lemma UpdateTrendline_cases:
  assumes "UpdateTrendline s rd sd st arr sz = Some s'"
  obtains trend p f a m where
    "s' = Detect
       (s\<lparr>num_of_deltas := min (num_of_deltas s + 1) kDeltaCounterMax, first_arrival_time_ms := f,
          accumulated_delay := a, smoothed_delay := m,
          delay_hist := snd (trim_window (emplace_timing (settings s) (delay_hist s) p))\<rparr>)
       trend sd arr"
  using assms
  by (auto simp: UpdateTrendline_def Let_def split_def split: option.splits)

lemma UpdateTrendline_inv:
  assumes inv: "trendline_inv s" and up: "UpdateTrendline s rd sd st arr sz = Some s'"
  shows "trendline_inv s' \<and> settings s' = settings s"
proof -
  obtain trend p f a m where
    s': "s' = Detect
       (s\<lparr>num_of_deltas := min (num_of_deltas s + 1) kDeltaCounterMax, first_arrival_time_ms := f,
          accumulated_delay := a, smoothed_delay := m,
          delay_hist := snd (trim_window (emplace_timing (settings s) (delay_hist s) p))\<rparr>)
       trend sd arr" (is "_ = Detect ?s1 _ _ _")
    using up by (rule UpdateTrendline_cases)
  have "threshold_ok ?s1" using inv by (simp add: trendline_inv_def threshold_ok_def)
  moreover have "enable_sort (settings s) \<longrightarrow>
      arrival_sorted (snd (trim_window (emplace_timing (settings s) (delay_hist s) p)))"
    using inv by (auto simp: trendline_inv_def intro: arrival_sorted_trim arrival_sorted_emplace)
  ultimately show ?thesis using inv
    by (auto simp: trendline_inv_def s' kDeltaCounterMax_def trim_window_ok
        intro: Detect_threshold_ok Detect_aggresive_ge_1 Detect_counter)
qed

section \<open>Runs\<close>

text \<open>One call of \<open>Update\<close> and a run of calls; a run stops at an access outside the window.\<close>

record feedback =
  fb_recv_delta :: rat
  fb_send_delta :: rat
  fb_send_time :: int
  fb_arrival :: int
  fb_size :: nat
  fb_calculated :: bool

fun run_updates ::
  "(int \<Rightarrow> int \<Rightarrow> BandwidthUsage \<Rightarrow> BandwidthUsage) \<Rightarrow> TrendlineEstimator \<Rightarrow> feedback list \<Rightarrow>
   TrendlineEstimator option" where
  "run_updates predict s [] = Some s"
| "run_updates predict s (x # xs) =
     (case Update predict s (fb_recv_delta x) (fb_send_delta x) (fb_send_time x) (fb_arrival x)
             (fb_size x) (fb_calculated x) of
        None \<Rightarrow> None
      | Some s' \<Rightarrow> run_updates predict s' xs)"

lemma Update_inv:
  assumes "trendline_inv s" "Update predict s rd sd st arr sz c = Some s'"
  shows "trendline_inv s' \<and> settings s' = settings s"
proof -
  obtain s1 where s1: "(if c then UpdateTrendline s rd sd st arr sz else Some s) = Some s1"
    and s': "s' = (if has_predictor s1
      then s1\<lparr>hypothesis_predicted := predict st arr (hypothesis s1)\<rparr> else s1)"
    using assms(2) by (auto simp: Update_def split: option.splits)
  have "trendline_inv s1 \<and> settings s1 = settings s"
    using s1 assms(1) UpdateTrendline_inv by (auto split: if_splits)
  then show ?thesis by (simp add: s' trendline_inv_def threshold_ok_def)
qed

lemma trendline_inv_init: "trendline_inv (TrendlineEstimator_init st b)"
proof -
  have "representable 53 (25 / 2)"
    using representable_half [OF representable_of_int [of 25 53]] by simp
  then show ?thesis
    by (simp add: trendline_inv_def threshold_ok_def TrendlineEstimator_init_def
        kDeltaCounterMax_def window_ok_def arrival_sorted_def)
qed

lemma run_updates_inv:
  "trendline_inv s \<Longrightarrow> run_updates predict s xs = Some s' \<Longrightarrow>
   trendline_inv s' \<and> settings s' = settings s"
  by (induction xs arbitrary: s) (fastforce split: option.splits dest: Update_inv)+

lemma UpdateTrendline_total:
  "\<not> enable_cap (settings s) \<Longrightarrow> \<exists>s'. UpdateTrendline s rd sd st arr sz = Some s'"
  by (simp add: UpdateTrendline_def Let_def split_def fit_trend_def)

lemma Update_total:
  "\<not> enable_cap (settings s) \<Longrightarrow> \<exists>s'. Update predict s rd sd st arr sz c = Some s'"
  using UpdateTrendline_total [of s rd sd st arr sz] by (auto simp: Update_def)

lemma run_updates_total:
  "trendline_inv s \<Longrightarrow> \<not> enable_cap (settings s) \<Longrightarrow> \<exists>s'. run_updates predict s xs = Some s'"
proof (induction xs arbitrary: s)
  case (Cons x xs)
  obtain s1 where s1: "Update predict s (fb_recv_delta x) (fb_send_delta x) (fb_send_time x)
      (fb_arrival x) (fb_size x) (fb_calculated x) = Some s1"
    using Update_total [OF Cons.prems(2)] by blast
  with Cons.prems have "trendline_inv s1 \<and> settings s1 = settings s" by (intro Update_inv)
  with Cons s1 show ?case by simp
qed simp

section \<open>When a line can be fitted\<close>

lemma f64_0_iff: "f64 x = 0 \<longleftrightarrow> x = 0"
proof
  assume "f64 x = 0"
  then have "\<bar>x\<bar> \<le> \<bar>x\<bar> / 2 ^ 53" using round_to_error [of 53 x] by simp
  then show "x = 0" by (simp add: field_simps)
qed (simp add: round_to_def)

lemma sum_timings_ge:
  assumes "\<And>p. 0 \<le> f p" "representable 53 acc"
  shows "acc \<le> sum_timings f acc ps"
  using assms(2)
proof (induction ps arbitrary: acc)
  case (Cons p ps)
  have "acc \<le> dadd acc (f p)" unfolding dadd_def using assms(1) Cons.prems by (intro double.rnd_ge) auto
  also have "\<dots> \<le> sum_timings f (dadd acc (f p)) ps" by (rule Cons.IH) (simp add: dadd_def)
  finally show ?case by simp
qed simp

lemma sum_timings_0_iff:
  assumes nn: "\<And>p. 0 \<le> f p"
  shows "sum_timings f 0 ps = 0 \<longleftrightarrow> (\<forall>p\<in>set ps. f p = 0)"
proof (induction ps)
  case (Cons p ps)
  show ?case
  proof (cases "f p = 0")
    case True
    then show ?thesis using Cons by (simp add: dadd_def round_to_def)
  next
    case False
    then have "0 < dadd 0 (f p)" using nn [of p] f64_nonneg [of "f p"] f64_0_iff [of "f p"]
      by (simp add: dadd_def order_less_le)
    also have "\<dots> \<le> sum_timings f (dadd 0 (f p)) ps"
      using nn by (intro sum_timings_ge) (simp_all add: dadd_def)
    finally show ?thesis using False by simp
  qed
qed simp

lemma sum_timings_exact:
  assumes "\<forall>p\<in>set ps. \<exists>k. f p = of_int k \<and> \<bar>k\<bar> \<le> B"
    and "\<bar>a\<bar> + int (length ps) * B \<le> 2 ^ 53"
  shows "sum_timings f (of_int a) ps = of_int a + sum_list (map f ps)"
  using assms
proof (induction ps arbitrary: a)
  case (Cons p ps)
  obtain k where k: "f p = of_int k" "\<bar>k\<bar> \<le> B" using Cons.prems(1) by auto
  have len: "int (length (p # ps)) * B = B + int (length ps) * B" by (simp add: algebra_simps)
  have B0: "0 \<le> int (length ps) * B" using k(2) by simp
  have "\<bar>a + k\<bar> \<le> 2 ^ 53" using Cons.prems(2) k(2) B0 unfolding len by linarith
  then have "dadd (of_int a) (f p) = of_int (a + k)"
    using double.rnd_exact [OF representable_of_int, of "a + k"] by (simp add: dadd_def k(1))
  moreover have "sum_timings f (of_int (a + k)) ps = of_int (a + k) + sum_list (map f ps)"
    using Cons.prems k(2) unfolding len by (intro Cons.IH) auto
  ultimately show ?case by (simp add: k(1))
qed simp

lemma dsub_0_iff: "dsub x y = 0 \<longleftrightarrow> x = y"
  by (simp add: dsub_def f64_0_iff)

lemma dmul_self_0_iff: "dmul x x = 0 \<longleftrightarrow> x = 0"
  by (simp add: dmul_def f64_0_iff)

lemma LinearFitSlope_None_all_equal:
  assumes "LinearFitSlope ps = None"
  shows "\<exists>x. \<forall>p\<in>set ps. arrival_time_ms p = x"
proof -
  define x_avg where
    "x_avg = ddiv (sum_timings arrival_time_ms 0 ps) (f64 (of_nat (length ps)))"
  have "\<forall>p\<in>set ps. dmul (dsub (arrival_time_ms p) x_avg) (dsub (arrival_time_ms p) x_avg) = 0"
    using assms unfolding LinearFitSlope_def Let_def x_avg_def [symmetric]
    by (subst sum_timings_0_iff [symmetric]) (auto simp: dmul_def intro: f64_nonneg split: if_splits)
  then show ?thesis by (auto simp: dmul_self_0_iff dsub_0_iff)
qed

text \<open>
  The fit gives up exactly when it has to: with whole-millisecond arrival times whose sum
  stays below 2^53, \<open>LinearFitSlope\<close> returns no slope if and only if all packets of the
  window arrived in the same millisecond; in particular it never divides by a zero or by a
  spuriously non-zero rounding residue.
\<close>

theorem LinearFitSlope_None_iff:
  assumes ints: "\<forall>p\<in>set ps. \<exists>k. arrival_time_ms p = of_int k \<and> \<bar>k\<bar> \<le> B"
    and small: "int (length ps) * B \<le> 2 ^ 53" "int (length ps) \<le> 2 ^ 53"
  shows "LinearFitSlope ps = None \<longleftrightarrow> (\<exists>x. \<forall>p\<in>set ps. arrival_time_ms p = x)"
proof
  assume "\<exists>x. \<forall>p\<in>set ps. arrival_time_ms p = x"
  then obtain x where x: "\<forall>p\<in>set ps. arrival_time_ms p = x" by blast
  define x_avg where
    "x_avg = ddiv (sum_timings arrival_time_ms 0 ps) (f64 (of_nat (length ps)))"
  have "x_avg = x" if ne: "ps \<noteq> []"
  proof -
    obtain k where k: "x = of_int k" "\<bar>k\<bar> \<le> B"
      using ints x hd_in_set [OF ne] by fastforce
    have "sum_list (map arrival_time_ms ps) = sum_list (map (\<lambda>_. x) ps)"
      using x by (intro arg_cong [of _ _ sum_list]) auto
    then have "sum_timings arrival_time_ms 0 ps = of_nat (length ps) * x"
      using sum_timings_exact [of ps arrival_time_ms B 0] ints small
      by (simp add: sum_list_triv)
    moreover have "f64 (of_nat (length ps)) = of_nat (length ps)"
      using double.rnd_exact [OF representable_of_int, of "int (length ps)"] small by simp
    ultimately have "x_avg = f64 x" using ne by (simp add: x_avg_def ddiv_def)
    moreover have "\<bar>k\<bar> \<le> 2 ^ 53"
    proof -
      have "1 * B \<le> int (length ps) * B"
        using k(2) ne by (intro mult_right_mono) (auto simp: Suc_le_eq)
      with k(2) small(1) show ?thesis by linarith
    qed
    ultimately show ?thesis
      using double.rnd_exact [OF representable_of_int, of k] by (simp add: k(1))
  qed
  then have "\<forall>p\<in>set ps. dmul (dsub (arrival_time_ms p) x_avg) (dsub (arrival_time_ms p) x_avg) = 0"
    using x by (cases "ps = []") (auto simp: dmul_self_0_iff dsub_0_iff)
  then have "sum_timings
      (\<lambda>p. dmul (dsub (arrival_time_ms p) x_avg) (dsub (arrival_time_ms p) x_avg)) 0 ps = 0"
    by (subst sum_timings_0_iff) (auto simp: dmul_def intro: f64_nonneg)
  then show "LinearFitSlope ps = None"
    unfolding LinearFitSlope_def Let_def x_avg_def [symmetric] by simp
qed (rule LinearFitSlope_None_all_equal)

theorem LinearFitSlope_None_iff_witness:
  "LinearFitSlope [\<lparr>arrival_time_ms = 7, smoothed_delay_ms = 1, raw_delay_ms = 1\<rparr>,
                   \<lparr>arrival_time_ms = 9, smoothed_delay_ms = 2, raw_delay_ms = 2\<rparr>] \<noteq> None"
proof -
  let ?ps = "[\<lparr>arrival_time_ms = 7, smoothed_delay_ms = 1, raw_delay_ms = 1\<rparr>,
              \<lparr>arrival_time_ms = 9, smoothed_delay_ms = 2, raw_delay_ms = 2\<rparr>]"
  have "\<forall>p\<in>set ?ps. \<exists>k. arrival_time_ms p = of_int k \<and> \<bar>k\<bar> \<le> 9"
    by (auto intro: exI [of _ 7] exI [of _ 9])
  then have "LinearFitSlope ?ps = None \<longleftrightarrow> (\<exists>x. \<forall>p\<in>set ?ps. arrival_time_ms p = x)"
    by (rule LinearFitSlope_None_iff) simp_all
  then show ?thesis by simp
qed

section \<open>Properties\<close>

text \<open>
  C1. The detector is total and stays in its safe region: with the slope cap off (the default),
  every sequence of feedback reports is processed without an access outside the window, and
  afterwards the adaptive threshold is in [6, 600], the aggressiveness ratio is at least 1, the
  counters are in range, the window spans at most 100 ms unless it has at most two entries, and
  it is sorted by arrival time when sorting is on.
\<close>

theorem trendline_run_safe:
  assumes "\<not> enable_cap st"
  shows "\<exists>s. run_updates predict (TrendlineEstimator_init st b) xs = Some s \<and> trendline_inv s"
proof -
  have "\<not> enable_cap (settings (TrendlineEstimator_init st b))"
    using assms by (simp add: TrendlineEstimator_init_def)
  then show ?thesis
    using run_updates_total [OF trendline_inv_init] run_updates_inv [OF trendline_inv_init] by blast
qed

theorem trendline_run_safe_witness:
  "\<exists>s. run_updates (\<lambda>_ _ h. h) (TrendlineEstimator_init default_settings False)
     [\<lparr>fb_recv_delta = 20, fb_send_delta = 5, fb_send_time = 0, fb_arrival = 30, fb_size = 1200,
       fb_calculated = True\<rparr>] = Some s \<and> trendline_inv s"
  by (rule trendline_run_safe) (simp add: default_settings_def)

text \<open>
  C2. What the encoder is told matches what the detector sees, through IEEE rounding: the
  ratio exceeds 2 only if the modified trend exceeds the over-use threshold, reaches at least 2
  whenever it does, and in particular whenever the detector newly reports over-use.
\<close>

theorem aggressive_matches_overuse:
  assumes "trendline_inv s" "2 \<le> num_of_deltas s"
  shows "(2 < AggresiveState (Detect s trend d now) \<longrightarrow> threshold s < modified_trend_of s trend) \<and>
    (threshold s < modified_trend_of s trend \<longrightarrow> 2 \<le> AggresiveState (Detect s trend d now)) \<and>
    (hypothesis (Detect s trend d now) = kBwOverusing \<and> hypothesis s \<noteq> kBwOverusing \<longrightarrow>
       2 \<le> AggresiveState (Detect s trend d now))"
proof -
  have ok: "threshold_ok s" and t0: "0 < threshold s"
    using assms(1) by (auto simp: trendline_inv_def threshold_ok_def)
  have ge: "2 \<le> AggresiveState (Detect s trend d now)"
    if "threshold s < modified_trend_of s trend"
    using that t0 aggressive_ratio(3) [OF t0 that]
    by (simp add: AggresiveState_def Detect_aggresive [OF ok assms(2)])
  have le: "threshold s < modified_trend_of s trend"
    if "2 < AggresiveState (Detect s trend d now)"
    using that aggressive_ratio(2) [OF t0]
    by (simp add: AggresiveState_def Detect_aggresive [OF ok assms(2)] split: if_splits)
  from ge le Detect_new_overuse show ?thesis by blast
qed

definition sample_estimator :: TrendlineEstimator where
  "sample_estimator = (TrendlineEstimator_init default_settings False)\<lparr>num_of_deltas := 60\<rparr>"

theorem aggressive_matches_overuse_witness:
  "2 \<le> AggresiveState (Detect sample_estimator (1 / 8) 5 100)"
proof -
  have inv: "trendline_inv sample_estimator"
    using trendline_inv_init [of default_settings False]
    by (simp add: sample_estimator_def trendline_inv_def threshold_ok_def kDeltaCounterMax_def)
  have n: "2 \<le> num_of_deltas sample_estimator" by (simp add: sample_estimator_def)
  have "threshold sample_estimator < modified_trend_of sample_estimator (1 / 8)" by code_simp
  then show ?thesis using aggressive_matches_overuse [OF inv n, of "1 / 8" 5 100] by blast
qed

definition sparse_feedback :: "int \<Rightarrow> feedback" where
  "sparse_feedback t = \<lparr>fb_recv_delta = 70, fb_send_delta = 70, fb_send_time = t, fb_arrival = t,
     fb_size = 1200, fb_calculated = True\<rparr>"

text \<open>
  The slope cap relies on a full window, but the window is bounded by its duration: with
  the cap enabled on the default packet counts, which the constructor accepts, three reports
  70 ms apart make the estimator read outside its window.
\<close>

theorem slope_cap_reads_outside_window:
  "check_settings (default_settings\<lparr>enable_cap := True\<rparr>) = default_settings\<lparr>enable_cap := True\<rparr> \<and>
   run_updates predict (TrendlineEstimator_init (default_settings\<lparr>enable_cap := True\<rparr>) False)
     (map sparse_feedback [0, 70, 140]) = None"
proof -
  have "run_updates predict (TrendlineEstimator_init (default_settings\<lparr>enable_cap := True\<rparr>) False)
     (map sparse_feedback [0, 70, 140]) = None"
    by code_simp
  moreover have "check_settings (default_settings\<lparr>enable_cap := True\<rparr>) =
      default_settings\<lparr>enable_cap := True\<rparr>"
    by code_simp
  ultimately show ?thesis by simp
qed

text \<open>
  Whatever values the field trial sets, the checked settings are consistent: the window size
  is between 10 and 200, and an enabled cap has non-empty beginning and end segments that fit in
  the window together.
\<close>

theorem check_settings_consistent:
  "10 \<le> window_size (check_settings st) \<and> window_size (check_settings st) \<le> 200 \<and>
   (enable_cap (check_settings st) \<longrightarrow>
      1 \<le> beginning_packets (check_settings st) \<and> 1 \<le> end_packets (check_settings st) \<and>
      beginning_packets (check_settings st) + end_packets (check_settings st)
        \<le> window_size (check_settings st) \<and>
      0 \<le> cap_uncertainty (check_settings st) \<and>
      cap_uncertainty (check_settings st) \<le> f64 (25 / 1000))"
  using f64_nonneg [of "25 / 1000"]
  by (auto simp: check_settings_def disable_cap_def kDefaultTrendlineWindowSize_def Let_def not_less)

theorem check_settings_consistent_witness:
  "enable_cap (check_settings (default_settings\<lparr>enable_cap := True\<rparr>)) \<and>
   beginning_packets (check_settings (default_settings\<lparr>enable_cap := True\<rparr>)) +
     end_packets (check_settings (default_settings\<lparr>enable_cap := True\<rparr>))
     \<le> window_size (check_settings (default_settings\<lparr>enable_cap := True\<rparr>))"
proof -
  have "enable_cap (check_settings (default_settings\<lparr>enable_cap := True\<rparr>))"
    by (simp add: check_settings_def default_settings_def kDefaultTrendlineWindowSize_def Let_def)
  then show ?thesis
    using check_settings_consistent [of "default_settings\<lparr>enable_cap := True\<rparr>"] by blast
qed

end
