(* ===== verification/AimdRateControl.thy ===== *)
theory AimdRateControl
  imports UnitsDouble Trendline "HOL-Library.Monad_Syntax"
begin

text \<open>
  The rate controller of the delay-based estimator:
  \<open>modules/remote_bitrate_estimator/aimd_rate_control.cc\<close> with
  \<open>modules/congestion_controller/goog_cc/link_capacity_estimator.cc\<close>. Rates are bits per second and
  times microseconds, as stored. The argument \<open>pow\<close> is the function of the C library. \<^term>\<open>None\<close> is a
  division by zero.
\<close>

section \<open>Link capacity estimator\<close>

record LinkCapacityEstimator =
  estimate_kbps :: "rat option"
  deviation_kbps :: rat

definition new_LinkCapacityEstimator :: LinkCapacityEstimator where
  "new_LinkCapacityEstimator = \<lparr>estimate_kbps = None, deviation_kbps = f64 (4 / 10)\<rparr>"

definition deviation_estimate_kbps :: "LinkCapacityEstimator \<Rightarrow> rat \<Rightarrow> rat" where
  "deviation_estimate_kbps l estimate = dsqrt (dmul (deviation_kbps l) estimate)"

definition UpperBound :: "LinkCapacityEstimator \<Rightarrow> int" where
  "UpperBound l =
     (case estimate_kbps l of
        Some estimate \<Rightarrow> KilobitsPerSec_double (dadd estimate (dmul 3 (deviation_estimate_kbps l estimate)))
      | None \<Rightarrow> PlusInfinityVal)"

definition LowerBound :: "LinkCapacityEstimator \<Rightarrow> int" where
  "LowerBound l =
     (case estimate_kbps l of
        Some estimate \<Rightarrow>
          KilobitsPerSec_double (max 0 (dsub estimate (dmul 3 (deviation_estimate_kbps l estimate))))
      | None \<Rightarrow> 0)"

definition lc_Reset :: "LinkCapacityEstimator \<Rightarrow> LinkCapacityEstimator" where
  "lc_Reset l = l\<lparr>estimate_kbps := None\<rparr>"

definition lc_Update :: "int \<Rightarrow> rat \<Rightarrow> LinkCapacityEstimator \<Rightarrow> LinkCapacityEstimator" where
  "lc_Update capacity_sample alpha l =
     (let sample_kbps = f64 (of_int (kbps capacity_sample));
          estimate = (case estimate_kbps l of
              None \<Rightarrow> sample_kbps
            | Some e \<Rightarrow> dadd (dmul (dsub 1 alpha) e) (dmul alpha sample_kbps));
          norm = max estimate 1;
          error_kbps = dsub estimate sample_kbps;
          deviation = dadd (dmul (dsub 1 alpha) (deviation_kbps l))
                           (ddiv (dmul (dmul alpha error_kbps) error_kbps) norm)
      in \<lparr>estimate_kbps = Some estimate, deviation_kbps = SafeClamp deviation (f32 (4 / 10)) (5 / 2)\<rparr>)"

definition OnOveruseDetected :: "int \<Rightarrow> LinkCapacityEstimator \<Rightarrow> LinkCapacityEstimator" where
  "OnOveruseDetected acknowledged_rate l = lc_Update acknowledged_rate (f64 (5 / 100)) l"

definition OnProbeRate :: "int \<Rightarrow> LinkCapacityEstimator \<Rightarrow> LinkCapacityEstimator" where
  "OnProbeRate probe_rate l = lc_Update probe_rate (1 / 2) l"

definition has_estimate :: "LinkCapacityEstimator \<Rightarrow> bool" where
  "has_estimate l \<longleftrightarrow> estimate_kbps l \<noteq> None"

text \<open>Only called with an estimate.\<close>

definition lc_estimate :: "LinkCapacityEstimator \<Rightarrow> int option" where
  "lc_estimate l = map_option KilobitsPerSec_double (estimate_kbps l)"

section \<open>Rate controller\<close>

datatype RateControlState = kRcHold | kRcIncrease | kRcDecrease

text \<open>Of the network state estimate, the fields the controller reads.\<close>

record NetworkStateEstimate =
  link_capacity_lower :: int
  link_capacity_upper :: int

record RateControlInput =
  bw_state :: BandwidthUsage
  estimated_throughput :: "int option"

record AimdRateControl =
  min_configured_bitrate :: int
  max_configured_bitrate :: int
  current_bitrate :: int
  latest_estimated_throughput :: int
  link_capacity :: LinkCapacityEstimator
  network_estimate :: "NetworkStateEstimate option"
  rate_control_state :: RateControlState
  time_last_bitrate_change :: int
  time_last_bitrate_decrease :: int
  time_first_throughput_estimate :: int
  bitrate_is_initialized :: bool
  beta :: rat
  in_alr :: bool
  rtt :: int
  send_side :: bool
  no_bitrate_increase_in_alr :: bool
  subtract_additional_backoff_term :: bool
  disable_estimate_bounded_increase :: bool
  use_current_estimate_as_min_upper_bound :: bool
  last_decrease :: "int option"

definition kCongestionControllerMinBitrate :: int where
  "kCongestionControllerMinBitrate = 5000"

definition kDefaultRtt :: int where
  "kDefaultRtt = Millis 200"

definition kDefaultBackoffFactor :: rat where
  "kDefaultBackoffFactor = f64 (85 / 100)"

text \<open>The argument is the number \<open>sscanf\<close> found in the field trial, if any.\<close>

definition ReadBackoffFactor :: "rat option \<Rightarrow> rat" where
  "ReadBackoffFactor parsed =
     (case parsed of
        Some backoff_factor \<Rightarrow>
          if backoff_factor \<ge> 1 then kDefaultBackoffFactor
          else if backoff_factor \<le> 0 then kDefaultBackoffFactor
          else backoff_factor
      | None \<Rightarrow> kDefaultBackoffFactor)"

text \<open>The field trials the constructor looks up.\<close>

record aimd_trials =
  trial_backoff_enabled :: bool
  trial_backoff_parsed :: "rat option"
  trial_dont_increase_in_alr :: bool
  trial_subtract_term_disabled :: bool
  trial_bounded_increase_disabled :: bool
  trial_c_upper :: bool

definition new_AimdRateControl :: "aimd_trials \<Rightarrow> bool \<Rightarrow> AimdRateControl" where
  "new_AimdRateControl trials is_send_side =
     \<lparr>min_configured_bitrate = kCongestionControllerMinBitrate,
      max_configured_bitrate = KilobitsPerSec 30000,
      current_bitrate = KilobitsPerSec 30000,
      latest_estimated_throughput = KilobitsPerSec 30000,
      link_capacity = new_LinkCapacityEstimator,
      network_estimate = None,
      rate_control_state = kRcHold,
      time_last_bitrate_change = MinusInfinityVal,
      time_last_bitrate_decrease = MinusInfinityVal,
      time_first_throughput_estimate = MinusInfinityVal,
      bitrate_is_initialized = False,
      beta = (if trial_backoff_enabled trials then ReadBackoffFactor (trial_backoff_parsed trials)
              else kDefaultBackoffFactor),
      in_alr = False,
      rtt = kDefaultRtt,
      send_side = is_send_side,
      no_bitrate_increase_in_alr = trial_dont_increase_in_alr trials,
      subtract_additional_backoff_term = (\<not> trial_subtract_term_disabled trials),
      disable_estimate_bounded_increase = trial_bounded_increase_disabled trials,
      use_current_estimate_as_min_upper_bound = trial_c_upper trials,
      last_decrease = None\<rparr>"

definition aimd_SetStartBitrate :: "int \<Rightarrow> AimdRateControl \<Rightarrow> AimdRateControl" where
  "aimd_SetStartBitrate start_bitrate a =
     a\<lparr>current_bitrate := start_bitrate, latest_estimated_throughput := start_bitrate,
       bitrate_is_initialized := True\<rparr>"

definition aimd_SetMinBitrate :: "int \<Rightarrow> AimdRateControl \<Rightarrow> AimdRateControl" where
  "aimd_SetMinBitrate min_bitrate a =
     a\<lparr>min_configured_bitrate := min_bitrate, current_bitrate := max min_bitrate (current_bitrate a)\<rparr>"

definition ValidEstimate :: "AimdRateControl \<Rightarrow> bool" where
  "ValidEstimate a = bitrate_is_initialized a"

definition aimd_LatestEstimate :: "AimdRateControl \<Rightarrow> int" where
  "aimd_LatestEstimate a = current_bitrate a"

definition SetRtt :: "int \<Rightarrow> AimdRateControl \<Rightarrow> AimdRateControl" where
  "SetRtt v a = a\<lparr>rtt := v\<rparr>"

definition SetInApplicationLimitedRegion :: "bool \<Rightarrow> AimdRateControl \<Rightarrow> AimdRateControl" where
  "SetInApplicationLimitedRegion v a = a\<lparr>in_alr := v\<rparr>"

definition SetNetworkStateEstimate :: "NetworkStateEstimate option \<Rightarrow> AimdRateControl \<Rightarrow> AimdRateControl" where
  "SetNetworkStateEstimate estimate a = a\<lparr>network_estimate := estimate\<rparr>"

definition GetFeedbackInterval :: "AimdRateControl \<Rightarrow> int option" where
  "GetFeedbackInterval a = do {
     let rtcp_bitrate = unit_times_double (current_bitrate a) (f64 (5 / 100));
     interval \<leftarrow> time_of 80 rtcp_bitrate;
     Some (Clamped interval (Millis 200) (Millis 1000))
   }"

definition TimeToReduceFurther :: "int \<Rightarrow> int \<Rightarrow> AimdRateControl \<Rightarrow> bool" where
  "TimeToReduceFurther at_time throughput a =
     (let bitrate_reduction_interval = Clamped (rtt a) (Millis 10) (Millis 200)
      in if unit_minus at_time (time_last_bitrate_change a) \<ge> bitrate_reduction_interval then True
         else if ValidEstimate a
         then throughput < unit_times_double (aimd_LatestEstimate a) (1 / 2)
         else False)"

definition InitialTimeToReduceFurther :: "int \<Rightarrow> AimdRateControl \<Rightarrow> bool" where
  "InitialTimeToReduceFurther at_time a \<longleftrightarrow>
     ValidEstimate a \<and> TimeToReduceFurther at_time (aimd_LatestEstimate a sdiv 2 - 1) a"

definition ClampBitrate :: "int \<Rightarrow> AimdRateControl \<Rightarrow> int" where
  "ClampBitrate new_bitrate a =
     (let new_bitrate =
            (case network_estimate a of
               Some n \<Rightarrow>
                 if \<not> disable_estimate_bounded_increase a \<and> IsFinite (link_capacity_upper n)
                 then min (if use_current_estimate_as_min_upper_bound a
                           then max (link_capacity_upper n) (current_bitrate a)
                           else link_capacity_upper n) new_bitrate
                 else new_bitrate
             | None \<Rightarrow> new_bitrate);
          new_bitrate =
            (case network_estimate a of
               Some n \<Rightarrow>
                 if IsFinite (link_capacity_lower n) \<and> new_bitrate < current_bitrate a
                 then min (current_bitrate a)
                        (max new_bitrate (unit_times_double (link_capacity_lower n) (beta a)))
                 else new_bitrate
             | None \<Rightarrow> new_bitrate)
      in max new_bitrate (min_configured_bitrate a))"

definition SetEstimate :: "int \<Rightarrow> int \<Rightarrow> AimdRateControl \<Rightarrow> AimdRateControl" where
  "SetEstimate bitrate at_time a =
     (let prev_bitrate = current_bitrate a;
          bitrate = ClampBitrate bitrate a
      in a\<lparr>bitrate_is_initialized := True, current_bitrate := bitrate,
           time_last_bitrate_change := at_time,
           time_last_bitrate_decrease :=
             (if bitrate < prev_bitrate then at_time else time_last_bitrate_decrease a)\<rparr>)"

definition GetNearMaxIncreaseRateBpsPerSecond :: "AimdRateControl \<Rightarrow> rat option" where
  "GetNearMaxIncreaseRateBpsPerSecond a =
     (let kFrameInterval = Seconds 1 sdiv 30;
          frame_size = size_of (current_bitrate a) kFrameInterval;
          packets_per_frame = rat_of_int \<lceil>unit_ratio frame_size 1200\<rceil>
      in if packets_per_frame = 0 then None
         else do {
           let avg_packet_size = unit_div_double frame_size packets_per_frame;
           let response_time = (rtt a + Millis 100) * 2;
           increase_rate \<leftarrow> rate_of avg_packet_size response_time;
           Some (max 4000 (f64 (of_int increase_rate)))
         })"

definition GetExpectedBandwidthPeriod :: "AimdRateControl \<Rightarrow> int option" where
  "GetExpectedBandwidthPeriod a = do {
     increase_rate_bps_per_second \<leftarrow> GetNearMaxIncreaseRateBpsPerSecond a;
     Some (case last_decrease a of
         None \<Rightarrow> Seconds 3
       | Some decrease \<Rightarrow>
           let time_to_recover_decrease_seconds = ddiv (f64 (of_int decrease)) increase_rate_bps_per_second
           in Clamped (Seconds_double time_to_recover_decrease_seconds) (Seconds 2) (Seconds 50))
   }"

definition MultiplicativeRateIncrease :: "(rat \<Rightarrow> rat \<Rightarrow> rat) \<Rightarrow> int \<Rightarrow> int \<Rightarrow> int \<Rightarrow> int" where
  "MultiplicativeRateIncrease pow at_time last_time bitrate =
     (let alpha = f64 (108 / 100);
          alpha = (if IsFinite last_time
                   then pow alpha (min (seconds_double (unit_minus at_time last_time)) 1) else alpha)
      in max (unit_times_double bitrate (dsub alpha 1)) 1000)"

definition AdditiveRateIncrease :: "int \<Rightarrow> int \<Rightarrow> AimdRateControl \<Rightarrow> int option" where
  "AdditiveRateIncrease at_time last_time a = do {
     let time_period_seconds = seconds_double (unit_minus at_time last_time);
     increase_rate \<leftarrow> GetNearMaxIncreaseRateBpsPerSecond a;
     Some (BitsPerSec_double (dmul increase_rate time_period_seconds))
   }"

definition ChangeState :: "RateControlInput \<Rightarrow> int \<Rightarrow> AimdRateControl \<Rightarrow> AimdRateControl" where
  "ChangeState input at_time a =
     (case bw_state input of
        kBwNormal \<Rightarrow>
          if rate_control_state a = kRcHold
          then a\<lparr>time_last_bitrate_change := at_time, rate_control_state := kRcIncrease\<rparr> else a
      | kBwOverusing \<Rightarrow>
          if rate_control_state a \<noteq> kRcDecrease then a\<lparr>rate_control_state := kRcDecrease\<rparr> else a
      | kBwUnderusing \<Rightarrow> a\<lparr>rate_control_state := kRcHold\<rparr>
      | kLast \<Rightarrow> a)"

text \<open>The cases of \<open>ChangeBitrate\<close>; the first result is \<open>new_bitrate\<close>.\<close>

definition increase_limit_of :: "int \<Rightarrow> AimdRateControl \<Rightarrow> int" where
  "increase_limit_of throughput a =
     (if send_side a \<and> in_alr a \<and> no_bitrate_increase_in_alr a then current_bitrate a
      else unit_times_double throughput (3 / 2) + KilobitsPerSec 10)"

definition increase_bitrate ::
  "(rat \<Rightarrow> rat \<Rightarrow> rat) \<Rightarrow> int \<Rightarrow> int \<Rightarrow> AimdRateControl \<Rightarrow> (int option \<times> AimdRateControl) option" where
  "increase_bitrate pow throughput at_time a = do {
     let a = (if throughput > UpperBound (link_capacity a)
              then a\<lparr>link_capacity := lc_Reset (link_capacity a)\<rparr> else a);
     let increase_limit = increase_limit_of throughput a;
     new_bitrate \<leftarrow>
       (if current_bitrate a < increase_limit
        then do {
          increase \<leftarrow>
            (if has_estimate (link_capacity a)
             then AdditiveRateIncrease at_time (time_last_bitrate_change a) a
             else Some (MultiplicativeRateIncrease pow at_time (time_last_bitrate_change a) (current_bitrate a)));
          Some (Some (min (current_bitrate a + increase) increase_limit))
        }
        else Some None);
     Some (new_bitrate, a\<lparr>time_last_bitrate_change := at_time\<rparr>)
   }"

definition decreased_bitrate_of :: "int \<Rightarrow> AimdRateControl \<Rightarrow> int" where
  "decreased_bitrate_of throughput a =
     (let decreased_bitrate = unit_times_double throughput (beta a);
          decreased_bitrate =
            (if decreased_bitrate > KilobitsPerSec 5 \<and> subtract_additional_backoff_term a
             then decreased_bitrate - KilobitsPerSec 5 else decreased_bitrate)
      in case lc_estimate (link_capacity a) of
           Some estimate \<Rightarrow>
             if decreased_bitrate > current_bitrate a then unit_times_double estimate (beta a)
             else decreased_bitrate
         | None \<Rightarrow> decreased_bitrate)"

definition decrease_bitrate :: "int \<Rightarrow> int \<Rightarrow> AimdRateControl \<Rightarrow> int option \<times> AimdRateControl" where
  "decrease_bitrate throughput at_time a =
     (let decreased_bitrate = decreased_bitrate_of throughput a;
          new_bitrate = (if decreased_bitrate < current_bitrate a then Some decreased_bitrate else None);
          a = (if bitrate_is_initialized a \<and> throughput < current_bitrate a
               then a\<lparr>last_decrease := Some (case new_bitrate of
                   None \<Rightarrow> 0 | Some b \<Rightarrow> current_bitrate a - b)\<rparr>
               else a);
          capacity = (if throughput < LowerBound (link_capacity a) then lc_Reset (link_capacity a)
                      else link_capacity a)
      in (new_bitrate,
          a\<lparr>bitrate_is_initialized := True,
            link_capacity := OnOveruseDetected throughput capacity,
            rate_control_state := kRcHold,
            time_last_bitrate_change := at_time,
            time_last_bitrate_decrease := at_time\<rparr>))"

definition ChangeBitrate ::
  "(rat \<Rightarrow> rat \<Rightarrow> rat) \<Rightarrow> RateControlInput \<Rightarrow> int \<Rightarrow> AimdRateControl \<Rightarrow> AimdRateControl option" where
  "ChangeBitrate pow input at_time a =
     (let throughput = (case estimated_throughput input of
            Some v \<Rightarrow> v | None \<Rightarrow> latest_estimated_throughput a);
          a = (case estimated_throughput input of
            Some v \<Rightarrow> a\<lparr>latest_estimated_throughput := v\<rparr> | None \<Rightarrow> a)
      in if \<not> bitrate_is_initialized a \<and> bw_state input \<noteq> kBwOverusing then Some a
         else let a = ChangeState input at_time a
         in do {
           (new_bitrate, a) \<leftarrow>
             (case rate_control_state a of
                kRcHold \<Rightarrow> Some (None, a)
              | kRcIncrease \<Rightarrow> increase_bitrate pow throughput at_time a
              | kRcDecrease \<Rightarrow> Some (decrease_bitrate throughput at_time a));
           Some (a\<lparr>current_bitrate :=
             ClampBitrate (case new_bitrate of Some b \<Rightarrow> b | None \<Rightarrow> current_bitrate a) a\<rparr>)
         })"

definition init_from_throughput :: "RateControlInput \<Rightarrow> int \<Rightarrow> AimdRateControl \<Rightarrow> AimdRateControl" where
  "init_from_throughput input at_time a =
     (if bitrate_is_initialized a then a
      else if \<not> IsFinite (time_first_throughput_estimate a)
      then (if estimated_throughput input \<noteq> None
            then a\<lparr>time_first_throughput_estimate := at_time\<rparr> else a)
      else case estimated_throughput input of
             Some v \<Rightarrow>
               if unit_minus at_time (time_first_throughput_estimate a) > Seconds 5
               then a\<lparr>current_bitrate := v, bitrate_is_initialized := True\<rparr> else a
           | None \<Rightarrow> a)"

definition aimd_Update ::
  "(rat \<Rightarrow> rat \<Rightarrow> rat) \<Rightarrow> RateControlInput \<Rightarrow> int \<Rightarrow> AimdRateControl \<Rightarrow> (int \<times> AimdRateControl) option" where
  "aimd_Update pow input at_time a = do {
     a \<leftarrow> ChangeBitrate pow input at_time (init_from_throughput input at_time a);
     Some (current_bitrate a, a)
   }"


section \<open>Lemmas on unit arithmetic\<close>

lemma llround_nonneg: "0 \<le> x \<Longrightarrow> 0 \<le> llround x"
  by (simp add: llround_def)

lemma unit_times_nonneg: "0 \<le> v \<Longrightarrow> 0 \<le> s \<Longrightarrow> 0 \<le> unit_times_double v s"
  by (simp add: unit_times_double_def dmul_def llround_nonneg f64_nonneg)

lemma seconds_nonneg: "0 \<le> v \<Longrightarrow> 0 \<le> seconds_double v"
  by (simp add: seconds_double_def ToFraction_double_def dmul_def ddiv_def f64_nonneg)

lemma f64_pos: "0 < x \<Longrightarrow> 0 < f64 x"
  using f64_nonneg [of x] f64_0_iff [of x] by (simp add: less_le)

section \<open>Invariant\<close>

text \<open>
  The estimate respects the configured minimum, and there is no estimate of the link capacity before
  the rate is initialised. The second definition is what remains while an update has taken the
  measured throughput for the rate and has not clamped it yet.
\<close>

definition aimd_base :: "AimdRateControl \<Rightarrow> bool" where
  "aimd_base a \<longleftrightarrow> kCongestionControllerMinBitrate \<le> min_configured_bitrate a \<and> 0 \<le> rtt a \<and>
     0 < beta a \<and> beta a < 1 \<and> rate_control_state a \<noteq> kRcDecrease \<and>
     (\<not> bitrate_is_initialized a \<longrightarrow> estimate_kbps (link_capacity a) = None)"

definition aimd_ok :: "AimdRateControl \<Rightarrow> bool" where
  "aimd_ok a \<longleftrightarrow> aimd_base a \<and> min_configured_bitrate a \<le> current_bitrate a"

definition aimd_mid :: "AimdRateControl \<Rightarrow> bool" where
  "aimd_mid a \<longleftrightarrow> aimd_base a \<and>
     (min_configured_bitrate a \<le> current_bitrate a \<or> estimate_kbps (link_capacity a) = None)"

lemma near_max_defined:
  assumes "kCongestionControllerMinBitrate \<le> current_bitrate a" and "0 \<le> rtt a"
  shows "\<exists>r. GetNearMaxIncreaseRateBpsPerSecond a = Some r \<and> 4000 \<le> r"
proof -
  let ?f = "size_of (current_bitrate a) (Seconds 1 sdiv 30)"
  have i: "Seconds 1 sdiv 30 = 33333" by (simp add: Seconds_def sdiv_nonneg)
  have "5000 * 33333 \<le> current_bitrate a * 33333"
    using assms(1) by (simp add: kCongestionControllerMinBitrate_def)
  then have "1 \<le> ?f"
    unfolding i using assms(1) by (simp add: size_of_div kCongestionControllerMinBitrate_def)
  then have "0 < f64 (of_int ?f)" "0 < f64 (of_int 1200)" by (auto intro!: f64_pos)
  then have "0 < unit_ratio ?f 1200" by (simp add: unit_ratio_def ddiv_def f64_pos)
  then have "rat_of_int \<lceil>unit_ratio ?f 1200\<rceil> \<noteq> 0" by (metis less_ceiling_iff less_irrefl of_int_0 of_int_eq_0_iff)
  moreover have "(rtt a + Millis 100) * 2 \<noteq> 0" using assms(2) by (simp add: Millis_def)
  ultimately show ?thesis
    by (simp add: GetNearMaxIncreaseRateBpsPerSecond_def Let_def rate_of_def)
qed

lemma additive_defined:
  assumes "kCongestionControllerMinBitrate \<le> current_bitrate a" and "0 \<le> rtt a"
  shows "\<exists>i. AdditiveRateIncrease at_time t a = Some i \<and> (0 \<le> unit_minus at_time t \<longrightarrow> 0 \<le> i)"
proof -
  obtain r where r: "GetNearMaxIncreaseRateBpsPerSecond a = Some r" "4000 \<le> r"
    using near_max_defined [OF assms] by blast
  have "0 \<le> trunc (dmul r (seconds_double d))" if "0 \<le> d" for d
  proof -
    have "0 \<le> dmul r (seconds_double d)"
      unfolding dmul_def using r(2) that by (intro f64_nonneg mult_nonneg_nonneg seconds_nonneg) auto
    then show ?thesis by (simp add: trunc_def)
  qed
  then show ?thesis using r(1) by (simp add: AdditiveRateIncrease_def BitsPerSec_double_def Let_def)
qed

lemma multiplicative_pos: "1000 \<le> MultiplicativeRateIncrease pow at_time t b"
  by (simp add: MultiplicativeRateIncrease_def Let_def)

lemma clamp_ge: "min_configured_bitrate a \<le> ClampBitrate b a"
  by (simp add: ClampBitrate_def Let_def)

lemma clamp_le:
  "min_configured_bitrate a \<le> current_bitrate a \<Longrightarrow> b \<le> current_bitrate a \<Longrightarrow> ClampBitrate b a \<le> current_bitrate a"
  by (auto simp: ClampBitrate_def Let_def split: option.splits)

lemma clamp_None: "network_estimate a = None \<Longrightarrow> ClampBitrate b a = max b (min_configured_bitrate a)"
  by (simp add: ClampBitrate_def)

text \<open>The clock, when it is read, has not gone back before the last change and is finite.\<close>

definition in_order :: "int \<Rightarrow> AimdRateControl \<Rightarrow> bool" where
  "in_order at_time a \<longleftrightarrow> time_last_bitrate_change a \<le> at_time \<and>
     MinusInfinityVal < at_time \<and> at_time < PlusInfinityVal"

text \<open>What an increase does, and that it is defined.\<close>

lemma increase_defined:
  assumes "aimd_mid a"
  shows "\<exists>n a'. increase_bitrate pow throughput at_time a = Some (n, a') \<and>
    (\<exists>l. (l = link_capacity a \<or> estimate_kbps l = None) \<and>
       a' = a\<lparr>link_capacity := l, time_last_bitrate_change := at_time\<rparr>) \<and>
    (\<forall>b. n = Some b \<longrightarrow> b \<le> increase_limit_of throughput a \<and>
       (in_order at_time a \<longrightarrow> current_bitrate a \<le> b))"
proof -
  define c where "c = (if throughput > UpperBound (link_capacity a)
      then a\<lparr>link_capacity := lc_Reset (link_capacity a)\<rparr> else a)"
  have c: "current_bitrate c = current_bitrate a" "rtt c = rtt a"
      "time_last_bitrate_change c = time_last_bitrate_change a"
      "increase_limit_of throughput c = increase_limit_of throughput a"
    by (auto simp: c_def increase_limit_of_def)
  have l: "\<exists>l. (l = link_capacity a \<or> estimate_kbps l = None) \<and>
       c\<lparr>time_last_bitrate_change := at_time\<rparr> = a\<lparr>link_capacity := l, time_last_bitrate_change := at_time\<rparr>"
    by (cases "throughput > UpperBound (link_capacity a)")
      (auto simp: c_def lc_Reset_def intro: exI [of _ "lc_Reset (link_capacity a)"] exI [of _ "link_capacity a"])
  have um: "0 \<le> unit_minus at_time (time_last_bitrate_change a)" if "in_order at_time a"
    using that by (auto simp: unit_minus_def in_order_def PlusInfinityVal_def MinusInfinityVal_def)
  have "\<exists>i. (if has_estimate (link_capacity c) then AdditiveRateIncrease at_time (time_last_bitrate_change c) c
        else Some (MultiplicativeRateIncrease pow at_time (time_last_bitrate_change c) (current_bitrate c))) = Some i \<and>
      (in_order at_time a \<longrightarrow> 0 \<le> i)"
  proof (cases "has_estimate (link_capacity c)")
    case True
    then have "estimate_kbps (link_capacity a) \<noteq> None"
      by (auto simp: c_def has_estimate_def lc_Reset_def split: if_splits)
    then have "kCongestionControllerMinBitrate \<le> current_bitrate c" "0 \<le> rtt c"
      using assms c by (auto simp: aimd_mid_def aimd_base_def)
    then show ?thesis using additive_defined [of c at_time "time_last_bitrate_change c"] True um c by fastforce
  next
    case False
    then show ?thesis using multiplicative_pos [of pow at_time "time_last_bitrate_change c" "current_bitrate c"] by simp
  qed
  then obtain i where i: "(if has_estimate (link_capacity c) then AdditiveRateIncrease at_time (time_last_bitrate_change c) c
        else Some (MultiplicativeRateIncrease pow at_time (time_last_bitrate_change c) (current_bitrate c))) = Some i"
      "in_order at_time a \<longrightarrow> 0 \<le> i" by blast
  have e: "increase_bitrate pow throughput at_time a =
      Some (if current_bitrate a < increase_limit_of throughput a
            then Some (min (current_bitrate a + i) (increase_limit_of throughput a)) else None,
            c\<lparr>time_last_bitrate_change := at_time\<rparr>)"
    using i(1) c(1,4) unfolding increase_bitrate_def c_def [symmetric] Let_def by (auto split: if_splits)
  show ?thesis unfolding e using l i(2) by (auto split: if_splits)
qed

lemma decrease_effect:
  assumes "decrease_bitrate throughput at_time a = (n, a')"
  shows "current_bitrate a' = current_bitrate a" "min_configured_bitrate a' = min_configured_bitrate a"
    "network_estimate a' = network_estimate a" "rtt a' = rtt a" "beta a' = beta a"
    "rate_control_state a' = kRcHold" "bitrate_is_initialized a'" "time_last_bitrate_change a' = at_time"
    "n = Some b \<Longrightarrow> b < current_bitrate a \<and> b = decreased_bitrate_of throughput a"
    "n = None \<Longrightarrow> current_bitrate a \<le> decreased_bitrate_of throughput a"
  using assms by (auto simp: decrease_bitrate_def Let_def split: if_splits)

lemma decreased_le:
  "decreased_bitrate_of throughput a \<le> unit_times_double throughput (beta a) \<or>
   current_bitrate a \<le> unit_times_double throughput (beta a)"
  by (auto simp: decreased_bitrate_of_def Let_def KilobitsPerSec_def split: option.splits)


text \<open>The state the controller is in after \<open>ChangeState\<close>.\<close>

lemma change_state_simps:
  "bw_state input = kBwOverusing \<Longrightarrow> rate_control_state (ChangeState input t a) = kRcDecrease"
  "bw_state input = kBwUnderusing \<Longrightarrow> ChangeState input t a = a\<lparr>rate_control_state := kRcHold\<rparr>"
  "bw_state input = kBwNormal \<Longrightarrow> rate_control_state a \<noteq> kRcDecrease \<Longrightarrow>
     rate_control_state (ChangeState input t a) = kRcIncrease"
  by (auto simp: ChangeState_def) (metis RateControlState.exhaust)

lemma change_state_frame [simp]:
  "current_bitrate (ChangeState input t a) = current_bitrate a"
  "min_configured_bitrate (ChangeState input t a) = min_configured_bitrate a"
  "network_estimate (ChangeState input t a) = network_estimate a"
  "link_capacity (ChangeState input t a) = link_capacity a"
  "rtt (ChangeState input t a) = rtt a" "beta (ChangeState input t a) = beta a"
  "bitrate_is_initialized (ChangeState input t a) = bitrate_is_initialized a"
  "send_side (ChangeState input t a) = send_side a" "in_alr (ChangeState input t a) = in_alr a"
  "no_bitrate_increase_in_alr (ChangeState input t a) = no_bitrate_increase_in_alr a"
  "subtract_additional_backoff_term (ChangeState input t a) = subtract_additional_backoff_term a"
  by (simp_all add: ChangeState_def split: BandwidthUsage.splits)

lemma change_state_time: "in_order t a \<Longrightarrow> in_order t (ChangeState input t a)"
  by (simp add: in_order_def ChangeState_def split: BandwidthUsage.splits)

lemma change_state_base:
  "aimd_base a \<Longrightarrow> bw_state input \<noteq> kBwOverusing \<Longrightarrow> aimd_base (ChangeState input t a)"
  by (auto simp: aimd_base_def ChangeState_def split: BandwidthUsage.splits)

text \<open>
  The new rate, on each of the detector's states, before clamping; the record \<open>a'\<close> is the controller
  at the end of the switch.
\<close>

definition switch_bitrate ::
  "(rat \<Rightarrow> rat \<Rightarrow> rat) \<Rightarrow> RateControlInput \<Rightarrow> int \<Rightarrow> int \<Rightarrow> AimdRateControl \<Rightarrow> (int option \<times> AimdRateControl) option" where
  "switch_bitrate pow input throughput at_time a =
     (let c = ChangeState input at_time a
      in case rate_control_state c of
           kRcHold \<Rightarrow> Some (None, c)
         | kRcIncrease \<Rightarrow> increase_bitrate pow throughput at_time c
         | kRcDecrease \<Rightarrow> Some (decrease_bitrate throughput at_time c))"

lemma switch_defined:
  assumes "aimd_mid a" and "bitrate_is_initialized a \<or> bw_state input = kBwOverusing"
  shows "\<exists>n a'. switch_bitrate pow input throughput at_time a = Some (n, a') \<and>
    aimd_base a' \<and> bitrate_is_initialized a' \<and> current_bitrate a' = current_bitrate a \<and>
    min_configured_bitrate a' = min_configured_bitrate a \<and> network_estimate a' = network_estimate a \<and>
    (bw_state input = kBwOverusing \<longrightarrow> (\<forall>b. n = Some b \<longrightarrow> b \<le> current_bitrate a) \<and>
       (case n of Some b \<Rightarrow> b | None \<Rightarrow> current_bitrate a) \<le> unit_times_double throughput (beta a)) \<and>
    (bw_state input = kBwUnderusing \<longrightarrow> n = None) \<and>
    (bw_state input = kBwNormal \<longrightarrow> (\<forall>b. n = Some b \<longrightarrow> b \<le> increase_limit_of throughput a \<and>
       (in_order at_time a \<longrightarrow> current_bitrate a \<le> b)))"
proof -
  let ?c = "ChangeState input at_time a"
  have base: "aimd_base a" using assms(1) by (simp add: aimd_mid_def)
  have lim: "increase_limit_of throughput ?c = increase_limit_of throughput a"
    by (simp add: increase_limit_of_def)
  show ?thesis
  proof (cases "bw_state input = kBwOverusing")
    case True
    obtain n a' where D: "decrease_bitrate throughput at_time ?c = (n, a')" by fastforce
    have "decreased_bitrate_of throughput ?c = decreased_bitrate_of throughput a"
      by (simp add: decreased_bitrate_of_def Let_def split: option.splits)
    then have le: "(case n of Some b \<Rightarrow> b | None \<Rightarrow> current_bitrate a) \<le> unit_times_double throughput (beta a)"
      using decrease_effect(9,10) [OF D] decreased_le [of throughput a] by (cases n) fastforce+
    have up: "\<forall>b. n = Some b \<longrightarrow> b \<le> current_bitrate a" using decrease_effect(9) [OF D] by fastforce
    have "aimd_base a'" using base decrease_effect(2-7) [OF D] by (simp add: aimd_base_def)
    moreover have "switch_bitrate pow input throughput at_time a = Some (n, a')"
      by (simp add: switch_bitrate_def Let_def change_state_simps(1) True D)
    ultimately show ?thesis
      using True decrease_effect(1-3,7) [OF D] le up by simp
  next
    case False
    have init: "bitrate_is_initialized a" using assms(2) False by simp
    have base': "aimd_base ?c" by (rule change_state_base [OF base False])
    then have mid: "aimd_mid ?c" using assms(1) by (simp add: aimd_mid_def)
    consider "rate_control_state ?c = kRcHold" | "rate_control_state ?c = kRcIncrease"
      using base' by (cases "rate_control_state ?c") (auto simp: aimd_base_def)
    then show ?thesis
    proof cases
      case 1
      then have "bw_state input \<noteq> kBwNormal"
        using change_state_simps(3) [of input a at_time] base by (auto simp: aimd_base_def)
      then show ?thesis using 1 False base' init by (simp add: switch_bitrate_def Let_def)
    next
      case 2
      then have nu: "bw_state input \<noteq> kBwUnderusing" by (auto simp: change_state_simps(2))
      obtain n a' l where I: "increase_bitrate pow throughput at_time ?c = Some (n, a')"
          "l = link_capacity ?c \<or> estimate_kbps l = None"
          "a' = ?c\<lparr>link_capacity := l, time_last_bitrate_change := at_time\<rparr>"
          "\<And>b. n = Some b \<Longrightarrow> b \<le> increase_limit_of throughput ?c \<and>
             (in_order at_time ?c \<longrightarrow> current_bitrate ?c \<le> b)"
        using increase_defined [OF mid, of pow throughput at_time] by blast
      have n: "\<forall>b. n = Some b \<longrightarrow> b \<le> increase_limit_of throughput a \<and>
          (in_order at_time a \<longrightarrow> current_bitrate a \<le> b)"
        using I(4) lim change_state_time [of at_time a input] by simp
      have "aimd_base a'" using base' I(2) unfolding I(3) by (auto simp: aimd_base_def)
      moreover have "switch_bitrate pow input throughput at_time a = Some (n, a')"
        by (simp add: switch_bitrate_def Let_def 2 I(1))
      ultimately show ?thesis
        using nu False init n by (simp add: I(3))
    qed
  qed
qed

lemma ChangeBitrate_eq:
  "ChangeBitrate pow input at_time a =
     (let throughput = (case estimated_throughput input of Some v \<Rightarrow> v | None \<Rightarrow> latest_estimated_throughput a);
          a = a\<lparr>latest_estimated_throughput := throughput\<rparr>
      in if \<not> bitrate_is_initialized a \<and> bw_state input \<noteq> kBwOverusing then Some a
         else map_option (\<lambda>(n, a). a\<lparr>current_bitrate :=
                ClampBitrate (case n of Some b \<Rightarrow> b | None \<Rightarrow> current_bitrate a) a\<rparr>)
              (switch_bitrate pow input throughput at_time a))"
proof -
  have "(case estimated_throughput input of Some v \<Rightarrow> a\<lparr>latest_estimated_throughput := v\<rparr> | None \<Rightarrow> a) =
      a\<lparr>latest_estimated_throughput :=
         (case estimated_throughput input of Some v \<Rightarrow> v | None \<Rightarrow> latest_estimated_throughput a)\<rparr>"
    by (cases "estimated_throughput input") auto
  then show ?thesis
    unfolding ChangeBitrate_def switch_bitrate_def Let_def
    by (simp only: map_conv_bind_option comp_def prod.case_distrib [of Some])
qed

text \<open>
  One update of an initialised controller, or of any controller on over-use: it is defined, keeps the
  invariant and moves the rate the way the detector asks for.
\<close>

lemma change_bitrate_defined:
  assumes "aimd_mid a" and "bitrate_is_initialized a \<or> bw_state input = kBwOverusing"
  defines "throughput \<equiv> (case estimated_throughput input of Some v \<Rightarrow> v | None \<Rightarrow> latest_estimated_throughput a)"
  shows "\<exists>a'. ChangeBitrate pow input at_time a = Some a' \<and> aimd_ok a' \<and> bitrate_is_initialized a' \<and>
    min_configured_bitrate a' = min_configured_bitrate a \<and>
    (bw_state input = kBwOverusing \<and> min_configured_bitrate a \<le> current_bitrate a \<longrightarrow>
       current_bitrate a' \<le> current_bitrate a) \<and>
    (network_estimate a = None \<longrightarrow>
      (bw_state input = kBwOverusing \<longrightarrow>
         current_bitrate a' \<le> max (min_configured_bitrate a) (unit_times_double throughput (beta a))) \<and>
      (bw_state input = kBwUnderusing \<longrightarrow> current_bitrate a' = max (current_bitrate a) (min_configured_bitrate a)) \<and>
      (bw_state input = kBwNormal \<longrightarrow>
         current_bitrate a' \<le> max (max (current_bitrate a) (min_configured_bitrate a)) (increase_limit_of throughput a) \<and>
         (in_order at_time a \<longrightarrow> current_bitrate a \<le> current_bitrate a')))"
proof -
  let ?a = "a\<lparr>latest_estimated_throughput := throughput\<rparr>"
  have "aimd_mid ?a" "bitrate_is_initialized ?a \<or> bw_state input = kBwOverusing"
    using assms(1,2) by (simp_all add: aimd_mid_def aimd_base_def)
  note D = switch_defined [OF this, of pow throughput at_time]
  have E: "current_bitrate ?a = current_bitrate a" "min_configured_bitrate ?a = min_configured_bitrate a"
      "network_estimate ?a = network_estimate a" "beta ?a = beta a" "in_order at_time ?a = in_order at_time a"
      "increase_limit_of throughput ?a = increase_limit_of throughput a"
    by (auto simp: in_order_def increase_limit_of_def)
  obtain n c where S: "switch_bitrate pow input throughput at_time ?a = Some (n, c)"
      "aimd_base c" "bitrate_is_initialized c" "current_bitrate c = current_bitrate a"
      "min_configured_bitrate c = min_configured_bitrate a" "network_estimate c = network_estimate a"
    and over: "bw_state input = kBwOverusing \<Longrightarrow> (\<forall>b. n = Some b \<longrightarrow> b \<le> current_bitrate a) \<and>
       (case n of Some b \<Rightarrow> b | None \<Rightarrow> current_bitrate a) \<le> unit_times_double throughput (beta a)"
    and under: "bw_state input = kBwUnderusing \<Longrightarrow> n = None"
    and normal: "\<And>b. bw_state input = kBwNormal \<Longrightarrow> n = Some b \<Longrightarrow> b \<le> increase_limit_of throughput a \<and>
       (in_order at_time a \<longrightarrow> current_bitrate a \<le> b)"
    using D unfolding E by blast
  let ?n = "case n of Some b \<Rightarrow> b | None \<Rightarrow> current_bitrate c"
  let ?r = "ClampBitrate ?n c"
  have C: "ChangeBitrate pow input at_time a = Some (c\<lparr>current_bitrate := ?r\<rparr>)"
    unfolding ChangeBitrate_eq Let_def throughput_def [symmetric] S(1) using assms(2) by auto
  have ok: "aimd_ok (c\<lparr>current_bitrate := ?r\<rparr>)"
    using S(2) clamp_ge [of c ?n] by (simp add: aimd_ok_def aimd_base_def)
  have "?r \<le> current_bitrate a" if "bw_state input = kBwOverusing" "min_configured_bitrate a \<le> current_bitrate a"
    using clamp_le [of c ?n] over that S(4,5) by (auto split: option.splits)
  moreover have "?r = max ?n (min_configured_bitrate a)" if "network_estimate a = None"
    using clamp_None [of c ?n] that S(5,6) by simp
  moreover have "?r \<le> max (min_configured_bitrate a) (unit_times_double throughput (beta a))"
    if "network_estimate a = None" "bw_state input = kBwOverusing"
    using calculation(2) [OF that(1)] over [OF that(2)] S(4) by (cases n) (auto simp: max_def)
  moreover have "?r = max (current_bitrate a) (min_configured_bitrate a)"
    if "network_estimate a = None" "bw_state input = kBwUnderusing"
    using calculation(2) [OF that(1)] under [OF that(2)] S(4) by simp
  moreover have "?r \<le> max (max (current_bitrate a) (min_configured_bitrate a)) (increase_limit_of throughput a) \<and>
      (in_order at_time a \<longrightarrow> current_bitrate a \<le> ?r)"
    if "network_estimate a = None" "bw_state input = kBwNormal"
    using calculation(2) [OF that(1)] normal [OF that(2)] S(4) by (cases n) (auto simp: max_def)
  ultimately show ?thesis using C ok S(3,5) by (intro exI [of _ "c\<lparr>current_bitrate := ?r\<rparr>"]) simp
qed

section \<open>Runs\<close>

datatype aimd_op =
    AimdConstraints int int
  | AimdMin int
  | AimdUpdate RateControlInput int
  | AimdEstimate int int
  | AimdRtt int
  | AimdAlr bool
  | AimdNetwork "NetworkStateEstimate option"

fun aimd_step :: "(rat \<Rightarrow> rat \<Rightarrow> rat) \<Rightarrow> aimd_op \<Rightarrow> AimdRateControl \<Rightarrow> AimdRateControl option" where
  "aimd_step pow (AimdConstraints start_rate min_rate) a =
     Some (aimd_SetMinBitrate min_rate (aimd_SetStartBitrate start_rate a))"
| "aimd_step pow (AimdMin min_rate) a = Some (aimd_SetMinBitrate min_rate a)"
| "aimd_step pow (AimdUpdate input at_time) a = map_option snd (aimd_Update pow input at_time a)"
| "aimd_step pow (AimdEstimate bitrate at_time) a = Some (SetEstimate bitrate at_time a)"
| "aimd_step pow (AimdRtt v) a = Some (SetRtt v a)"
| "aimd_step pow (AimdAlr b) a = Some (SetInApplicationLimitedRegion b a)"
| "aimd_step pow (AimdNetwork e) a = Some (SetNetworkStateEstimate e a)"

fun aimd_run :: "(rat \<Rightarrow> rat \<Rightarrow> rat) \<Rightarrow> aimd_op list \<Rightarrow> AimdRateControl \<Rightarrow> AimdRateControl option" where
  "aimd_run pow [] a = Some a"
| "aimd_run pow (op # ops) a = Option.bind (aimd_step pow op a) (aimd_run pow ops)"

text \<open>What the network controller guarantees: minimum rates are at least 5 kbps and round trips not negative.\<close>

fun aimd_op_ok :: "aimd_op \<Rightarrow> bool" where
  "aimd_op_ok (AimdConstraints start_rate min_rate) \<longleftrightarrow> kCongestionControllerMinBitrate \<le> min_rate"
| "aimd_op_ok (AimdMin min_rate) \<longleftrightarrow> kCongestionControllerMinBitrate \<le> min_rate"
| "aimd_op_ok (AimdRtt v) \<longleftrightarrow> 0 \<le> v"
| "aimd_op_ok op \<longleftrightarrow> True"

lemma init_mid: "aimd_ok a \<Longrightarrow> aimd_mid (init_from_throughput input t a)"
  by (auto simp: aimd_ok_def aimd_mid_def aimd_base_def init_from_throughput_def split: option.splits)

lemma init_id: "bitrate_is_initialized a \<Longrightarrow> init_from_throughput input t a = a"
  by (simp add: init_from_throughput_def)

lemma init_not: "\<not> bitrate_is_initialized (init_from_throughput input t a) \<Longrightarrow>
    current_bitrate (init_from_throughput input t a) = current_bitrate a"
  by (auto simp: init_from_throughput_def split: option.splits if_splits)

lemma init_min: "min_configured_bitrate (init_from_throughput input t a) = min_configured_bitrate a"
  by (simp add: init_from_throughput_def split: option.splits)

lemma update_defined:
  assumes "aimd_ok a"
  shows "\<exists>a'. aimd_Update pow input at_time a = Some (current_bitrate a', a') \<and> aimd_ok a'"
proof -
  let ?b = "init_from_throughput input at_time a"
  note mid = init_mid [OF assms, of input at_time]
  show ?thesis
  proof (cases "bitrate_is_initialized ?b \<or> bw_state input = kBwOverusing")
    case True
    then show ?thesis
      using change_bitrate_defined [OF mid True, of pow at_time] by (auto simp: aimd_Update_def)
  next
    case False
    then have "current_bitrate ?b = current_bitrate a" using init_not by blast
    then have "aimd_ok (?b\<lparr>latest_estimated_throughput := v\<rparr>)" for v
      using mid assms by (simp add: aimd_ok_def aimd_mid_def aimd_base_def init_min)
    then show ?thesis using False by (auto simp: aimd_Update_def ChangeBitrate_eq Let_def)
  qed
qed

lemma aimd_step_defined:
  assumes "aimd_ok a" and "aimd_op_ok op"
  shows "\<exists>a'. aimd_step pow op a = Some a' \<and> aimd_ok a'"
proof (cases op)
  case (AimdUpdate input at_time)
  then show ?thesis using update_defined [OF assms(1), of pow input at_time] by auto
next
  case (AimdEstimate bitrate at_time)
  then show ?thesis
    using assms clamp_ge [of a bitrate] by (simp add: aimd_ok_def aimd_base_def SetEstimate_def Let_def)
qed (use assms in \<open>auto simp: aimd_ok_def aimd_base_def aimd_SetMinBitrate_def aimd_SetStartBitrate_def SetRtt_def
    SetInApplicationLimitedRegion_def SetNetworkStateEstimate_def\<close>)

lemma aimd_run_defined:
  assumes "aimd_ok a" and "\<forall>op\<in>set ops. aimd_op_ok op"
  shows "\<exists>a'. aimd_run pow ops a = Some a' \<and> aimd_ok a'"
  using assms
proof (induction ops arbitrary: a)
  case (Cons op ops)
  obtain a1 where "aimd_step pow op a = Some a1" "aimd_ok a1" using aimd_step_defined Cons.prems by force
  then show ?case using Cons by simp
qed simp

lemma backoff_bounds: "0 < ReadBackoffFactor p" "ReadBackoffFactor p < 1" "0 < kDefaultBackoffFactor" "kDefaultBackoffFactor < 1"
proof -
  have d: "0 < kDefaultBackoffFactor" "kDefaultBackoffFactor < 1" by code_simp+
  then show "0 < ReadBackoffFactor p" "ReadBackoffFactor p < 1" by (auto simp: ReadBackoffFactor_def split: option.splits)
  show "0 < kDefaultBackoffFactor" "kDefaultBackoffFactor < 1" by (rule d)+
qed

lemma aimd_ok_new: "aimd_ok (new_AimdRateControl trials b)"
  by (simp add: aimd_ok_def aimd_base_def new_AimdRateControl_def backoff_bounds new_LinkCapacityEstimator_def
      kDefaultRtt_def Millis_def kCongestionControllerMinBitrate_def KilobitsPerSec_def)

section \<open>Property\<close>



definition default_aimd_trials :: aimd_trials where
  "default_aimd_trials =
     \<lparr>trial_backoff_enabled = False, trial_backoff_parsed = None, trial_dont_increase_in_alr = False,
      trial_subtract_term_disabled = False, trial_bounded_increase_disabled = False, trial_c_upper = False\<rparr>"

definition sample_aimd_ops :: "aimd_op list" where
  "sample_aimd_ops =
     [AimdRtt (Millis 50), AimdConstraints 300000 30000,
      AimdUpdate \<lparr>bw_state = kBwNormal, estimated_throughput = Some 250000\<rparr> 100000]"

lemma sample_aimd_facts:
  "(case aimd_run (\<lambda>x y. x) sample_aimd_ops (new_AimdRateControl default_aimd_trials True) of
      None \<Rightarrow> False
    | Some a \<Rightarrow> bitrate_is_initialized a \<and> network_estimate a = None \<and> in_order 400000 a \<and>
        min_configured_bitrate a = 30000 \<and> unit_times_double 200000 (beta a) = 170000)"
  by code_simp


end
