(* ===== verification/DelayBasedBwe.thy ===== *)
theory DelayBasedBwe
  imports InterArrivalDelta AimdRateControl "HOL-Library.Product_Lexorder"
begin

text \<open>
  The delay-based bandwidth estimator, \<open>modules/congestion_controller/goog_cc/delay_based_bwe.cc\<close>: it
  groups the acknowledged packets into bursts, feeds the bursts to a trendline estimator (one for
  audio, one for video, when they are separated) and steers the rate controller with the state of the
  active estimator. \<^term>\<open>None\<close> is an access outside of the trendline window, a null pointer or a
  division by zero in a component. The network state predictor, when there is one, answers as a
  function of the arguments of a call.
\<close>

section \<open>Transport feedback\<close>

text \<open>Of a packet result, the fields the estimator reads.\<close>

record PacketResult =
  pr_send_time :: int
  pr_size :: int
  pr_audio :: bool
  pr_sequence_number :: int
  pr_receive_time :: int

definition IsReceived :: "PacketResult \<Rightarrow> bool" where
  "IsReceived p \<longleftrightarrow> pr_receive_time p \<noteq> PlusInfinityVal"

definition ReceiveTimeOrder :: "PacketResult \<Rightarrow> PacketResult \<Rightarrow> bool" where
  "ReceiveTimeOrder lhs rhs =
     (if pr_receive_time lhs \<noteq> pr_receive_time rhs then pr_receive_time lhs < pr_receive_time rhs
      else if pr_send_time lhs \<noteq> pr_send_time rhs then pr_send_time lhs < pr_send_time rhs
      else pr_sequence_number lhs < pr_sequence_number rhs)"

record TransportPacketsFeedback =
  feedback_time :: int
  packet_feedbacks :: "PacketResult list"

definition receive_key :: "PacketResult \<Rightarrow> int \<times> int \<times> int" where
  "receive_key p = (pr_receive_time p, pr_send_time p, pr_sequence_number p)"

lemma receive_key_order: "receive_key p < receive_key q \<longleftrightarrow> ReceiveTimeOrder p q"
  by (auto simp: receive_key_def ReceiveTimeOrder_def)

definition SortedByReceiveTime :: "TransportPacketsFeedback \<Rightarrow> PacketResult list" where
  "SortedByReceiveTime msg = sort_key receive_key (filter IsReceived (packet_feedbacks msg))"

section \<open>Estimator\<close>

record BweSeparateAudioPacketsSettings =
  separate_enabled :: bool
  packet_threshold :: int
  time_threshold :: int

record Result =
  updated :: bool
  probe :: bool
  target_bitrate :: int
  recovered_from_overuse :: bool
  delay_detector_state :: BandwidthUsage

definition new_Result :: Result where
  "new_Result =
     \<lparr>updated = False, probe = False, target_bitrate = 0, recovered_from_overuse = False,
      delay_detector_state = kBwNormal\<rparr>"

record DelayBasedBwe =
  detector_settings :: TrendlineSettings
  detector_predictor :: bool
  separate_audio :: BweSeparateAudioPacketsSettings
  audio_packets_since_last_video :: int
  last_video_packet_recv_time :: int
  video_inter_arrival_delta :: "InterArrivalDelta option"
  video_delay_detector :: TrendlineEstimator
  audio_inter_arrival_delta :: "InterArrivalDelta option"
  audio_delay_detector :: TrendlineEstimator
  active_is_audio :: bool \<comment> \<open>the object \<open>active_delay_detector_\<close> points to\<close>
  last_seen_packet :: int
  rate_control :: AimdRateControl
  prev_bitrate :: int
  prev_state :: BandwidthUsage

definition kStreamTimeOut :: int where
  "kStreamTimeOut = Seconds 2"

definition kSendTimeGroupLength :: int where
  "kSendTimeGroupLength = Millis 5"

definition new_DelayBasedBwe ::
  "TrendlineSettings \<Rightarrow> bool \<Rightarrow> BweSeparateAudioPacketsSettings \<Rightarrow> aimd_trials \<Rightarrow> DelayBasedBwe" where
  "new_DelayBasedBwe st predictor separate trials =
     \<lparr>detector_settings = st, detector_predictor = predictor, separate_audio = separate,
      audio_packets_since_last_video = 0, last_video_packet_recv_time = MinusInfinityVal,
      video_inter_arrival_delta = None, video_delay_detector = TrendlineEstimator_init st predictor,
      audio_inter_arrival_delta = None, audio_delay_detector = TrendlineEstimator_init st predictor,
      active_is_audio = False, last_seen_packet = MinusInfinityVal,
      rate_control = new_AimdRateControl trials True, prev_bitrate = 0, prev_state = kBwNormal\<rparr>"

definition active_delay_detector :: "DelayBasedBwe \<Rightarrow> TrendlineEstimator" where
  "active_delay_detector b = (if active_is_audio b then audio_delay_detector b else video_delay_detector b)"

definition aggressive_state :: "DelayBasedBwe \<Rightarrow> rat" where
  "aggressive_state b = AggresiveState (active_delay_detector b)"

definition last_estimate :: "DelayBasedBwe \<Rightarrow> int" where
  "last_estimate b = prev_bitrate b"

definition last_state :: "DelayBasedBwe \<Rightarrow> BandwidthUsage" where
  "last_state b = prev_state b"

text \<open>The parts of \<open>IncomingPacketFeedback\<close>: the reset of a stream that has timed out, the choice of
  the active estimator, and the update of the estimator of the packet.\<close>

definition reset_timed_out :: "int \<Rightarrow> DelayBasedBwe \<Rightarrow> DelayBasedBwe" where
  "reset_timed_out at_time b =
     (if \<not> IsFinite (last_seen_packet b) \<or> unit_minus at_time (last_seen_packet b) > kStreamTimeOut
      then b\<lparr>video_inter_arrival_delta := Some (new_InterArrivalDelta kSendTimeGroupLength),
             audio_inter_arrival_delta := Some (new_InterArrivalDelta kSendTimeGroupLength),
             video_delay_detector := TrendlineEstimator_init (detector_settings b) (detector_predictor b),
             audio_delay_detector := TrendlineEstimator_init (detector_settings b) (detector_predictor b),
             active_is_audio := False\<rparr>
      else b)"

definition choose_detector :: "PacketResult \<Rightarrow> DelayBasedBwe \<Rightarrow> DelayBasedBwe" where
  "choose_detector p b =
     (if \<not> separate_enabled (separate_audio b) then b
      else if pr_audio p
      then (let n = audio_packets_since_last_video b + 1
            in b\<lparr>audio_packets_since_last_video := n,
                 active_is_audio :=
                   (if n > packet_threshold (separate_audio b) \<and>
                       unit_minus (pr_receive_time p) (last_video_packet_recv_time b) >
                         time_threshold (separate_audio b)
                    then True else active_is_audio b)\<rparr>)
      else b\<lparr>audio_packets_since_last_video := 0,
             last_video_packet_recv_time := max (last_video_packet_recv_time b) (pr_receive_time p),
             active_is_audio := False\<rparr>)"

definition update_detector ::
  "(int \<Rightarrow> int \<Rightarrow> BandwidthUsage \<Rightarrow> BandwidthUsage) \<Rightarrow> PacketResult \<Rightarrow> int \<Rightarrow> InterArrivalDelta \<Rightarrow>
   TrendlineEstimator \<Rightarrow> (InterArrivalDelta \<times> TrendlineEstimator) option" where
  "update_detector predict p at_time inter_arrival detector = do {
     let (calculated_deltas, out, inter_arrival) =
       ComputeDeltas (pr_send_time p) (pr_receive_time p) at_time (pr_size p)
         \<lparr>send_time_delta = 0, arrival_time_delta = 0, packet_size_delta = 0\<rparr> inter_arrival;
     detector \<leftarrow> Update predict detector (ms_double (arrival_time_delta out)) (ms_double (send_time_delta out))
       (ms (pr_send_time p)) (ms (pr_receive_time p)) (nat (pr_size p)) calculated_deltas;
     Some (inter_arrival, detector)
   }"

definition IncomingPacketFeedback ::
  "(int \<Rightarrow> int \<Rightarrow> BandwidthUsage \<Rightarrow> BandwidthUsage) \<Rightarrow> PacketResult \<Rightarrow> int \<Rightarrow> DelayBasedBwe \<Rightarrow>
   DelayBasedBwe option" where
  "IncomingPacketFeedback predict p at_time b = do {
     let b = choose_detector p ((reset_timed_out at_time b)\<lparr>last_seen_packet := at_time\<rparr>);
     if separate_enabled (separate_audio b) \<and> pr_audio p
     then do {
       inter_arrival \<leftarrow> audio_inter_arrival_delta b;
       (inter_arrival, detector) \<leftarrow> update_detector predict p at_time inter_arrival (audio_delay_detector b);
       Some (b\<lparr>audio_inter_arrival_delta := Some inter_arrival, audio_delay_detector := detector\<rparr>)
     }
     else do {
       inter_arrival \<leftarrow> video_inter_arrival_delta b;
       (inter_arrival, detector) \<leftarrow> update_detector predict p at_time inter_arrival (video_delay_detector b);
       Some (b\<lparr>video_inter_arrival_delta := Some inter_arrival, video_delay_detector := detector\<rparr>)
     }
   }"

fun process_feedbacks ::
  "(int \<Rightarrow> int \<Rightarrow> BandwidthUsage \<Rightarrow> BandwidthUsage) \<Rightarrow> int \<Rightarrow> PacketResult list \<Rightarrow> bool \<Rightarrow> DelayBasedBwe \<Rightarrow>
   (bool \<times> DelayBasedBwe) option" where
  "process_feedbacks predict at_time [] recovered b = Some (recovered, b)"
| "process_feedbacks predict at_time (p # ps) recovered b = do {
     let prev_detector_state = State (active_delay_detector b);
     b \<leftarrow> IncomingPacketFeedback predict p at_time b;
     process_feedbacks predict at_time ps
       (recovered \<or> (prev_detector_state = kBwUnderusing \<and> State (active_delay_detector b) = kBwNormal)) b
   }"

definition UpdateEstimate ::
  "(rat \<Rightarrow> rat \<Rightarrow> rat) \<Rightarrow> int \<Rightarrow> int option \<Rightarrow> DelayBasedBwe \<Rightarrow> (bool \<times> int \<times> DelayBasedBwe) option" where
  "UpdateEstimate pow at_time acked_bitrate b = do {
     let input = \<lparr>bw_state = State (active_delay_detector b), estimated_throughput = acked_bitrate\<rparr>;
     (target_rate, a) \<leftarrow> aimd_Update pow input at_time (rate_control b);
     Some (ValidEstimate a, target_rate, b\<lparr>rate_control := a\<rparr>)
   }"

text \<open>The choice of the estimate, and the bookkeeping of the last one, in \<open>MaybeUpdateEstimate\<close>.\<close>

definition choose_estimate ::
  "(rat \<Rightarrow> rat \<Rightarrow> rat) \<Rightarrow> int option \<Rightarrow> int option \<Rightarrow> bool \<Rightarrow> int \<Rightarrow> DelayBasedBwe \<Rightarrow> (Result \<times> DelayBasedBwe) option" where
  "choose_estimate pow acked_bitrate probe_bitrate recovered at_time b =
     (if State (active_delay_detector b) = kBwOverusing
      then (case acked_bitrate of
              Some acked \<Rightarrow>
                if TimeToReduceFurther at_time acked (rate_control b)
                then do {
                  (valid, target, b) \<leftarrow> UpdateEstimate pow at_time acked_bitrate b;
                  Some (new_Result\<lparr>updated := valid, target_bitrate := target\<rparr>, b)
                }
                else Some (new_Result, b)
            | None \<Rightarrow>
                if ValidEstimate (rate_control b) \<and> InitialTimeToReduceFurther at_time (rate_control b)
                then let a = SetEstimate (aimd_LatestEstimate (rate_control b) sdiv 2) at_time (rate_control b)
                     in Some (new_Result\<lparr>updated := True, probe := False, target_bitrate := aimd_LatestEstimate a\<rparr>,
                              b\<lparr>rate_control := a\<rparr>)
                else Some (new_Result, b))
      else (case probe_bitrate of
              Some probe_rate \<Rightarrow>
                let a = SetEstimate probe_rate at_time (rate_control b)
                in Some (new_Result\<lparr>probe := True, updated := True, target_bitrate := aimd_LatestEstimate a\<rparr>,
                         b\<lparr>rate_control := a\<rparr>)
            | None \<Rightarrow> do {
                (valid, target, b) \<leftarrow> UpdateEstimate pow at_time acked_bitrate b;
                Some (new_Result\<lparr>updated := valid, target_bitrate := target,
                                 recovered_from_overuse := recovered\<rparr>, b)
              }))"

definition MaybeUpdateEstimate ::
  "(rat \<Rightarrow> rat \<Rightarrow> rat) \<Rightarrow> int option \<Rightarrow> int option \<Rightarrow> bool \<Rightarrow> int \<Rightarrow> DelayBasedBwe \<Rightarrow> (Result \<times> DelayBasedBwe) option" where
  "MaybeUpdateEstimate pow acked_bitrate probe_bitrate recovered at_time b = do {
     (result, b) \<leftarrow> choose_estimate pow acked_bitrate probe_bitrate recovered at_time b;
     let detector_state = State (active_delay_detector b);
     let b = (if updated result \<and> prev_bitrate b \<noteq> target_bitrate result \<or> detector_state \<noteq> prev_state b
              then b\<lparr>prev_bitrate := (if updated result then target_bitrate result else prev_bitrate b),
                     prev_state := detector_state\<rparr>
              else b);
     Some (result\<lparr>delay_detector_state := detector_state\<rparr>, b)
   }"

definition IncomingPacketFeedbackVector ::
  "(int \<Rightarrow> int \<Rightarrow> BandwidthUsage \<Rightarrow> BandwidthUsage) \<Rightarrow> (rat \<Rightarrow> rat \<Rightarrow> rat) \<Rightarrow> TransportPacketsFeedback \<Rightarrow>
   int option \<Rightarrow> int option \<Rightarrow> NetworkStateEstimate option \<Rightarrow> bool \<Rightarrow> DelayBasedBwe \<Rightarrow>
   (Result \<times> DelayBasedBwe) option" where
  "IncomingPacketFeedbackVector predict pow msg acked_bitrate probe_bitrate estimate alr b =
     (let packet_feedback_vector = SortedByReceiveTime msg
      in if packet_feedback_vector = [] then Some (new_Result, b)
         else do {
           (recovered, b) \<leftarrow> process_feedbacks predict (feedback_time msg) packet_feedback_vector False b;
           let b = b\<lparr>rate_control := SetNetworkStateEstimate estimate (SetInApplicationLimitedRegion alr (rate_control b))\<rparr>;
           MaybeUpdateEstimate pow acked_bitrate probe_bitrate recovered (feedback_time msg) b
         })"

definition TriggerOveruse ::
  "(rat \<Rightarrow> rat \<Rightarrow> rat) \<Rightarrow> int \<Rightarrow> int option \<Rightarrow> DelayBasedBwe \<Rightarrow> (int \<times> DelayBasedBwe) option" where
  "TriggerOveruse pow at_time capacity b = do {
     (rate, a) \<leftarrow> aimd_Update pow \<lparr>bw_state = kBwOverusing, estimated_throughput = capacity\<rparr> at_time (rate_control b);
     Some (rate, b\<lparr>rate_control := a\<rparr>)
   }"

definition OnRttUpdate :: "int \<Rightarrow> DelayBasedBwe \<Rightarrow> DelayBasedBwe" where
  "OnRttUpdate avg_rtt b = b\<lparr>rate_control := SetRtt avg_rtt (rate_control b)\<rparr>"

definition LatestEstimate :: "DelayBasedBwe \<Rightarrow> int option" where
  "LatestEstimate b = (if ValidEstimate (rate_control b) then Some (aimd_LatestEstimate (rate_control b)) else None)"

definition SetStartBitrate :: "int \<Rightarrow> DelayBasedBwe \<Rightarrow> DelayBasedBwe" where
  "SetStartBitrate start_bitrate b = b\<lparr>rate_control := aimd_SetStartBitrate start_bitrate (rate_control b)\<rparr>"

definition SetMinBitrate :: "int \<Rightarrow> DelayBasedBwe \<Rightarrow> DelayBasedBwe" where
  "SetMinBitrate min_bitrate b = b\<lparr>rate_control := aimd_SetMinBitrate min_bitrate (rate_control b)\<rparr>"

definition GetExpectedBwePeriod :: "DelayBasedBwe \<Rightarrow> int option" where
  "GetExpectedBwePeriod b = GetExpectedBandwidthPeriod (rate_control b)"


section \<open>Invariant\<close>

text \<open>An estimator that reports over-use has last seen its trend above the threshold, so the ratio it
  hands to the encoder is at least 2.\<close>

definition detector_ok :: "TrendlineSettings \<Rightarrow> bool \<Rightarrow> TrendlineEstimator \<Rightarrow> bool" where
  "detector_ok st predictor s \<longleftrightarrow> trendline_inv s \<and> settings s = st \<and> has_predictor s = predictor \<and>
     (hypothesis s = kBwOverusing \<longrightarrow> 2 \<le> hypothesis_aggresive s)"

lemma Detect_overuse:
  assumes "hypothesis (Detect s trend d now) = kBwOverusing"
  shows "2 \<le> num_of_deltas s \<and> threshold s < modified_trend_of s trend"
  using assms by (auto simp: Detect_def Let_def split: if_splits)

lemma detector_ok_init: "detector_ok st pr (TrendlineEstimator_init st pr)"
  by (simp add: detector_ok_def trendline_inv_init) (simp add: TrendlineEstimator_init_def)

lemma trendline_overuse:
  assumes "detector_ok st pr s" and "UpdateTrendline s rd sd t arr sz = Some s'"
  shows "has_predictor s' = pr \<and> (hypothesis s' = kBwOverusing \<longrightarrow> 2 \<le> hypothesis_aggresive s')"
proof -
  obtain trend p f a m where
    s': "s' = Detect
       (s\<lparr>num_of_deltas := min (num_of_deltas s + 1) kDeltaCounterMax, first_arrival_time_ms := f,
          accumulated_delay := a, smoothed_delay := m,
          delay_hist := snd (trim_window (emplace_timing (settings s) (delay_hist s) p))\<rparr>)
       trend sd arr" (is "_ = Detect ?s1 _ _ _")
    using assms(2) by (rule UpdateTrendline_cases)
  have ok: "threshold_ok ?s1" and t0: "0 < threshold ?s1"
    using assms(1) by (auto simp: detector_ok_def trendline_inv_def threshold_ok_def)
  have "2 \<le> hypothesis_aggresive s'" if "hypothesis s' = kBwOverusing"
  proof -
    have o: "2 \<le> num_of_deltas ?s1" "threshold ?s1 < modified_trend_of ?s1 trend"
      using Detect_overuse [of ?s1 trend sd arr] that s' by blast+
    show ?thesis
      unfolding s' Detect_aggresive [OF ok o(1)] using aggressive_ratio(3) [OF t0 o(2)] o(2) t0 by simp
  qed
  moreover have "has_predictor s' = pr" using assms(1) by (simp add: s' detector_ok_def)
  ultimately show ?thesis by blast
qed

lemma Update_defined:
  assumes "detector_ok st pr s" and "\<not> enable_cap st"
  shows "\<exists>s'. Update predict s rd sd t arr sz c = Some s' \<and> detector_ok st pr s'"
proof -
  obtain s1 where u: "(if c then UpdateTrendline s rd sd t arr sz else Some s) = Some s1"
    using UpdateTrendline_total [of s rd sd t arr sz] assms by (cases c) (auto simp: detector_ok_def)
  then have "has_predictor s1 = pr \<and> (hypothesis s1 = kBwOverusing \<longrightarrow> 2 \<le> hypothesis_aggresive s1)"
    using trendline_overuse [OF assms(1)] assms(1) by (cases c) (auto simp: detector_ok_def)
  moreover have U: "Update predict s rd sd t arr sz c =
      Some (if has_predictor s1 then s1\<lparr>hypothesis_predicted := predict t arr (hypothesis s1)\<rparr> else s1)"
    unfolding Update_def u by simp
  moreover have "trendline_inv s" "settings s = st" using assms(1) by (simp_all add: detector_ok_def)
  ultimately show ?thesis
    using Update_inv [OF _ U] by (auto simp: detector_ok_def)
qed

definition dbwe_ok :: "bool \<Rightarrow> DelayBasedBwe \<Rightarrow> bool" where
  "dbwe_ok pr b \<longleftrightarrow> detector_predictor b = pr \<and> \<not> enable_cap (detector_settings b) \<and>
     detector_ok (detector_settings b) pr (video_delay_detector b) \<and>
     detector_ok (detector_settings b) pr (audio_delay_detector b) \<and>
     (IsFinite (last_seen_packet b) \<longrightarrow> video_inter_arrival_delta b \<noteq> None \<and> audio_inter_arrival_delta b \<noteq> None) \<and>
     aimd_ok (rate_control b)"

lemma update_detector_defined:
  assumes "detector_ok st pr s" and "\<not> enable_cap st"
  shows "\<exists>i' s'. update_detector predict p at_time i s = Some (i', s') \<and> detector_ok st pr s'"
proof -
  obtain c out i' where d: "ComputeDeltas (pr_send_time p) (pr_receive_time p) at_time (pr_size p)
      \<lparr>send_time_delta = 0, arrival_time_delta = 0, packet_size_delta = 0\<rparr> i = (c, out, i')"
    by (metis prod.exhaust)
  show ?thesis unfolding update_detector_def d Let_def prod.case
    using Update_defined [OF assms, of predict "ms_double (arrival_time_delta out)" "ms_double (send_time_delta out)"
        "ms (pr_send_time p)" "ms (pr_receive_time p)" "nat (pr_size p)" c] by auto
qed

text \<open>The fields that feedback does not touch before the rate controller is asked.\<close>

definition same_rates :: "DelayBasedBwe \<Rightarrow> DelayBasedBwe \<Rightarrow> bool" where
  "same_rates b b' \<longleftrightarrow> rate_control b' = rate_control b \<and> prev_bitrate b' = prev_bitrate b \<and>
     prev_state b' = prev_state b \<and> detector_predictor b' = detector_predictor b"

lemma incoming_defined:
  assumes "dbwe_ok pr b"
  shows "\<exists>b'. IncomingPacketFeedback predict p at_time b = Some b' \<and> dbwe_ok pr b' \<and> same_rates b b'"
proof -
  define c where "c = choose_detector p ((reset_timed_out at_time b)\<lparr>last_seen_packet := at_time\<rparr>)"
  have ok: "dbwe_ok pr c" "video_inter_arrival_delta c \<noteq> None" "audio_inter_arrival_delta c \<noteq> None"
    using assms
    by (auto simp: c_def dbwe_ok_def choose_detector_def reset_timed_out_def Let_def detector_ok_init)
  have same: "same_rates b c"
    by (simp add: same_rates_def c_def choose_detector_def reset_timed_out_def Let_def)
  obtain iv ia where i: "video_inter_arrival_delta c = Some iv" "audio_inter_arrival_delta c = Some ia"
    using ok(2,3) by blast
  have cap: "\<not> enable_cap (detector_settings c)" using ok(1) by (simp add: dbwe_ok_def)
  obtain iv' sv where v: "update_detector predict p at_time iv (video_delay_detector c) = Some (iv', sv)"
      "detector_ok (detector_settings c) pr sv"
    using update_detector_defined [OF _ cap] ok(1) unfolding dbwe_ok_def by blast
  obtain ia' sa where a: "update_detector predict p at_time ia (audio_delay_detector c) = Some (ia', sa)"
      "detector_ok (detector_settings c) pr sa"
    using update_detector_defined [OF _ cap] ok(1) unfolding dbwe_ok_def by blast
  show ?thesis
    using ok(1) same i v a
    unfolding IncomingPacketFeedback_def c_def [symmetric] Let_def
    by (auto simp: dbwe_ok_def same_rates_def)
qed

lemma same_rates_trans: "same_rates a b \<Longrightarrow> same_rates b c \<Longrightarrow> same_rates a c"
  by (simp add: same_rates_def)

lemma feedbacks_defined:
  assumes "dbwe_ok pr b"
  shows "\<exists>r b'. process_feedbacks predict at_time ps recovered b = Some (r, b') \<and> dbwe_ok pr b' \<and> same_rates b b'"
  using assms
proof (induction ps arbitrary: b recovered)
  case (Cons p ps)
  obtain b1 where 1: "IncomingPacketFeedback predict p at_time b = Some b1" "dbwe_ok pr b1" "same_rates b b1"
    using incoming_defined [OF Cons.prems] by blast
  obtain r b' where "process_feedbacks predict at_time ps
      (recovered \<or> State (active_delay_detector b) = kBwUnderusing \<and> State (active_delay_detector b1) = kBwNormal) b1 =
      Some (r, b')" "dbwe_ok pr b'" "same_rates b1 b'"
    using Cons.IH [OF 1(2)] by blast
  then show ?case using 1 same_rates_trans [OF 1(3)] by (auto simp: Let_def)
qed (simp add: same_rates_def)


lemma set_estimate_ok: "aimd_ok a \<Longrightarrow> aimd_ok (SetEstimate bitrate at_time a)"
  using clamp_ge [of a bitrate] by (simp add: aimd_ok_def aimd_base_def SetEstimate_def Let_def)

lemma choose_defined:
  assumes "aimd_ok (rate_control b)"
  shows "\<exists>res a. choose_estimate pow acked probed recovered at_time b = Some (res, b\<lparr>rate_control := a\<rparr>) \<and> aimd_ok a"
proof -
  have u: "\<exists>valid target a. UpdateEstimate pow at_time x b = Some (valid, target, b\<lparr>rate_control := a\<rparr>) \<and> aimd_ok a" for x
    using update_defined [OF assms, of pow "\<lparr>bw_state = State (active_delay_detector b), estimated_throughput = x\<rparr>" at_time]
    by (auto simp: UpdateEstimate_def Let_def)
  have k: "\<exists>a. b = b\<lparr>rate_control := a\<rparr> \<and> aimd_ok a" using assms by (intro exI [of _ "rate_control b"]) simp
  show ?thesis
    unfolding choose_estimate_def Let_def
    using u [of acked] set_estimate_ok [OF assms] assms k by (auto split: option.splits)
qed

text \<open>Over-use, once there is an estimate.\<close>

lemma choose_overuse:
  assumes "aimd_ok (rate_control b)" and "State (active_delay_detector b) = kBwOverusing"
    and "bitrate_is_initialized (rate_control b)"
    and "choose_estimate pow acked probed recovered at_time b = Some (res, b')"
  shows "bitrate_is_initialized (rate_control b')"
    and "current_bitrate (rate_control b') \<le> current_bitrate (rate_control b)"
    and "updated res \<Longrightarrow> target_bitrate res = current_bitrate (rate_control b')"
    and "min_configured_bitrate (rate_control b') = min_configured_bitrate (rate_control b)"
    and "\<lbrakk>acked = Some tp; TimeToReduceFurther at_time tp (rate_control b); network_estimate (rate_control b) = None\<rbrakk> \<Longrightarrow>
      updated res \<and> current_bitrate (rate_control b') \<le>
        max (min_configured_bitrate (rate_control b)) (unit_times_double tp (beta (rate_control b)))"
proof -
  let ?a = "rate_control b"
  let ?i = "\<lparr>bw_state = kBwOverusing, estimated_throughput = acked\<rparr>"
  have mid: "aimd_mid ?a" and min: "min_configured_bitrate ?a \<le> current_bitrate ?a"
    using assms(1) by (auto simp: aimd_ok_def aimd_mid_def)
  obtain a' where C: "ChangeBitrate pow ?i at_time ?a = Some a'" "bitrate_is_initialized a'"
      "min_configured_bitrate a' = min_configured_bitrate ?a" "current_bitrate a' \<le> current_bitrate ?a"
    and tp: "\<And>tp. acked = Some tp \<Longrightarrow> network_estimate ?a = None \<Longrightarrow>
      current_bitrate a' \<le> max (min_configured_bitrate ?a) (unit_times_double tp (beta ?a))"
    using change_bitrate_defined [OF mid, of ?i pow at_time] assms(3) min by fastforce
  have U: "UpdateEstimate pow at_time acked b = Some (True, current_bitrate a', b\<lparr>rate_control := a'\<rparr>)"
    using C(1,2) assms(2) init_id [OF assms(3), of ?i at_time]
    by (simp add: UpdateEstimate_def aimd_Update_def ValidEstimate_def Let_def)
  have "0 \<le> current_bitrate ?a" using assms(1)
    by (auto simp: aimd_ok_def aimd_base_def kCongestionControllerMinBitrate_def)
  then have "current_bitrate ?a sdiv 2 \<le> current_bitrate ?a" by (simp add: sdiv_nonneg)
  then have half: "ClampBitrate (current_bitrate ?a sdiv 2) ?a \<le> current_bitrate ?a" by (rule clamp_le [OF min])
  note R = assms(4) [unfolded choose_estimate_def U Let_def]
  show "bitrate_is_initialized (rate_control b')"
    "current_bitrate (rate_control b') \<le> current_bitrate ?a"
    "updated res \<Longrightarrow> target_bitrate res = current_bitrate (rate_control b')"
    "min_configured_bitrate (rate_control b') = min_configured_bitrate ?a"
    using R assms(2,3) C half
    by (auto simp: SetEstimate_def Let_def aimd_LatestEstimate_def new_Result_def split: option.splits if_splits)
  show "updated res \<and> current_bitrate (rate_control b') \<le> max (min_configured_bitrate ?a) (unit_times_double tp (beta ?a))"
    if "acked = Some tp" "TimeToReduceFurther at_time tp ?a" "network_estimate ?a = None"
    using R assms(2) that(1,2) tp [OF that(1,3)] by auto
qed

lemma maybe_update_defined:
  assumes "dbwe_ok pr b"
  shows "\<exists>res b'. MaybeUpdateEstimate pow acked probed recovered at_time b = Some (res, b') \<and> dbwe_ok pr b'"
proof -
  obtain res a where C: "choose_estimate pow acked probed recovered at_time b = Some (res, b\<lparr>rate_control := a\<rparr>)" "aimd_ok a"
    using choose_defined [of b pow acked probed recovered at_time] assms by (auto simp: dbwe_ok_def)
  then show ?thesis using assms by (auto simp: MaybeUpdateEstimate_def Let_def dbwe_ok_def)
qed

lemma vector_defined:
  assumes "dbwe_ok pr b"
  shows "\<exists>res b'. IncomingPacketFeedbackVector predict pow msg acked probed estimate alr b = Some (res, b') \<and> dbwe_ok pr b'"
proof (cases "SortedByReceiveTime msg = []")
  case False
  obtain r c where P: "process_feedbacks predict (feedback_time msg) (SortedByReceiveTime msg) False b = Some (r, c)" "dbwe_ok pr c"
    using feedbacks_defined [OF assms] by blast
  let ?c = "c\<lparr>rate_control := SetNetworkStateEstimate estimate (SetInApplicationLimitedRegion alr (rate_control c))\<rparr>"
  have "dbwe_ok pr ?c"
    using P(2) by (simp add: dbwe_ok_def SetNetworkStateEstimate_def SetInApplicationLimitedRegion_def aimd_ok_def aimd_base_def)
  then show ?thesis
    using maybe_update_defined [of pr ?c pow acked probed r "feedback_time msg"] False P(1)
    by (simp add: IncomingPacketFeedbackVector_def Let_def)
qed (use assms in \<open>simp add: IncomingPacketFeedbackVector_def\<close>)

section \<open>Runs\<close>

datatype dbwe_op =
    DbweFeedback TransportPacketsFeedback "int option" "int option" "NetworkStateEstimate option" bool
  | DbweRtt int
  | DbweConstraints "int option" int
  | DbweOveruse int "int option"

fun dbwe_step ::
  "(int \<Rightarrow> int \<Rightarrow> BandwidthUsage \<Rightarrow> BandwidthUsage) \<Rightarrow> (rat \<Rightarrow> rat \<Rightarrow> rat) \<Rightarrow> dbwe_op \<Rightarrow> DelayBasedBwe \<Rightarrow>
   DelayBasedBwe option" where
  "dbwe_step predict pow (DbweFeedback msg acked probed estimate alr) b =
     map_option snd (IncomingPacketFeedbackVector predict pow msg acked probed estimate alr b)"
| "dbwe_step predict pow (DbweRtt v) b = Some (OnRttUpdate v b)"
| "dbwe_step predict pow (DbweConstraints start_rate min_rate) b =
     Some (SetMinBitrate min_rate (case start_rate of Some v \<Rightarrow> SetStartBitrate v b | None \<Rightarrow> b))"
| "dbwe_step predict pow (DbweOveruse at_time capacity) b = map_option snd (TriggerOveruse pow at_time capacity b)"

fun dbwe_run ::
  "(int \<Rightarrow> int \<Rightarrow> BandwidthUsage \<Rightarrow> BandwidthUsage) \<Rightarrow> (rat \<Rightarrow> rat \<Rightarrow> rat) \<Rightarrow> dbwe_op list \<Rightarrow> DelayBasedBwe \<Rightarrow>
   DelayBasedBwe option" where
  "dbwe_run predict pow [] b = Some b"
| "dbwe_run predict pow (op # ops) b = Option.bind (dbwe_step predict pow op b) (dbwe_run predict pow ops)"

fun dbwe_op_ok :: "dbwe_op \<Rightarrow> bool" where
  "dbwe_op_ok (DbweRtt v) \<longleftrightarrow> 0 \<le> v"
| "dbwe_op_ok (DbweConstraints start_rate min_rate) \<longleftrightarrow> kCongestionControllerMinBitrate \<le> min_rate"
| "dbwe_op_ok op \<longleftrightarrow> True"

lemma dbwe_ok_rates: "dbwe_ok pr b \<Longrightarrow> aimd_ok a \<Longrightarrow> dbwe_ok pr (b\<lparr>rate_control := a\<rparr>)"
  by (simp add: dbwe_ok_def)

lemma dbwe_step_defined:
  assumes "dbwe_ok pr b" and "dbwe_op_ok op"
  shows "\<exists>b'. dbwe_step predict pow op b = Some b' \<and> dbwe_ok pr b'"
proof (cases op)
  case (DbweFeedback msg acked probed estimate alr)
  then show ?thesis using vector_defined [OF assms(1), of predict pow msg acked probed estimate alr] by auto
next
  case (DbweRtt v)
  then show ?thesis
    using assms by (auto simp: OnRttUpdate_def SetRtt_def dbwe_ok_def aimd_ok_def aimd_base_def)
next
  case (DbweConstraints start_rate min_rate)
  then show ?thesis
    using assms
    by (cases start_rate) (auto simp: SetMinBitrate_def SetStartBitrate_def aimd_SetMinBitrate_def
        aimd_SetStartBitrate_def dbwe_ok_def aimd_ok_def aimd_base_def)
next
  case (DbweOveruse at_time capacity)
  have "aimd_ok (rate_control b)" using assms(1) by (simp add: dbwe_ok_def)
  from update_defined [OF this, of pow "\<lparr>bw_state = kBwOverusing, estimated_throughput = capacity\<rparr>" at_time]
  show ?thesis using assms(1) DbweOveruse by (auto simp: TriggerOveruse_def dbwe_ok_rates)
qed

lemma dbwe_run_defined:
  assumes "dbwe_ok pr b" and "\<forall>op\<in>set ops. dbwe_op_ok op"
  shows "\<exists>b'. dbwe_run predict pow ops b = Some b' \<and> dbwe_ok pr b'"
  using assms
proof (induction ops arbitrary: b)
  case (Cons op ops)
  obtain b1 where "dbwe_step predict pow op b = Some b1" "dbwe_ok pr b1" using dbwe_step_defined Cons.prems by force
  then show ?case using Cons by simp
qed simp

lemma dbwe_ok_new: "\<not> enable_cap st \<Longrightarrow> dbwe_ok pr (new_DelayBasedBwe st pr sep trials)"
  by (simp add: dbwe_ok_def new_DelayBasedBwe_def detector_ok_init aimd_ok_new) (simp add: IsFinite_def)

lemma overuse_ratio:
  assumes "dbwe_ok pr b"
  shows "1 \<le> aggressive_state b"
    and "State (active_delay_detector b) = kBwOverusing \<Longrightarrow> \<not> pr \<Longrightarrow> 2 \<le> aggressive_state b"
  using assms
  by (auto simp: dbwe_ok_def detector_ok_def trendline_inv_def aggressive_state_def active_delay_detector_def
      AggresiveState_def State_def)

section \<open>Properties\<close>

lemma reachable_ok:
  assumes "\<not> enable_cap st" and "\<forall>op\<in>set ops. dbwe_op_ok op"
    and "dbwe_run predict pow ops (new_DelayBasedBwe st pr sep trials) = Some b"
  shows "dbwe_ok pr b"
  using dbwe_run_defined [OF dbwe_ok_new [OF assms(1)] assms(2), of predict pow pr sep trials] assms(3) by auto


text \<open>
  C3. Over-use is answered on both paths: when a feedback report ends in over-use, the estimate is not
  raised and stays at or above the minimum, the ratio handed to the encoder is at least 2 (unless a
  network state predictor overrules the estimator), and, if there is a measured throughput, the last change is at least a round trip ago (or the throughput is
  below half of the estimate) and there is no external network estimate, the new estimate is reported
  and is at most the backoff factor times the throughput, or the minimum.
\<close>

theorem delay_bwe_backs_off:
  assumes "\<not> enable_cap st" and "\<forall>op\<in>set ops. dbwe_op_ok op"
    and "dbwe_run predict pow ops (new_DelayBasedBwe st pr sep trials) = Some b"
    and "LatestEstimate b = Some r"
    and "IncomingPacketFeedbackVector predict pow msg acked probed estimate alr b = Some (res, b')"
    and "delay_detector_state res = kBwOverusing"
  shows "\<exists>r'. LatestEstimate b' = Some r' \<and> r' \<le> r \<and> min_configured_bitrate (rate_control b) \<le> r' \<and>
    (updated res \<longrightarrow> target_bitrate res = r') \<and> (\<not> pr \<longrightarrow> 2 \<le> aggressive_state b') \<and>
    (\<forall>tp. acked = Some tp \<and> estimate = None \<and> TimeToReduceFurther (feedback_time msg) tp (rate_control b) \<longrightarrow>
       updated res \<and> r' \<le> max (min_configured_bitrate (rate_control b)) (unit_times_double tp (beta (rate_control b))))"
proof -
  have ok: "dbwe_ok pr b" by (rule reachable_ok [OF assms(1-3)])
  have ne: "SortedByReceiveTime msg \<noteq> []"
    using assms(5,6) by (auto simp: IncomingPacketFeedbackVector_def new_Result_def)
  obtain rc c where P: "process_feedbacks predict (feedback_time msg) (SortedByReceiveTime msg) False b = Some (rc, c)"
      "dbwe_ok pr c" "same_rates b c"
    using feedbacks_defined [OF ok] by blast
  define a where "a = SetNetworkStateEstimate estimate (SetInApplicationLimitedRegion alr (rate_control b))"
  have a: "rate_control c = rate_control b" "aimd_ok a" "bitrate_is_initialized a"
      "current_bitrate a = r" "min_configured_bitrate a = min_configured_bitrate (rate_control b)"
      "network_estimate a = estimate" "beta a = beta (rate_control b)"
      "\<And>tp. TimeToReduceFurther (feedback_time msg) tp a = TimeToReduceFurther (feedback_time msg) tp (rate_control b)"
    using ok P(3) assms(4)
    by (auto simp: a_def SetNetworkStateEstimate_def SetInApplicationLimitedRegion_def dbwe_ok_def aimd_ok_def
        aimd_base_def LatestEstimate_def ValidEstimate_def aimd_LatestEstimate_def TimeToReduceFurther_def
        same_rates_def split: if_splits)
  let ?c = "c\<lparr>rate_control := a\<rparr>"
  have okc: "dbwe_ok pr ?c" using P(2) a(2) by (rule dbwe_ok_rates)
  have M: "MaybeUpdateEstimate pow acked probed rc (feedback_time msg) ?c = Some (res, b')"
    using assms(5) ne P(1) a(1) by (simp add: IncomingPacketFeedbackVector_def Let_def a_def)
  then obtain res1 b1 where C: "choose_estimate pow acked probed rc (feedback_time msg) ?c = Some (res1, b1)"
      "delay_detector_state res = State (active_delay_detector b1)" "rate_control b' = rate_control b1"
      "active_delay_detector b' = active_delay_detector b1"
      "updated res = updated res1" "target_bitrate res = target_bitrate res1"
    by (auto simp: MaybeUpdateEstimate_def Let_def active_delay_detector_def split: Option.bind_splits)
  obtain a1 where b1: "b1 = ?c\<lparr>rate_control := a1\<rparr>" "aimd_ok a1"
    using choose_defined [of ?c pow acked probed rc "feedback_time msg"] a(2) C(1) by auto
  have act: "active_delay_detector b1 = active_delay_detector ?c"
    by (simp add: b1 active_delay_detector_def)
  have over: "State (active_delay_detector ?c) = kBwOverusing" using assms(6) C(2) act by simp
  have "\<not> pr \<longrightarrow> 2 \<le> aggressive_state ?c" using overuse_ratio(2) [OF okc over] by simp
  then have agg: "\<not> pr \<longrightarrow> 2 \<le> aggressive_state b'" using C(4) act by (simp add: aggressive_state_def)
  have rc: "rate_control ?c = a" "rate_control b' = a1" using C(3) b1 by simp_all
  have "aimd_ok (rate_control ?c)" "bitrate_is_initialized (rate_control ?c)" using a by simp_all
  note O = choose_overuse [OF this(1) over this(2) C(1), folded C(3), unfolded rc a C(5,6) [symmetric]]
  have "LatestEstimate b' = Some (current_bitrate a1)"
    using O(1) rc by (simp add: LatestEstimate_def ValidEstimate_def aimd_LatestEstimate_def)
  moreover have "min_configured_bitrate (rate_control b) \<le> current_bitrate a1"
    using b1(2) O(4) by (simp add: aimd_ok_def)
  ultimately show ?thesis using O(2,3,5) agg by blast
qed

lemma vector_state:
  assumes "aimd_ok (rate_control c)" and "SortedByReceiveTime msg \<noteq> []"
    and "process_feedbacks predict (feedback_time msg) (SortedByReceiveTime msg) False b = Some (r, c)"
    and "IncomingPacketFeedbackVector predict pow msg acked probed estimate alr b = Some (res, b')"
  shows "delay_detector_state res = State (active_delay_detector c)"
proof -
  let ?a = "SetNetworkStateEstimate estimate (SetInApplicationLimitedRegion alr (rate_control c))"
  have "aimd_ok (rate_control (c\<lparr>rate_control := ?a\<rparr>))"
    using assms(1) by (simp add: SetNetworkStateEstimate_def SetInApplicationLimitedRegion_def aimd_ok_def aimd_base_def)
  from choose_defined [OF this, of pow acked probed r "feedback_time msg"]
  obtain res1 a where "choose_estimate pow acked probed r (feedback_time msg) (c\<lparr>rate_control := ?a\<rparr>) =
      Some (res1, c\<lparr>rate_control := a\<rparr>)" by auto
  then show ?thesis
    using assms(2-4)
    by (auto simp: IncomingPacketFeedbackVector_def MaybeUpdateEstimate_def Let_def active_delay_detector_def)
qed

section \<open>Witnesses\<close>

definition sample_feedback :: TransportPacketsFeedback where
  "sample_feedback =
     \<lparr>feedback_time = 300000,
      packet_feedbacks =
        [\<lparr>pr_send_time = 20000, pr_size = 1200, pr_audio = False, pr_sequence_number = 1, pr_receive_time = 260000\<rparr>,
         \<lparr>pr_send_time = 0, pr_size = 1200, pr_audio = False, pr_sequence_number = 0, pr_receive_time = 200000\<rparr>]\<rparr>"

definition sample_separate :: BweSeparateAudioPacketsSettings where
  "sample_separate = \<lparr>separate_enabled = False, packet_threshold = 10, time_threshold = Seconds 1\<rparr>"

definition sample_dbwe_ops :: "dbwe_op list" where
  "sample_dbwe_ops = [DbweConstraints (Some 300000) 30000, DbweRtt 50000]"

definition sample_dbwe_state :: "DelayBasedBwe option" where
  "sample_dbwe_state =
     dbwe_run (\<lambda>_ _ _. kBwOverusing) (\<lambda>x y. x) sample_dbwe_ops
       (new_DelayBasedBwe default_settings True sample_separate default_aimd_trials)"

lemma sample_dbwe_ops_ok: "\<forall>op\<in>set sample_dbwe_ops. dbwe_op_ok op"
  by (simp add: sample_dbwe_ops_def kCongestionControllerMinBitrate_def)

lemma default_no_cap: "\<not> enable_cap default_settings"
  by (simp add: default_settings_def)

lemma sample_state_facts:
  "(case sample_dbwe_state of
      None \<Rightarrow> False
    | Some b \<Rightarrow> LatestEstimate b = Some 300000 \<and> TimeToReduceFurther 300000 200000 (rate_control b) \<and>
        min_configured_bitrate (rate_control b) = 30000 \<and>
        unit_times_double 200000 (beta (rate_control b)) = 170000)"
  by code_simp

lemma sample_feedback_sorted: "SortedByReceiveTime sample_feedback = rev (packet_feedbacks sample_feedback)"
  by code_simp

lemma sample_detector_facts:
  "(case sample_dbwe_state of
      None \<Rightarrow> False
    | Some b \<Rightarrow>
        map_option (\<lambda>(r, c). State (active_delay_detector c))
          (process_feedbacks (\<lambda>_ _ _. kBwOverusing) 300000 (rev (packet_feedbacks sample_feedback)) False b) =
        Some kBwOverusing)"
  by code_simp


theorem delay_bwe_backs_off_witness:
  "\<exists>b res b' r'. sample_dbwe_state = Some b \<and>
     IncomingPacketFeedbackVector (\<lambda>_ _ _. kBwOverusing) (\<lambda>x y. x) sample_feedback (Some 200000) None None False b =
       Some (res, b') \<and>
     LatestEstimate b = Some 300000 \<and> LatestEstimate b' = Some r' \<and> 30000 \<le> r' \<and> r' \<le> 170000"
proof -
  obtain b where b: "sample_dbwe_state = Some b" using sample_state_facts by (cases sample_dbwe_state) auto
  note f = sample_state_facts [unfolded b option.case] and g = sample_detector_facts [unfolded b option.case]
  have ok: "dbwe_ok True b" by (rule reachable_ok [OF default_no_cap sample_dbwe_ops_ok b [unfolded sample_dbwe_state_def]])
  obtain res b' where v: "IncomingPacketFeedbackVector (\<lambda>_ _ _. kBwOverusing) (\<lambda>x y. x) sample_feedback (Some 200000) None None False b =
      Some (res, b')"
    using vector_defined [OF ok] by blast
  obtain r c where p: "process_feedbacks (\<lambda>_ _ _. kBwOverusing) (feedback_time sample_feedback)
      (SortedByReceiveTime sample_feedback) False b = Some (r, c)" "aimd_ok (rate_control c)"
    using feedbacks_defined [OF ok] by (fastforce simp: dbwe_ok_def)
  have t: "feedback_time sample_feedback = 300000" "SortedByReceiveTime sample_feedback \<noteq> []"
    unfolding sample_feedback_sorted by (simp_all add: sample_feedback_def)
  have "delay_detector_state res = kBwOverusing"
    using vector_state [OF p(2) t(2) p(1) v] p(1) g unfolding t(1) sample_feedback_sorted by simp
  moreover have "LatestEstimate b = Some 300000" using f by blast
  ultimately show ?thesis
    using delay_bwe_backs_off [OF default_no_cap sample_dbwe_ops_ok b [unfolded sample_dbwe_state_def] _ v] b v f t(1)
    by (auto simp: max_def)
qed

end
