(* ===== verification/BitrateAllocator.thy ===== *)
theory BitrateAllocator
  imports UnitsDouble
begin

text \<open>
  The split of the estimated bandwidth over the streams of a call, \<open>call/bitrate_allocator.cc\<close>. An
  observer is a number in place of its address; \<open>uint32_t\<close> arithmetic wraps around where it is
  written with \<open>u32\<close>, and a conversion to \<open>int\<close> with \<open>i32\<close>. A map from observers to rates is a function
  that is 0 where the map has no entry. Sorting is stable; the standard leaves the order of equal
  keys open.
\<close>

section \<open>Data\<close>

definition u32 :: "int \<Rightarrow> int" where
  "u32 x = x mod 2 ^ 32"

definition i32 :: "int \<Rightarrow> int" where
  "i32 x = (x + 2 ^ 31) mod 2 ^ 32 - 2 ^ 31"

record MediaStreamAllocationConfig =
  min_bitrate_bps :: int
  max_bitrate_bps :: int
  pad_up_bitrate_bps :: int
  priority_bitrate_bps :: int
  enforce_min_bitrate :: bool
  bitrate_priority :: rat

record AllocatableTrack =
  observer :: nat
  track_config :: MediaStreamAllocationConfig
  allocated_bitrate_bps :: int
  media_ratio :: rat

definition new_AllocatableTrack :: "nat \<Rightarrow> MediaStreamAllocationConfig \<Rightarrow> AllocatableTrack" where
  "new_AllocatableTrack obs config =
     \<lparr>observer = obs, track_config = config, allocated_bitrate_bps = - 1, media_ratio = 1\<rparr>"

definition kTransmissionMaxBitrateMultiplier :: int where
  "kTransmissionMaxBitrateMultiplier = 2"

definition kDefaultBitrateBps :: int where
  "kDefaultBitrateBps = 300000"

definition kToggleFactor :: rat where
  "kToggleFactor = f64 (1 / 10)"

definition kMinToggleBitrateBps :: int where
  "kMinToggleBitrateBps = 20000"

definition kBweLogIntervalMs :: int where
  "kBweLogIntervalMs = 5000"

abbreviation min_of :: "AllocatableTrack \<Rightarrow> int" where
  "min_of t \<equiv> min_bitrate_bps (track_config t)"

abbreviation max_of :: "AllocatableTrack \<Rightarrow> int" where
  "max_of t \<equiv> max_bitrate_bps (track_config t)"

definition MediaRatio :: "int \<Rightarrow> int \<Rightarrow> rat" where
  "MediaRatio allocated_bitrate protection_bitrate =
     (if protection_bitrate = 0 then 1
      else let media_bitrate = u32 (allocated_bitrate - protection_bitrate)
           in ddiv (of_int media_bitrate) (of_int allocated_bitrate))"

definition LastAllocatedBitrate :: "AllocatableTrack \<Rightarrow> int" where
  "LastAllocatedBitrate t =
     (if allocated_bitrate_bps t = - 1 then min_of t else u32 (allocated_bitrate_bps t))"

definition MinBitrateWithHysteresis :: "AllocatableTrack \<Rightarrow> int" where
  "MinBitrateWithHysteresis t =
     (let min_bitrate = min_of t;
          min_bitrate =
            (if LastAllocatedBitrate t = 0
             then u32 (min_bitrate +
                    max (u32 (trunc (dmul kToggleFactor (of_int min_bitrate)))) kMinToggleBitrateBps)
             else min_bitrate)
      in if media_ratio t > 0 \<and> media_ratio t < 1
         then u32 (trunc (dadd (of_int min_bitrate) (dmul (of_int min_bitrate) (dsub 1 (media_ratio t)))))
         else min_bitrate)"

section \<open>Allocation\<close>

type_synonym allocation = "nat \<Rightarrow> int"

definition EnoughBitrateForAllObservers :: "AllocatableTrack list \<Rightarrow> int \<Rightarrow> int \<Rightarrow> bool" where
  "EnoughBitrateForAllObservers tracks bitrate sum_min_bitrates =
     (if bitrate < sum_min_bitrates then False
      else let extra_bitrate_per_observer = (bitrate - sum_min_bitrates) div int (length tracks)
           in \<forall>t\<in>set tracks. \<not> u32 (min_of t + extra_bitrate_per_observer) < MinBitrateWithHysteresis t)"

fun evenly_loop :: "int \<Rightarrow> int \<Rightarrow> AllocatableTrack list \<Rightarrow> allocation \<Rightarrow> allocation" where
  "evenly_loop max_multiplier bitrate [] allocation = allocation"
| "evenly_loop max_multiplier bitrate (t # ts) allocation =
     (let extra_allocation = bitrate div int (length (t # ts));
          total_allocation = u32 (extra_allocation + allocation (observer t));
          bitrate = u32 (bitrate - extra_allocation);
          limit = u32 (max_multiplier * max_of t);
          (bitrate, total_allocation) =
            (if total_allocation > limit then (u32 (bitrate + (total_allocation - limit)), limit)
             else (bitrate, total_allocation))
      in evenly_loop max_multiplier bitrate ts (allocation(observer t := i32 total_allocation)))"

definition DistributeBitrateEvenly ::
  "AllocatableTrack list \<Rightarrow> int \<Rightarrow> bool \<Rightarrow> int \<Rightarrow> allocation \<Rightarrow> allocation" where
  "DistributeBitrateEvenly tracks bitrate include_zero_allocations max_multiplier allocation =
     evenly_loop max_multiplier bitrate
       (sort_key max_of (filter (\<lambda>t. include_zero_allocations \<or> allocation (observer t) \<noteq> 0) tracks))
       allocation"

record PriorityRateObserverConfig =
  allocation_key :: nat
  capacity_bps :: int
  observer_priority :: rat

fun full_capacity_loop ::
  "PriorityRateObserverConfig list \<Rightarrow> rat \<Rightarrow> int \<Rightarrow> allocation \<Rightarrow>
   PriorityRateObserverConfig list \<times> rat \<times> int \<times> allocation" where
  "full_capacity_loop [] bitrate_priority_sum remaining_bitrate allocation =
     ([], bitrate_priority_sum, remaining_bitrate, allocation)"
| "full_capacity_loop (p # ps) bitrate_priority_sum remaining_bitrate allocation =
     (let observer_share = ddiv (observer_priority p) bitrate_priority_sum;
          allocation_bps = dmul observer_share (of_int remaining_bitrate)
      in if allocation_bps \<ge> of_int (capacity_bps p)
         then full_capacity_loop ps (dsub bitrate_priority_sum (observer_priority p))
                (u32 (remaining_bitrate - capacity_bps p))
                (allocation(allocation_key p := i32 (allocation (allocation_key p) + capacity_bps p)))
         else (p # ps, bitrate_priority_sum, remaining_bitrate, allocation))"

fun proportional_loop ::
  "PriorityRateObserverConfig list \<Rightarrow> rat \<Rightarrow> int \<Rightarrow> allocation \<Rightarrow> allocation" where
  "proportional_loop [] bitrate_priority_sum remaining_bitrate allocation = allocation"
| "proportional_loop (p # ps) bitrate_priority_sum remaining_bitrate allocation =
     (let fraction_allocated = ddiv (observer_priority p) bitrate_priority_sum
      in proportional_loop ps bitrate_priority_sum remaining_bitrate
           (allocation(allocation_key p :=
              trunc (dadd (of_int (allocation (allocation_key p)))
                          (dmul fraction_allocated (of_int remaining_bitrate))))))"

definition DistributeBitrateRelatively ::
  "AllocatableTrack list \<Rightarrow> int \<Rightarrow> allocation \<Rightarrow> allocation \<Rightarrow> allocation" where
  "DistributeBitrateRelatively tracks remaining_bitrate observers_capacities allocation =
     (let bitrate_priority_sum = foldl dadd 0 (map (\<lambda>t. bitrate_priority (track_config t)) tracks);
          priority_rate_observers =
            map (\<lambda>t. \<lparr>allocation_key = observer t, capacity_bps = observers_capacities (observer t),
                      observer_priority = bitrate_priority (track_config t)\<rparr>) tracks;
          sorted_observers =
            sort_key (\<lambda>p. ddiv (of_int (capacity_bps p)) (observer_priority p)) priority_rate_observers;
          (rest, priority_sum, remaining, allocation) =
            full_capacity_loop sorted_observers bitrate_priority_sum remaining_bitrate allocation
      in proportional_loop rest priority_sum remaining allocation)"

text \<open>The passes of \<open>LowRateAllocation\<close>.\<close>

fun enforced_pass :: "AllocatableTrack list \<Rightarrow> int \<Rightarrow> allocation \<Rightarrow> int \<times> allocation" where
  "enforced_pass [] remaining_bitrate allocation = (remaining_bitrate, allocation)"
| "enforced_pass (t # ts) remaining_bitrate allocation =
     (let allocated_bitrate = (if enforce_min_bitrate (track_config t) then i32 (min_of t) else 0)
      in enforced_pass ts (remaining_bitrate - allocated_bitrate)
           (allocation(observer t := allocated_bitrate)))"

fun required_pass :: "(AllocatableTrack \<Rightarrow> bool) \<Rightarrow> AllocatableTrack list \<Rightarrow> int \<Rightarrow> allocation \<Rightarrow> int \<times> allocation" where
  "required_pass skip [] remaining_bitrate allocation = (remaining_bitrate, allocation)"
| "required_pass skip (t # ts) remaining_bitrate allocation =
     (let required_bitrate = MinBitrateWithHysteresis t
      in if \<not> skip t \<and> remaining_bitrate \<ge> required_bitrate
         then required_pass skip ts (remaining_bitrate - required_bitrate)
                (allocation(observer t := i32 required_bitrate))
         else required_pass skip ts remaining_bitrate allocation)"

definition LowRateAllocation :: "AllocatableTrack list \<Rightarrow> int \<Rightarrow> allocation" where
  "LowRateAllocation tracks bitrate =
     (let (remaining, allocation) = enforced_pass tracks bitrate (\<lambda>_. 0);
          (remaining, allocation) =
            (if remaining > 0
             then required_pass (\<lambda>t. enforce_min_bitrate (track_config t) \<or> LastAllocatedBitrate t = 0)
                    tracks remaining allocation
             else (remaining, allocation));
          (remaining, allocation) =
            (if remaining > 0
             then required_pass (\<lambda>t. LastAllocatedBitrate t \<noteq> 0) tracks remaining allocation
             else (remaining, allocation))
      in if remaining > 0 then DistributeBitrateEvenly tracks (u32 remaining) False 1 allocation
         else allocation)"

fun priority_pass ::
  "AllocatableTrack list \<Rightarrow> int \<Rightarrow> allocation \<Rightarrow> allocation \<Rightarrow> int \<times> allocation \<times> allocation" where
  "priority_pass [] bitrate capacities allocation = (bitrate, capacities, allocation)"
| "priority_pass (t # ts) bitrate capacities allocation =
     (let priority_margin = priority_bitrate_bps (track_config t) - allocation (observer t)
      in if priority_margin > 0 \<and> bitrate > 0
         then let extra_bitrate = min priority_margin bitrate
              in priority_pass ts (u32 (bitrate - extra_bitrate))
                   (capacities(observer t := i32 (capacities (observer t) - extra_bitrate)))
                   (allocation(observer t := i32 (allocation (observer t) + extra_bitrate)))
         else priority_pass ts bitrate capacities allocation)"

definition NormalRateAllocation :: "AllocatableTrack list \<Rightarrow> int \<Rightarrow> int \<Rightarrow> allocation" where
  "NormalRateAllocation tracks bitrate sum_min_bitrates =
     (let allocation = fold (\<lambda>t m. m(observer t := i32 (min_of t))) tracks (\<lambda>_. 0);
          capacities = fold (\<lambda>t m. m(observer t := i32 (u32 (max_of t - min_of t)))) tracks (\<lambda>_. 0);
          bitrate = u32 (bitrate - sum_min_bitrates);
          (bitrate, capacities, allocation) = priority_pass tracks bitrate capacities allocation
      in if bitrate > 0 then DistributeBitrateRelatively tracks bitrate capacities allocation
         else allocation)"

definition MaxRateAllocation :: "AllocatableTrack list \<Rightarrow> int \<Rightarrow> int \<Rightarrow> allocation" where
  "MaxRateAllocation tracks bitrate sum_max_bitrates =
     (let allocation = fold (\<lambda>t m. m(observer t := i32 (max_of t))) tracks (\<lambda>_. 0);
          bitrate = fold (\<lambda>t b. u32 (b - max_of t)) tracks bitrate
      in DistributeBitrateEvenly tracks bitrate True kTransmissionMaxBitrateMultiplier allocation)"

definition ZeroRateAllocation :: "AllocatableTrack list \<Rightarrow> allocation" where
  "ZeroRateAllocation tracks = (\<lambda>_. 0)"

definition AllocateBitrates :: "AllocatableTrack list \<Rightarrow> int \<Rightarrow> allocation" where
  "AllocateBitrates tracks bitrate =
     (if tracks = [] then (\<lambda>_. 0)
      else if bitrate = 0 then ZeroRateAllocation tracks
      else let sum_min_bitrates = fold (\<lambda>t s. u32 (s + min_of t)) tracks 0;
               sum_max_bitrates = fold (\<lambda>t s. u32 (s + max_of t)) tracks 0
           in if \<not> EnoughBitrateForAllObservers tracks bitrate sum_min_bitrates
              then LowRateAllocation tracks bitrate
              else if bitrate \<le> sum_max_bitrates
              then NormalRateAllocation tracks bitrate sum_min_bitrates
              else MaxRateAllocation tracks bitrate sum_max_bitrates)"

section \<open>The allocator\<close>

text \<open>The target rate message of the congestion controller, and what an observer is told.\<close>

record TargetTransferRate =
  tr_at_time :: int
  tr_loss_rate_ratio :: rat
  tr_round_trip_time :: int
  tr_bwe_period :: int
  tr_target_rate :: int
  tr_stable_target_rate :: int
  tr_cwnd_reduce_ratio :: rat
  tr_is_overused_for_encoder :: rat

record BitrateAllocationUpdate =
  up_target_bitrate :: int
  up_stable_target_bitrate :: int
  up_packet_loss_ratio :: rat
  up_round_trip_time :: int
  up_bwe_period :: int
  up_cwnd_reduce_ratio :: rat
  up_is_overused_for_encoder :: rat

definition new_BitrateAllocationUpdate :: BitrateAllocationUpdate where
  "new_BitrateAllocationUpdate =
     \<lparr>up_target_bitrate = 0, up_stable_target_bitrate = 0, up_packet_loss_ratio = 0,
      up_round_trip_time = PlusInfinityVal, up_bwe_period = PlusInfinityVal, up_cwnd_reduce_ratio = 0,
      up_is_overused_for_encoder = 0\<rparr>"

record BitrateAllocationLimits =
  min_allocatable_rate :: int
  max_allocatable_rate :: int
  max_padding_rate :: int

record BitrateAllocator =
  allocatable_tracks :: "AllocatableTrack list"
  last_target_bps :: int
  last_stable_target_bps :: int
  last_non_zero_bitrate_bps :: int
  last_fraction_loss :: int
  last_rtt :: int
  last_bwe_period_ms :: int
  num_pause_events :: int
  last_bwe_log_time :: int
  current_limits :: BitrateAllocationLimits

text \<open>The observers and the limit observer, with a state of their own; an observer returns the
  protection bitrate it uses.\<close>

record 'e bitrate_observers =
  obs_OnBitrateUpdated :: "nat \<Rightarrow> BitrateAllocationUpdate \<Rightarrow> 'e \<Rightarrow> int \<times> 'e"
  OnAllocationLimitsChanged :: "BitrateAllocationLimits \<Rightarrow> 'e \<Rightarrow> 'e"

definition new_BitrateAllocator :: BitrateAllocator where
  "new_BitrateAllocator =
     \<lparr>allocatable_tracks = [], last_target_bps = 0, last_stable_target_bps = 0,
      last_non_zero_bitrate_bps = kDefaultBitrateBps, last_fraction_loss = 0, last_rtt = 0,
      last_bwe_period_ms = 1000, num_pause_events = 0, last_bwe_log_time = 0,
      current_limits = \<lparr>min_allocatable_rate = 0, max_allocatable_rate = 0, max_padding_rate = 0\<rparr>\<rparr>"

definition UpdateStartRate :: "int \<Rightarrow> BitrateAllocator \<Rightarrow> BitrateAllocator" where
  "UpdateStartRate start_rate_bps a = a\<lparr>last_non_zero_bitrate_bps := start_rate_bps\<rparr>"

fun sum_limits :: "AllocatableTrack list \<Rightarrow> BitrateAllocationLimits \<Rightarrow> BitrateAllocationLimits" where
  "sum_limits [] limits = limits"
| "sum_limits (t # ts) limits =
     (let enforced = enforce_min_bitrate (track_config t);
          stream_padding =
            (if \<not> enforced \<and> allocated_bitrate_bps t = 0
             then max (MinBitrateWithHysteresis t) (pad_up_bitrate_bps (track_config t))
             else pad_up_bitrate_bps (track_config t))
      in sum_limits ts
           \<lparr>min_allocatable_rate = min_allocatable_rate limits + (if enforced then min_of t else 0),
            max_allocatable_rate = max_allocatable_rate limits + max_of t,
            max_padding_rate = max_padding_rate limits + stream_padding\<rparr>)"

definition UpdateAllocationLimits ::
  "'e bitrate_observers \<Rightarrow> BitrateAllocator \<times> 'e \<Rightarrow> BitrateAllocator \<times> 'e" where
  "UpdateAllocationLimits io st =
     (let (a, e) = st;
          limits = sum_limits (allocatable_tracks a)
            \<lparr>min_allocatable_rate = 0, max_allocatable_rate = 0, max_padding_rate = 0\<rparr>
      in if limits = current_limits a then (a, e)
         else (a\<lparr>current_limits := limits\<rparr>, OnAllocationLimitsChanged io limits e))"

text \<open>One observer is told its share; the result counts the pause events.\<close>

definition update_track ::
  "'e bitrate_observers \<Rightarrow> BitrateAllocationUpdate \<Rightarrow> allocation \<Rightarrow> allocation \<Rightarrow> int \<Rightarrow> AllocatableTrack \<times> 'e \<Rightarrow>
   int \<times> AllocatableTrack \<times> 'e" where
  "update_track io update allocation stable_allocation target_bps st =
     (let (t, e) = st;
          allocated_bitrate = u32 (allocation (observer t));
          (protection_bitrate, e) =
            obs_OnBitrateUpdated io (observer t)
              (update\<lparr>up_target_bitrate := allocated_bitrate,
                      up_stable_target_bitrate := u32 (stable_allocation (observer t))\<rparr>) e;
          paused = (allocated_bitrate = 0 \<and> allocated_bitrate_bps t > 0 \<or>
                    allocated_bitrate > 0 \<and> allocated_bitrate_bps t = 0);
          t = (if allocated_bitrate > 0
               then t\<lparr>media_ratio := MediaRatio allocated_bitrate protection_bitrate\<rparr> else t)
      in (if paused \<and> target_bps > 0 then 1 else 0, t\<lparr>allocated_bitrate_bps := allocated_bitrate\<rparr>, e))"

fun update_tracks ::
  "'e bitrate_observers \<Rightarrow> BitrateAllocationUpdate \<Rightarrow> allocation \<Rightarrow> allocation \<Rightarrow> int \<Rightarrow> AllocatableTrack list \<Rightarrow> 'e \<Rightarrow>
   int \<times> AllocatableTrack list \<times> 'e" where
  "update_tracks io update allocation stable_allocation target_bps [] e = (0, [], e)"
| "update_tracks io update allocation stable_allocation target_bps (t # ts) e =
     (let (n, t, e) = update_track io update allocation stable_allocation target_bps (t, e);
          (m, ts, e) = update_tracks io update allocation stable_allocation target_bps ts e
      in (n + m, t # ts, e))"

definition OnNetworkEstimateChanged ::
  "'e bitrate_observers \<Rightarrow> TargetTransferRate \<Rightarrow> BitrateAllocator \<times> 'e \<Rightarrow> BitrateAllocator \<times> 'e" where
  "OnNetworkEstimateChanged io msg st =
     (let (a, e) = st;
          target = u32 (tr_target_rate msg);
          stable = u32 (tr_stable_target_rate msg);
          loss_ratio_255 = trunc (f32 (tr_loss_rate_ratio msg * 255));
          now = ms (tr_at_time msg);
          a = a\<lparr>last_target_bps := target, last_stable_target_bps := stable,
                last_non_zero_bitrate_bps := (if target > 0 then target else last_non_zero_bitrate_bps a),
                last_fraction_loss := max 0 (min loss_ratio_255 255),
                last_rtt := ms (tr_round_trip_time msg),
                last_bwe_period_ms := ms (tr_bwe_period msg),
                last_bwe_log_time :=
                  (if now > last_bwe_log_time a + kBweLogIntervalMs then now else last_bwe_log_time a)\<rparr>;
          update = new_BitrateAllocationUpdate
            \<lparr>up_packet_loss_ratio := ddiv (of_int (last_fraction_loss a)) 256,
             up_round_trip_time := Millis (last_rtt a),
             up_bwe_period := Millis (last_bwe_period_ms a),
             up_cwnd_reduce_ratio := tr_cwnd_reduce_ratio msg,
             up_is_overused_for_encoder := tr_is_overused_for_encoder msg\<rparr>;
          (n, tracks, e) =
            update_tracks io update (AllocateBitrates (allocatable_tracks a) target)
              (AllocateBitrates (allocatable_tracks a) stable) target (allocatable_tracks a) e
      in UpdateAllocationLimits io
           (a\<lparr>allocatable_tracks := tracks, num_pause_events := num_pause_events a + n\<rparr>, e))"

text \<open>An observer is new or gets new settings; unlike above, no pause events are counted and the
  update leaves the reduction ratio and the over-use signal at their defaults.\<close>

definition set_track :: "nat \<Rightarrow> MediaStreamAllocationConfig \<Rightarrow> AllocatableTrack list \<Rightarrow> AllocatableTrack list" where
  "set_track obs config tracks =
     (if \<exists>t\<in>set tracks. observer t = obs
      then map (\<lambda>t. if observer t = obs then t\<lparr>track_config := config\<rparr> else t) tracks
      else tracks @ [new_AllocatableTrack obs config])"

definition AddObserver ::
  "'e bitrate_observers \<Rightarrow> nat \<Rightarrow> MediaStreamAllocationConfig \<Rightarrow> BitrateAllocator \<times> 'e \<Rightarrow> BitrateAllocator \<times> 'e" where
  "AddObserver io obs config st =
     (let (a, e) = st;
          a = a\<lparr>allocatable_tracks := set_track obs config (allocatable_tracks a)\<rparr>;
          update = new_BitrateAllocationUpdate
            \<lparr>up_packet_loss_ratio := ddiv (of_int (last_fraction_loss a)) 256,
             up_round_trip_time := Millis (last_rtt a),
             up_bwe_period := Millis (last_bwe_period_ms a)\<rparr>
      in if last_target_bps a > 0
         then let (n, tracks, e) =
                    update_tracks io update (AllocateBitrates (allocatable_tracks a) (last_target_bps a))
                      (AllocateBitrates (allocatable_tracks a) (last_stable_target_bps a)) 0 (allocatable_tracks a) e
              in UpdateAllocationLimits io (a\<lparr>allocatable_tracks := tracks\<rparr>, e)
         else UpdateAllocationLimits io (a, snd (obs_OnBitrateUpdated io obs update e)))"

fun remove_first :: "nat \<Rightarrow> AllocatableTrack list \<Rightarrow> AllocatableTrack list" where
  "remove_first obs [] = []"
| "remove_first obs (t # ts) = (if observer t = obs then ts else t # remove_first obs ts)"

definition RemoveObserver ::
  "'e bitrate_observers \<Rightarrow> nat \<Rightarrow> BitrateAllocator \<times> 'e \<Rightarrow> BitrateAllocator \<times> 'e" where
  "RemoveObserver io obs st =
     (let (a, e) = st
      in UpdateAllocationLimits io (a\<lparr>allocatable_tracks := remove_first obs (allocatable_tracks a)\<rparr>, e))"

definition GetStartBitrate :: "nat \<Rightarrow> BitrateAllocator \<Rightarrow> int" where
  "GetStartBitrate obs a =
     (case find (\<lambda>t. observer t = obs) (allocatable_tracks a) of
        None \<Rightarrow> i32 (last_non_zero_bitrate_bps a div (int (length (allocatable_tracks a)) + 1))
      | Some t \<Rightarrow>
          if allocated_bitrate_bps t = - 1
          then i32 (last_non_zero_bitrate_bps a div int (length (allocatable_tracks a)))
          else i32 (allocated_bitrate_bps t))"


section \<open>Lemmas on wrap-around and sums\<close>

lemma u32_id: "0 \<le> x \<Longrightarrow> x < 2 ^ 32 \<Longrightarrow> u32 x = x"
  by (simp add: u32_def)

lemma u32_range: "0 \<le> u32 x" "u32 x < 2 ^ 32"
  by (simp_all add: u32_def)

lemma i32_id: "- (2 ^ 31) \<le> x \<Longrightarrow> x < 2 ^ 31 \<Longrightarrow> i32 x = x"
  by (simp add: i32_def)

lemma sum_upd:
  fixes A :: allocation
  assumes "finite Obs" and "k \<in> Obs"
  shows "(\<Sum>x\<in>Obs. (A(k := v)) x) = (\<Sum>x\<in>Obs. A x) - A k + v"
proof -
  have "(\<Sum>x\<in>Obs - {k}. (A(k := v)) x) = (\<Sum>x\<in>Obs - {k}. A x)" by (intro sum.cong) auto
  then show ?thesis using assms by (simp add: sum.remove [of Obs k])
qed

lemma member_le:
  fixes A :: allocation
  assumes "finite Obs" and "k \<in> Obs" and "\<And>x. x \<in> Obs \<Longrightarrow> 0 \<le> A x"
  shows "A k \<le> (\<Sum>x\<in>Obs. A x)"
  using assms by (intro member_le_sum) auto

section \<open>Even distribution\<close>

lemma evenly_step:
  fixes b n a lim :: int
  assumes "0 \<le> b" "0 \<le> a" "b + a < 2 ^ 31" "0 \<le> lim" "lim < 2 ^ 32" "1 \<le> n"
  defines "x \<equiv> b div n"
  defines "t \<equiv> u32 (x + a)"
  shows "0 \<le> x" "x \<le> b" "t = x + a" "u32 (b - x) = b - x"
    "lim < t \<Longrightarrow> u32 (b - x + (t - lim)) = b + a - lim" "i32 t = t" "lim < t \<Longrightarrow> i32 lim = lim"
proof -
  show x: "0 \<le> x" "x \<le> b"
    using assms(1,6) zdiv_mono2 [of b 1 n] by (simp_all add: x_def pos_imp_zdiv_nonneg_iff)
  then show t: "t = x + a" "u32 (b - x) = b - x" using assms(1-3) by (simp_all add: t_def u32_id)
  show "u32 (b - x + (t - lim)) = b + a - lim" if "lim < t"
  proof -
    have "b - x + (t - lim) = b + a - lim" "0 \<le> b + a - lim" "b + a - lim < 2 ^ 32"
      using t(1) x assms(3,4) that by simp_all
    then show ?thesis by (simp only: u32_id)
  qed
  show "i32 t = t" "lim < t \<Longrightarrow> i32 lim = lim" using t(1) x assms(2-4) by (simp_all add: i32_id)
qed


definition limits_ok :: "int \<Rightarrow> AllocatableTrack list \<Rightarrow> bool" where
  "limits_ok mult ts \<longleftrightarrow> (\<forall>t\<in>set ts. 0 \<le> mult * max_of t \<and> mult * max_of t < 2 ^ 32)"

lemma evenly_loop_sum:
  assumes "finite Obs" and "observer ` set ts \<subseteq> Obs" and "distinct (map observer ts)" and "limits_ok mult ts"
    and "0 \<le> b" and "\<And>x. x \<in> Obs \<Longrightarrow> 0 \<le> A x" and "b + (\<Sum>x\<in>Obs. A x) < 2 ^ 31"
  defines "A' \<equiv> evenly_loop mult b ts A"
  shows "(\<Sum>x\<in>Obs. A' x) \<le> (\<Sum>x\<in>Obs. A x) + b \<and> (\<forall>x\<in>Obs. 0 \<le> A' x) \<and>
    (\<forall>x. x \<notin> observer ` set ts \<longrightarrow> A' x = A x) \<and>
    (\<forall>t\<in>set ts. A' (observer t) \<le> mult * max_of t \<and> min (A (observer t)) (mult * max_of t) \<le> A' (observer t))"
  using assms(2-7) unfolding A'_def
proof (induction ts arbitrary: A b)
  case (Cons t ts)
  let ?k = "observer t" and ?lim = "mult * max_of t"
  let ?x = "b div int (length (t # ts))"
  let ?t = "u32 (?x + A ?k)"
  have k: "?k \<in> Obs" "?k \<notin> observer ` set ts" using Cons.prems(1,2) by auto
  have Ak: "0 \<le> A ?k" "b + A ?k < 2 ^ 31"
    using Cons.prems(5) [OF k(1)] Cons.prems(6) member_le [OF assms(1) k(1), of A] Cons.prems(5) by auto
  have lim: "0 \<le> ?lim" "?lim < 2 ^ 32" "u32 ?lim = ?lim" using Cons.prems(3) by (simp_all add: limits_ok_def u32_id)
  note E = evenly_step [OF Cons.prems(4) Ak lim(1,2), of "int (length (t # ts))"]
  have n: "1 \<le> int (length (t # ts))" by simp
  define b' v where "b' = (if ?t > ?lim then b + A ?k - ?lim else b - ?x)" and "v = (if ?t > ?lim then ?lim else ?t)"
  have step: "evenly_loop mult b (t # ts) A = evenly_loop mult b' ts (A(?k := v))"
    using E(3,4,5,6,7) [OF n] lim(3) by (auto simp: Let_def b'_def v_def)
  have bv: "b' + v = b + A ?k" "0 \<le> b'" "0 \<le> v" "v \<le> ?lim" "min (A ?k) ?lim \<le> v"
    using E(1,2,3) [OF n] lim(1) Ak by (auto simp: b'_def v_def)
  define B where "B = A(?k := v)"
  have B: "B ?k = v" "\<And>x. x \<noteq> ?k \<Longrightarrow> B x = A x" by (simp_all add: B_def)
  have S: "(\<Sum>x\<in>Obs. B x) = (\<Sum>x\<in>Obs. A x) - A ?k + v" unfolding B_def by (rule sum_upd [OF assms(1) k(1)])
  have nn: "0 \<le> B x" if "x \<in> Obs" for x using Cons.prems(5) [OF that] bv(3) B by (cases "x = ?k") auto
  have p: "observer ` set ts \<subseteq> Obs" "distinct (map observer ts)" "limits_ok mult ts" "b' + (\<Sum>x\<in>Obs. B x) < 2 ^ 31"
    using Cons.prems bv(1) S by (auto simp: limits_ok_def)
  note IH = Cons.IH [OF p(1-3) bv(2) nn p(4)]
  have "evenly_loop mult b' ts B ?k = v" using IH k(2) B(1) by simp
  moreover have "B (observer u) = A (observer u)" if "u \<in> set ts" for u using k(2) that B(2) by (metis image_eqI)
  ultimately show ?case unfolding step B_def [symmetric] using IH S bv B(2) by auto
qed simp

lemma evenly_ok:
  fixes z :: bool
  assumes "finite Obs" and "observer ` set tracks = Obs" and "distinct (map observer tracks)" and "limits_ok mult tracks"
    and "0 \<le> b" and "\<And>x. x \<in> Obs \<Longrightarrow> 0 \<le> A x" and "b + (\<Sum>x\<in>Obs. A x) < 2 ^ 31"
  defines "A' \<equiv> DistributeBitrateEvenly tracks b z mult A"
  shows "(\<Sum>x\<in>Obs. A' x) \<le> (\<Sum>x\<in>Obs. A x) + b" and "\<And>x. x \<in> Obs \<Longrightarrow> 0 \<le> A' x"
    and "\<And>t. t \<in> set tracks \<Longrightarrow> min (A (observer t)) (mult * max_of t) \<le> A' (observer t)"
    and "\<And>t. z \<Longrightarrow> t \<in> set tracks \<Longrightarrow> A' (observer t) \<le> mult * max_of t"
proof -
  let ?ts = "sort_key max_of (filter (\<lambda>t. z \<or> A (observer t) \<noteq> 0) tracks)"
  have set_ts: "set ?ts = {t \<in> set tracks. z \<or> A (observer t) \<noteq> 0}" by auto
  have inj: "inj_on observer (set tracks)" using assms(3) by (simp add: distinct_map)
  have "distinct ?ts" using assms(3) by (simp add: distinct_map)
  then have d: "distinct (map observer ?ts)"
    using inj by (simp add: distinct_map inj_on_def)
  have sub: "observer ` set ?ts \<subseteq> Obs" and lim: "limits_ok mult ?ts" using assms(2,4) by (auto simp: limits_ok_def)
  note L = evenly_loop_sum [OF assms(1) sub d lim assms(5-7), folded DistributeBitrateEvenly_def A'_def]
  show "(\<Sum>x\<in>Obs. A' x) \<le> (\<Sum>x\<in>Obs. A x) + b" "\<And>x. x \<in> Obs \<Longrightarrow> 0 \<le> A' x" using L by auto
  show "A' (observer t) \<le> mult * max_of t" if z "t \<in> set tracks" for t using L that set_ts by auto
  show "min (A (observer t)) (mult * max_of t) \<le> A' (observer t)" if t: "t \<in> set tracks" for t
  proof (cases "t \<in> set ?ts")
    case False
    then have "observer t \<notin> observer ` set ?ts"
      using inj t by (auto simp: set_ts inj_on_def)
    then show ?thesis using L by auto
  qed (use L in auto)
qed


section \<open>Too little for everyone\<close>

text \<open>Rates of a stream are below \<open>2 ^ 28\<close> bits per second and those of all streams below \<open>2 ^ 30\<close>, so no sum wraps;
  priorities are multiples of \<open>2 ^ -16\<close> up to \<open>2 ^ 20\<close>, so that sums of up to \<open>2 ^ 16\<close> of them are exact.\<close>

definition track_ok :: "AllocatableTrack \<Rightarrow> bool" where
  "track_ok t \<longleftrightarrow> 0 \<le> min_of t \<and> min_of t \<le> max_of t \<and> max_of t < 2 ^ 28 \<and>
     (\<exists>k. bitrate_priority (track_config t) = of_int k / 2 ^ 16 \<and> 1 \<le> k \<and> k \<le> 2 ^ 36)"

definition tracks_ok :: "AllocatableTrack list \<Rightarrow> bool" where
  "tracks_ok tracks \<longleftrightarrow> distinct (map observer tracks) \<and> (\<forall>t\<in>set tracks. track_ok t) \<and>
     (\<Sum>t\<leftarrow>tracks. max_of t) < 2 ^ 30 \<and> length tracks \<le> 2 ^ 16"

definition enforced_min :: "AllocatableTrack \<Rightarrow> int" where
  "enforced_min t = (if enforce_min_bitrate (track_config t) then min_of t else 0)"

lemma hysteresis_nonneg: "0 \<le> min_of t \<Longrightarrow> 0 \<le> MinBitrateWithHysteresis t"
  by (simp add: MinBitrateWithHysteresis_def Let_def u32_range)

lemma trunc_ge: "of_int k \<le> x \<Longrightarrow> 0 \<le> k \<Longrightarrow> k \<le> trunc x"
  using order_trans [of 0 "of_int k" x] by (simp add: trunc_def le_floor_iff)

lemma trunc_le: "0 \<le> x \<Longrightarrow> of_int (trunc x) \<le> x"
  by (simp add: trunc_def)

lemma rep_int: "\<bar>k\<bar> \<le> 2 ^ 53 \<Longrightarrow> representable 53 (of_int k)"
  by (rule representable_of_int)

lemma dadd_bounds:
  assumes "0 \<le> y" "y \<le> of_int m" "0 \<le> k" "k + m \<le> 2 ^ 53"
  shows "of_int k \<le> dadd (of_int k) y" "dadd (of_int k) y \<le> of_int (k + m)"
proof -
  have m: "0 \<le> m" using assms(1,2) by (metis of_int_0_le_iff order_trans)
  show "of_int k \<le> dadd (of_int k) y"
    unfolding dadd_def using assms m by (intro double.rnd_ge rep_int) auto
  show "dadd (of_int k) y \<le> of_int (k + m)"
    unfolding dadd_def using assms m by (intro double.rnd_le rep_int) auto
qed

lemma dmul_fraction:
  assumes "0 \<le> s" "s \<le> 1" "0 \<le> k" "k \<le> 2 ^ 53"
  shows "0 \<le> dmul s (of_int k)" "dmul s (of_int k) \<le> of_int k"
proof -
  show "0 \<le> dmul s (of_int k)" unfolding dmul_def using assms by (intro f64_nonneg) auto
  show "dmul s (of_int k) \<le> of_int k"
    unfolding dmul_def using assms by (intro double.rnd_le rep_int) (auto simp: mult_left_le_one_le)
qed

lemma hysteresis_ge:
  assumes "track_ok t"
  shows "min_of t \<le> MinBitrateWithHysteresis t"
proof -
  let ?m = "min_of t" and ?x = "trunc (dmul kToggleFactor (of_int (min_of t)))"
  have m: "0 \<le> ?m" "?m < 2 ^ 28" using assms by (auto simp: track_ok_def)
  have kt: "0 \<le> kToggleFactor" "kToggleFactor \<le> 1"
    unfolding kToggleFactor_def by (rule f64_nonneg, simp) (rule double.rnd_le, simp_all)
  have "0 \<le> dmul kToggleFactor (of_int ?m)" "dmul kToggleFactor (of_int ?m) \<le> of_int ?m"
    using dmul_fraction [OF kt m(1)] m by auto
  then have x: "0 \<le> ?x" "?x \<le> ?m" by (simp_all add: trunc_def floor_le_iff)
  define m1 where "m1 = (if LastAllocatedBitrate t = 0 then u32 (?m + max (u32 ?x) kMinToggleBitrateBps) else ?m)"
  have m1: "?m \<le> m1" "m1 < 2 ^ 30"
    using m x by (auto simp: m1_def u32_id kMinToggleBitrateBps_def)
  show ?thesis
  proof (cases "media_ratio t > 0 \<and> media_ratio t < 1")
    case True
    have r: "0 \<le> dsub 1 (media_ratio t)" "dsub 1 (media_ratio t) \<le> 1"
      unfolding dsub_def using True by (auto intro!: f64_nonneg double.rnd_le [OF representable_1])
    have y: "0 \<le> dmul (of_int m1) (dsub 1 (media_ratio t))" "dmul (of_int m1) (dsub 1 (media_ratio t)) \<le> of_int m1"
      using dmul_fraction [OF r, of m1] m1 m(1) by (auto simp: dmul_def mult.commute)
    have b: "of_int m1 \<le> dadd (of_int m1) (dmul (of_int m1) (dsub 1 (media_ratio t)))"
      "dadd (of_int m1) (dmul (of_int m1) (dsub 1 (media_ratio t))) \<le> of_int (m1 + m1)"
      using dadd_bounds [OF y, of m1] m1 m(1) by auto
    let ?s = "trunc (dadd (of_int m1) (dmul (of_int m1) (dsub 1 (media_ratio t))))"
    have "m1 \<le> ?s" using trunc_ge [OF b(1)] m1 m(1) by simp
    moreover have "?s \<le> m1 + m1"
      using order_trans [OF trunc_le b(2)] order_trans [OF _ b(1), of 0] m1 m(1) by (simp only: of_int_le_iff of_int_0_le_iff)
    ultimately show ?thesis
      using True m1 m(1) unfolding MinBitrateWithHysteresis_def Let_def m1_def [symmetric] by (simp add: u32_id)
  next
    case False
    then show ?thesis using m1(1) unfolding MinBitrateWithHysteresis_def Let_def m1_def [symmetric] by auto
  qed
qed

lemma enforced_pass_sum:
  assumes "finite Obs" and "observer ` set ts \<subseteq> Obs" and "distinct (map observer ts)"
    and "\<forall>t\<in>set ts. track_ok t \<and> A (observer t) = 0" and "enforced_pass ts r A = (r', A')"
  shows "r' = r - (\<Sum>t\<leftarrow>ts. enforced_min t) \<and> (\<Sum>x\<in>Obs. A' x) = (\<Sum>x\<in>Obs. A x) + (\<Sum>t\<leftarrow>ts. enforced_min t) \<and>
    (\<forall>t\<in>set ts. A' (observer t) = enforced_min t) \<and> (\<forall>x. x \<notin> observer ` set ts \<longrightarrow> A' x = A x)"
  using assms(2-5)
proof (induction ts arbitrary: A r)
  case (Cons t ts)
  have k: "observer t \<in> Obs" "observer t \<notin> observer ` set ts" using Cons.prems(1,2) by auto
  define B where "B = A(observer t := enforced_min t)"
  have B: "B (observer t) = enforced_min t" "\<And>x. x \<noteq> observer t \<Longrightarrow> B x = A x" by (simp_all add: B_def)
  have "i32 (min_of t) = min_of t" using Cons.prems(3) by (auto simp: track_ok_def i32_id)
  then have e: "enforced_pass ts (r - enforced_min t) B = (r', A')"
    using Cons.prems(4) by (simp add: Let_def enforced_min_def B_def split: if_splits)
  have p: "\<forall>u\<in>set ts. track_ok u \<and> B (observer u) = 0"
    using Cons.prems(3) k(2) B(2) by (metis image_eqI list.set_intros(2))
  have S: "(\<Sum>x\<in>Obs. B x) = (\<Sum>x\<in>Obs. A x) + enforced_min t"
    unfolding B_def using sum_upd [OF assms(1) k(1)] Cons.prems(3) by simp
  have q: "observer ` set ts \<subseteq> Obs" "distinct (map observer ts)" using Cons.prems(1,2) by auto
  note IH = Cons.IH [OF q p e]
  have "A' (observer t) = enforced_min t" using IH k(2) B(1) by simp
  then show ?case using IH S B(2) by auto
qed auto

lemma required_pass_sum:
  assumes "finite Obs" and "observer ` set ts \<subseteq> Obs" and "\<forall>t\<in>set ts. track_ok t"
    and "\<And>x. x \<in> Obs \<Longrightarrow> 0 \<le> A x" and "0 \<le> r" and "r < 2 ^ 31" and "required_pass skip ts r A = (r', A')"
    and "\<forall>t\<in>set (ts @ us). enforced_min t \<le> A (observer t)" and "distinct (map observer (ts @ us))"
  shows "(\<Sum>x\<in>Obs. A' x) + r' \<le> (\<Sum>x\<in>Obs. A x) + r \<and> 0 \<le> r' \<and> r' \<le> r \<and> (\<forall>x\<in>Obs. 0 \<le> A' x) \<and>
    (\<forall>t\<in>set (ts @ us). enforced_min t \<le> A' (observer t))"
  using assms(2-9)
proof (induction ts arbitrary: A r us)
  case (Cons t ts)
  let ?q = "MinBitrateWithHysteresis t"
  have k: "observer t \<in> Obs" using Cons.prems(1) by auto
  have q: "0 \<le> ?q" "enforced_min t \<le> ?q"
    using Cons.prems(2) hysteresis_ge [of t] hysteresis_nonneg [of t] by (auto simp: track_ok_def enforced_min_def)
  have perm: "set (ts @ (t # us)) = set ((t # ts) @ us)" "distinct (map observer (ts @ (t # us)))"
    using Cons.prems(8) by auto
  have inj: "inj_on observer (set (ts @ (t # us)))" using perm(2) unfolding distinct_map by blast
  show ?case
  proof (cases "\<not> skip t \<and> r \<ge> ?q")
    case True
    define B where "B = A(observer t := ?q)"
    have B: "B (observer t) = ?q" "\<And>x. x \<noteq> observer t \<Longrightarrow> B x = A x" by (simp_all add: B_def)
    have "i32 ?q = ?q" using True q Cons.prems(5) by (simp add: i32_id)
    then have e: "required_pass skip ts (r - ?q) B = (r', A')"
      using Cons.prems(6) True unfolding B_def by (simp only: required_pass.simps Let_def if_True simp_thms)
    have S: "(\<Sum>x\<in>Obs. B x) = (\<Sum>x\<in>Obs. A x) - A (observer t) + ?q"
      unfolding B_def by (rule sum_upd [OF assms(1) k])
    have nn: "0 \<le> B x" if "x \<in> Obs" for x using Cons.prems(3) [OF that] q B by (cases "x = observer t") auto
    have low: "\<forall>u\<in>set (ts @ (t # us)). enforced_min u \<le> B (observer u)"
    proof
      fix u assume u: "u \<in> set (ts @ (t # us))"
      show "enforced_min u \<le> B (observer u)"
      proof (cases "observer u = observer t")
        case True
        then have "u = t" using inj_onD [OF inj True u] by simp
        then show ?thesis using B q by simp
      next
        case False
        then show ?thesis using u Cons.prems(7) B(2) by auto
      qed
    qed
    have p: "observer ` set ts \<subseteq> Obs" "\<forall>t\<in>set ts. track_ok t" "0 \<le> r - ?q" "r - ?q < 2 ^ 31"
      using Cons.prems True q by auto
    have ak: "0 \<le> A (observer t)" by (rule Cons.prems(3) [OF k])
    note IH = Cons.IH [OF p(1,2) nn p(3,4) e low perm(2), unfolded perm(1)]
    have "(\<Sum>x\<in>Obs. A' x) + r' \<le> (\<Sum>x\<in>Obs. A x) + r" "0 \<le> r'" "r' \<le> r"
      using IH S q(1) ak by linarith+
    then show ?thesis using IH by blast
  next
    case False
    then have e: "required_pass skip ts r A = (r', A')"
      using Cons.prems(6) by (simp only: required_pass.simps Let_def if_False)
    have p: "observer ` set ts \<subseteq> Obs" "\<forall>t\<in>set ts. track_ok t"
      "\<forall>u\<in>set (ts @ (t # us)). enforced_min u \<le> A (observer u)"
      using Cons.prems(1,2,7) by auto
    show ?thesis by (rule Cons.IH [OF p(1,2) Cons.prems(3-5) e p(3) perm(2), unfolded perm(1)])
  qed
qed simp


lemma enforced_min_bounds: "track_ok t \<Longrightarrow> 0 \<le> enforced_min t \<and> enforced_min t \<le> max_of t"
  by (auto simp: track_ok_def enforced_min_def)

lemma limits_okI: "tracks_ok tracks \<Longrightarrow> mult = 1 \<or> mult = 2 \<Longrightarrow> limits_ok mult tracks"
  unfolding limits_ok_def tracks_ok_def by (fastforce simp: track_ok_def)

lemma low_rate_ok:
  assumes ok: "tracks_ok tracks" and b: "0 < bitrate" "bitrate < 2 ^ 31"
  defines "Obs \<equiv> observer ` set tracks" and "A \<equiv> LowRateAllocation tracks bitrate"
  shows "(\<Sum>x\<in>Obs. A x) \<le> max bitrate (\<Sum>t\<leftarrow>tracks. enforced_min t)" and "\<And>x. x \<in> Obs \<Longrightarrow> 0 \<le> A x"
    and "\<And>t. t \<in> set tracks \<Longrightarrow> enforced_min t \<le> A (observer t)"
proof -
  let ?E = "\<Sum>t\<leftarrow>tracks. enforced_min t"
  let ?s1 = "\<lambda>t. enforce_min_bitrate (track_config t) \<or> LastAllocatedBitrate t = 0"
  let ?s2 = "\<lambda>t. LastAllocatedBitrate t \<noteq> 0"
  have fin: "finite Obs" and obs: "observer ` set tracks \<subseteq> Obs" "observer ` set tracks = Obs"
    and d: "distinct (map observer tracks)" "distinct (map observer (tracks @ []))"
    and t: "\<forall>t\<in>set tracks. track_ok t" using ok by (auto simp: Obs_def tracks_ok_def)
  obtain r1 A1 where e1: "enforced_pass tracks bitrate (\<lambda>_. 0) = (r1, A1)" by force
  have p1: "\<forall>u\<in>set tracks. track_ok u \<and> (\<lambda>_. 0 :: int) (observer u) = 0" using t by simp
  note E1 = enforced_pass_sum [OF fin obs(1) d(1) p1 e1]
  have s1: "(\<Sum>x\<in>Obs. A1 x) + r1 = bitrate" "r1 = bitrate - ?E" using E1 by simp_all
  have n1: "0 \<le> A1 x" if "x \<in> Obs" for x using that E1 t enforced_min_bounds by (auto simp: Obs_def)
  have m1: "\<forall>t\<in>set (tracks @ []). enforced_min t \<le> A1 (observer t)" using E1 by simp
  have E0: "0 \<le> ?E" using t enforced_min_bounds by (intro sum_list_nonneg) auto
  show "(\<Sum>x\<in>Obs. A x) \<le> max bitrate ?E" "\<And>x. x \<in> Obs \<Longrightarrow> 0 \<le> A x"
    "\<And>t. t \<in> set tracks \<Longrightarrow> enforced_min t \<le> A (observer t)"
  proof (atomize (full), cases "r1 > 0")
    case False
    then have "A = A1" by (simp add: A_def LowRateAllocation_def e1)
    then show "(\<Sum>x\<in>Obs. A x) \<le> max bitrate ?E \<and> (\<forall>x. x \<in> Obs \<longrightarrow> 0 \<le> A x) \<and>
      (\<forall>t. t \<in> set tracks \<longrightarrow> enforced_min t \<le> A (observer t))"
      using s1 n1 m1 by simp
  next
    case True
    obtain r2 A2 where e2: "required_pass ?s1 tracks r1 A1 = (r2, A2)" by force
    have r1: "0 \<le> r1" "r1 < 2 ^ 31" using True s1(2) E0 b by simp_all
    note E2 = required_pass_sum [OF fin obs(1) t n1 r1 e2 m1 d(2)]
    have n2: "\<And>x. x \<in> Obs \<Longrightarrow> 0 \<le> A2 x" and r2: "0 \<le> r2" "r2 < 2 ^ 31"
      and m2: "\<forall>t\<in>set (tracks @ []). enforced_min t \<le> A2 (observer t)"
      using E2 r1(2) by auto
    obtain r3 A3 where e3: "(if r2 > 0 then required_pass ?s2 tracks r2 A2 else (r2, A2)) = (r3, A3)" by force
    have E3: "(\<Sum>x\<in>Obs. A3 x) + r3 \<le> (\<Sum>x\<in>Obs. A2 x) + r2 \<and> 0 \<le> r3 \<and> r3 \<le> r2 \<and> (\<forall>x\<in>Obs. 0 \<le> A3 x) \<and>
      (\<forall>t\<in>set (tracks @ []). enforced_min t \<le> A3 (observer t))"
    proof (cases "r2 > 0")
      case True
      then show ?thesis using required_pass_sum [OF fin obs(1) t n2 r2 _ m2 d(2)] e3 by simp
    next
      case False
      then show ?thesis using e3 n2 r2 m2 by simp
    qed
    have s3: "(\<Sum>x\<in>Obs. A3 x) + r3 \<le> bitrate" using E3 E2 s1(1) by linarith
    have n3: "\<And>x. x \<in> Obs \<Longrightarrow> 0 \<le> A3 x" using E3 by blast
    have A: "A = (if r3 > 0 then DistributeBitrateEvenly tracks r3 False 1 A3 else A3)"
      using True E3 r2 by (simp add: A_def LowRateAllocation_def e1 e2 e3 u32_id)
    have c: "r3 + (\<Sum>x\<in>Obs. A3 x) < 2 ^ 31" "0 \<le> r3" using s3 b(2) E3 by simp_all
    note D = evenly_ok [OF fin obs(2) d(1) limits_okI [OF ok, of 1, simplified] c(2) n3 c(1), where z = False]
    have "enforced_min t \<le> A (observer t)" if "t \<in> set tracks" for t
      using A that E3 D(3) [OF _ that] t enforced_min_bounds [of t] by (auto split: if_splits)
    moreover have "(\<Sum>x\<in>Obs. A x) \<le> bitrate" using A D(1) s3 c(2) by (auto split: if_splits)
    moreover have "0 \<le> A x" if "x \<in> Obs" for x using A D(2) n3 that by (auto split: if_splits)
    ultimately show "(\<Sum>x\<in>Obs. A x) \<le> max bitrate ?E \<and> (\<forall>x. x \<in> Obs \<longrightarrow> 0 \<le> A x) \<and>
      (\<forall>t. t \<in> set tracks \<longrightarrow> enforced_min t \<le> A (observer t))" by simp
  qed
qed


section \<open>Sums over the streams\<close>

lemma fold_u32_add:
  assumes "\<forall>t\<in>set ts. 0 \<le> f t" and "0 \<le> s" and "s + (\<Sum>t\<leftarrow>ts. f t) < 2 ^ 32"
  shows "fold (\<lambda>t s. u32 (s + f t)) ts s = s + (\<Sum>t\<leftarrow>ts. f t)"
  using assms
proof (induction ts arbitrary: s)
  case (Cons t ts)
  have "0 \<le> (\<Sum>t\<leftarrow>ts. f t)" using Cons.prems(1) by (intro sum_list_nonneg) auto
  then have "u32 (s + f t) = s + f t" using Cons.prems by (intro u32_id) auto
  then show ?case using Cons by (simp add: add.assoc)
qed simp

lemma fold_u32_diff:
  assumes "\<forall>t\<in>set ts. 0 \<le> f t" and "(\<Sum>t\<leftarrow>ts. f t) \<le> s" and "s < 2 ^ 32"
  shows "fold (\<lambda>t s. u32 (s - f t)) ts s = s - (\<Sum>t\<leftarrow>ts. f t)"
  using assms
proof (induction ts arbitrary: s)
  case (Cons t ts)
  have "0 \<le> (\<Sum>t\<leftarrow>ts. f t)" using Cons.prems(1) by (intro sum_list_nonneg) auto
  then have "u32 (s - f t) = s - f t" using Cons.prems by (intro u32_id) auto
  then show ?case using Cons by simp
qed simp

lemma fold_upd_notin: "k \<notin> observer ` set ts \<Longrightarrow> fold (\<lambda>t m. m(observer t := f t)) ts m k = m k"
  by (induction ts arbitrary: m) auto

lemma fold_upd:
  "distinct (map observer ts) \<Longrightarrow> t \<in> set ts \<Longrightarrow> fold (\<lambda>t m. m(observer t := f t)) ts m (observer t) = f t"
  by (induction ts arbitrary: m) (auto simp: fold_upd_notin)

lemma obs_sum:
  fixes A :: allocation
  assumes "distinct (map observer ts)" and "\<And>t. t \<in> set ts \<Longrightarrow> A (observer t) = f t"
  shows "(\<Sum>x\<in>observer ` set ts. A x) = (\<Sum>t\<leftarrow>ts. f t)"
proof -
  have "(\<Sum>x\<in>observer ` set ts. A x) = (\<Sum>t\<in>set ts. A (observer t))"
    using assms(1) by (intro sum.reindex_cong [of observer]) (auto simp: distinct_map)
  also have "\<dots> = (\<Sum>t\<in>set ts. f t)" using assms(2) by (intro sum.cong) auto
  also have "\<dots> = (\<Sum>t\<leftarrow>ts. f t)" using assms(1) by (simp add: distinct_map sum_list_distinct_conv_sum_set)
  finally show ?thesis .
qed

lemma rates_bounds:
  assumes "tracks_ok tracks"
  shows "0 \<le> (\<Sum>t\<leftarrow>tracks. min_of t)" "(\<Sum>t\<leftarrow>tracks. min_of t) \<le> (\<Sum>t\<leftarrow>tracks. max_of t)"
    "(\<Sum>t\<leftarrow>tracks. max_of t) < 2 ^ 30"
  using assms by (auto simp: tracks_ok_def track_ok_def intro!: sum_list_nonneg sum_list_mono)

section \<open>More than everyone can use\<close>

lemma max_rate_ok:
  fixes sm :: int
  assumes ok: "tracks_ok tracks" and b: "(\<Sum>t\<leftarrow>tracks. max_of t) < bitrate" "bitrate < 2 ^ 31"
  defines "Obs \<equiv> observer ` set tracks" and "A \<equiv> MaxRateAllocation tracks bitrate sm"
  shows "(\<Sum>x\<in>Obs. A x) \<le> bitrate"
    and "\<And>t. t \<in> set tracks \<Longrightarrow> max_of t \<le> A (observer t) \<and> A (observer t) \<le> 2 * max_of t"
proof -
  let ?M = "\<Sum>t\<leftarrow>tracks. max_of t"
  define A0 where "A0 = fold (\<lambda>t m. m(observer t := i32 (max_of t))) tracks (\<lambda>_. 0)"
  have fin: "finite Obs" and obs: "observer ` set tracks = Obs" and d: "distinct (map observer tracks)"
    using ok by (auto simp: Obs_def tracks_ok_def)
  have t: "0 \<le> max_of t \<and> i32 (max_of t) = max_of t" if "t \<in> set tracks" for t
    using ok that by (auto simp: tracks_ok_def track_ok_def i32_id)
  have A0: "A0 (observer t) = max_of t" if "t \<in> set tracks" for t
    unfolding A0_def by (subst fold_upd [OF d that]) (use t [OF that] in simp)
  have S: "(\<Sum>x\<in>Obs. A0 x) = ?M" unfolding Obs_def using d A0 by (rule obs_sum)
  have F: "fold (\<lambda>t b. u32 (b - max_of t)) tracks bitrate = bitrate - ?M"
    using t b by (intro fold_u32_diff) auto
  have c: "0 \<le> bitrate - ?M" "bitrate - ?M + (\<Sum>x\<in>Obs. A0 x) < 2 ^ 31" using b S by simp_all
  have n: "\<And>x. x \<in> Obs \<Longrightarrow> 0 \<le> A0 x" using A0 t by (auto simp: Obs_def)
  have A: "A = DistributeBitrateEvenly tracks (bitrate - ?M) True 2 A0"
    by (simp add: A_def MaxRateAllocation_def kTransmissionMaxBitrateMultiplier_def A0_def F)
  note D = evenly_ok [OF fin obs d limits_okI [OF ok, of 2, simplified] c(1) n c(2), where z = True, folded A]
  show "(\<Sum>x\<in>Obs. A x) \<le> bitrate" using D(1) S by simp
  show "max_of t \<le> A (observer t) \<and> A (observer t) \<le> 2 * max_of t" if "t \<in> set tracks" for t
    using D(3) [OF _ that] D(4) [OF _ _ that] A0 [OF that] t [OF that] by simp
qed


section \<open>Enough for everyone\<close>

lemma priority_pass_sum:
  assumes fin: "finite Obs" and "observer ` set ts \<subseteq> Obs" and "0 \<le> b" and "b + (\<Sum>x\<in>Obs. A x) < 2 ^ 31"
    and "\<forall>x\<in>Obs. 0 \<le> lo x \<and> lo x \<le> A x \<and> A x + C x = hi x \<and> 0 \<le> hi x \<and> hi x < 2 ^ 28"
    and "priority_pass ts b C A = (b', C', A')"
  shows "b' + (\<Sum>x\<in>Obs. A' x) = b + (\<Sum>x\<in>Obs. A x) \<and> 0 \<le> b' \<and> (\<forall>x\<in>Obs. lo x \<le> A' x \<and> A' x + C' x = hi x)"
  using assms(2-6)
proof (induction ts arbitrary: b A C)
  case (Cons t ts)
  let ?k = "observer t" and ?m = "priority_bitrate_bps (track_config t) - A (observer t)"
  have k: "?k \<in> Obs" "observer ` set ts \<subseteq> Obs" using Cons.prems(1) by auto
  show ?case
  proof (cases "?m > 0 \<and> b > 0")
    case True
    define x where "x = min ?m b"
    have x: "0 < x" "x \<le> b" using True by (auto simp: x_def)
    have nn: "\<And>y. y \<in> Obs \<Longrightarrow> 0 \<le> A y" using Cons.prems(4) by force
    have le: "A ?k \<le> (\<Sum>y\<in>Obs. A y)" by (intro member_le fin k nn)
    have a: "0 \<le> A ?k" "A ?k + b < 2 ^ 31" "A ?k + C ?k = hi ?k" "0 \<le> hi ?k" "hi ?k < 2 ^ 28" "lo ?k \<le> A ?k"
      using nn [OF k(1)] Cons.prems(3) le bspec [OF Cons.prems(4) k(1)] by auto
    have w: "u32 (b - x) = b - x" "i32 (C ?k - x) = C ?k - x" "i32 (A ?k + x) = A ?k + x"
      using a x Cons.prems(3) le by (intro u32_id i32_id; simp)+
    define B D where "B = A(?k := A ?k + x)" and "D = C(?k := C ?k - x)"
    have e: "priority_pass ts (b - x) D B = (b', C', A')"
      using Cons.prems(5) True w
      unfolding B_def D_def by (simp only: priority_pass.simps Let_def if_True simp_thms x_def [symmetric])
    have S: "(\<Sum>y\<in>Obs. B y) = (\<Sum>y\<in>Obs. A y) + x" unfolding B_def using sum_upd [OF fin k(1)] by simp
    have inv: "\<forall>y\<in>Obs. 0 \<le> lo y \<and> lo y \<le> B y \<and> B y + D y = hi y \<and> 0 \<le> hi y \<and> hi y < 2 ^ 28"
      using Cons.prems(4) a x by (auto simp: B_def D_def)
    have "0 \<le> b - x" "b - x + (\<Sum>y\<in>Obs. B y) < 2 ^ 31" using x S Cons.prems(3) by simp_all
    from Cons.IH [OF k(2) this inv e] S show ?thesis by simp
  next
    case False
    then have "priority_pass ts b C A = (b', C', A')"
      using Cons.prems(5) by (simp only: priority_pass.simps Let_def if_False)
    from Cons.IH [OF k(2) Cons.prems(2-4) this] show ?thesis .
  qed
qed auto

definition exact_priorities :: "rat list \<Rightarrow> bool" where
  "exact_priorities xs \<longleftrightarrow> (\<forall>x\<in>set xs. \<exists>k. x = of_int k / 2 ^ 16 \<and> 1 \<le> k \<and> k \<le> 2 ^ 36)"

lemma exact_priorities_sum:
  "exact_priorities xs \<Longrightarrow> \<exists>K. sum_list xs = of_int K / 2 ^ 16 \<and> int (length xs) \<le> K \<and> K \<le> 2 ^ 36 * int (length xs)"
proof (induction xs)
  case (Cons x xs)
  then obtain K k where "sum_list xs = of_int K / 2 ^ 16" "int (length xs) \<le> K" "K \<le> 2 ^ 36 * int (length xs)"
    "x = of_int k / 2 ^ 16" "1 \<le> k" "k \<le> 2 ^ 36" by (auto simp: exact_priorities_def)
  then show ?case by (intro exI [of _ "k + K"]) (auto simp: add_divide_distrib)
qed simp

lemma f64_grid: "\<bar>k\<bar> \<le> 2 ^ 53 \<Longrightarrow> f64 (of_int k / 2 ^ 16) = of_int k / 2 ^ 16"
  using double.rnd_exact [OF representable_scale [OF rep_int, of k "- 16"]] by (simp add: power_int_minus field_simps)

lemma sum_priorities:
  assumes "exact_priorities xs" and "0 \<le> K" and "K + 2 ^ 36 * int (length xs) \<le> 2 ^ 53"
  shows "foldl dadd (of_int K / 2 ^ 16) xs = of_int K / 2 ^ 16 + sum_list xs"
  using assms
proof (induction xs arbitrary: K)
  case (Cons x xs)
  obtain k where k: "x = of_int k / 2 ^ 16" "1 \<le> k" "k \<le> 2 ^ 36" using Cons.prems(1) by (auto simp: exact_priorities_def)
  have h: "exact_priorities xs" "0 \<le> K + k" "K + k + 2 ^ 36 * int (length xs) \<le> 2 ^ 53"
    using Cons.prems k by (auto simp: exact_priorities_def)
  have "dadd (of_int K / 2 ^ 16) x = f64 (of_int (K + k) / 2 ^ 16)" by (simp add: dadd_def k(1) add_divide_distrib)
  then have "dadd (of_int K / 2 ^ 16) x = of_int (K + k) / 2 ^ 16" using h by (subst (asm) f64_grid) simp_all
  then show ?case using Cons.IH [OF h] by (simp add: k(1) add_divide_distrib)
qed simp

lemma share_bounds:
  assumes "exact_priorities (p # ps)"
  shows "0 \<le> ddiv p (sum_list (p # ps))" "ddiv p (sum_list (p # ps)) \<le> 1" "0 < p"
proof -
  have p: "0 < p" "exact_priorities ps" using assms by (auto simp: exact_priorities_def)
  have "0 \<le> sum_list ps" using p(2) by (intro sum_list_nonneg) (auto simp: exact_priorities_def)
  then show "0 \<le> ddiv p (sum_list (p # ps))" "ddiv p (sum_list (p # ps)) \<le> 1" "0 < p"
    unfolding ddiv_def using p(1) by (auto intro!: f64_nonneg double.rnd_le)
qed

lemma priority_left:
  assumes "exact_priorities (p # ps)" and "length ps \<le> 2 ^ 16"
  shows "dsub (sum_list (p # ps)) p = sum_list ps"
proof -
  obtain K where K: "sum_list ps = of_int K / 2 ^ 16" "int (length ps) \<le> K" "K \<le> 2 ^ 36 * int (length ps)"
    using exact_priorities_sum [of ps] assms(1) by (auto simp: exact_priorities_def)
  have "\<bar>K\<bar> \<le> 2 ^ 53" using K(2,3) assms(2) by simp
  then show ?thesis using f64_grid [of K] by (simp add: dsub_def K(1))
qed

lemma full_capacity_sum:
  assumes fin: "finite Obs" and "allocation_key ` set ps \<subseteq> Obs" and "distinct (map allocation_key ps)"
    and "exact_priorities (map observer_priority ps)" and "length ps \<le> 2 ^ 16" and "0 \<le> r" and "r + (\<Sum>x\<in>Obs. A x) < 2 ^ 31"
    and "\<forall>x\<in>Obs. 0 \<le> lo x \<and> lo x \<le> A x"
    and "\<forall>p\<in>set ps. lo (allocation_key p) \<le> A (allocation_key p) + capacity_bps p"
    and "full_capacity_loop ps (\<Sum>p\<leftarrow>ps. observer_priority p) r A = (qs, s', r', A')"
  shows "(\<exists>n. qs = drop n ps) \<and> s' = (\<Sum>p\<leftarrow>qs. observer_priority p) \<and> 0 \<le> r' \<and>
    r' + (\<Sum>x\<in>Obs. A' x) = r + (\<Sum>x\<in>Obs. A x) \<and> (\<forall>x\<in>Obs. lo x \<le> A' x)"
  using assms(2-10)
proof (induction ps arbitrary: r A)
  case (Cons p ps)
  let ?k = "allocation_key p" and ?c = "capacity_bps p"
  let ?s = "\<Sum>p\<leftarrow>p # ps. observer_priority p"
  let ?x = "dmul (ddiv (observer_priority p) ?s) (of_int r)"
  have k: "?k \<in> Obs" "allocation_key ` set ps \<subseteq> Obs" "distinct (map allocation_key ps)" "?k \<notin> allocation_key ` set ps"
    using Cons.prems(1,2) by auto
  have h: "exact_priorities (observer_priority p # map observer_priority ps)" "exact_priorities (map observer_priority ps)" "length ps \<le> 2 ^ 16"
    using Cons.prems(3,4) by (auto simp: exact_priorities_def)
  have nn: "\<And>y. y \<in> Obs \<Longrightarrow> 0 \<le> A y" using Cons.prems(7) by force
  show ?case
  proof (cases "?x \<ge> of_int ?c")
    case True
    have s: "dsub ?s (observer_priority p) = (\<Sum>p\<leftarrow>ps. observer_priority p)"
      using priority_left [OF h(1)] h(3) by simp
    have le: "A ?k \<le> (\<Sum>y\<in>Obs. A y)" by (intro member_le fin k nn)
    note le = le nn [OF k(1)]
    have "r \<le> 2 ^ 53" using Cons.prems(6) le by simp
    then have "?x \<le> of_int r" using dmul_fraction(2) [OF share_bounds(1,2) [OF h(1)] Cons.prems(5)] by simp
    then have c: "?c \<le> r" using True by (metis of_int_le_iff order_trans)
    have lo: "0 \<le> A ?k + ?c" "lo ?k \<le> A ?k + ?c" using Cons.prems(7,8) k(1) by force+
    define B where "B = A(?k := A ?k + ?c)"
    have B: "B ?k = A ?k + ?c" "\<And>y. y \<noteq> ?k \<Longrightarrow> B y = A y" by (simp_all add: B_def)
    have w: "u32 (r - ?c) = r - ?c" "i32 (A ?k + ?c) = A ?k + ?c"
      using c lo le Cons.prems(6) by (intro u32_id i32_id; simp)+
    have e: "full_capacity_loop ps (\<Sum>p\<leftarrow>ps. observer_priority p) (r - ?c) B = (qs, s', r', A')"
      using Cons.prems(9) True w unfolding B_def
      by (simp only: full_capacity_loop.simps Let_def if_True s)
    have S: "(\<Sum>y\<in>Obs. B y) = (\<Sum>y\<in>Obs. A y) + ?c" unfolding B_def using sum_upd [OF fin k(1)] by simp
    have i1: "\<forall>y\<in>Obs. 0 \<le> lo y \<and> lo y \<le> B y"
      using Cons.prems(7) lo(2) B by metis
    have i2: "\<forall>q\<in>set ps. lo (allocation_key q) \<le> B (allocation_key q) + capacity_bps q"
      using Cons.prems(8) k(4) B(2) by (metis image_eqI list.set_intros(2))
    have b: "0 \<le> r - ?c" "r - ?c + (\<Sum>y\<in>Obs. B y) < 2 ^ 31" using c S Cons.prems(6) by simp_all
    have IH: "(\<exists>n. qs = drop n ps) \<and> s' = (\<Sum>p\<leftarrow>qs. observer_priority p) \<and> 0 \<le> r' \<and>
        r' + (\<Sum>x\<in>Obs. A' x) = r - ?c + (\<Sum>x\<in>Obs. B x) \<and> (\<forall>x\<in>Obs. lo x \<le> A' x)"
      by (rule Cons.IH [OF k(2,3) h(2,3) b i1 i2 e])
    then obtain n where "qs = drop (Suc n) (p # ps)" by auto
    then have "\<exists>n. qs = drop n (p # ps)" ..
    moreover have "r' + (\<Sum>x\<in>Obs. A' x) = r + (\<Sum>x\<in>Obs. A x)" using IH S by linarith
    ultimately show ?thesis using IH by blast
  next
    case False
    then have "qs = p # ps" "s' = ?s" "r' = r" "A' = A"
      using Cons.prems(9) by (auto simp: Let_def)
    moreover from this have "\<exists>n. qs = drop n (p # ps)" by (intro exI [of _ 0]) simp
    ultimately show ?thesis using Cons.prems(5,7) by simp
  qed
qed auto


lemma f64_up: "0 \<le> y \<Longrightarrow> y \<le> 2 ^ n \<Longrightarrow> f64 y \<le> y + 2 ^ n / 2 ^ 53"
proof -
  assume y: "0 \<le> y" "y \<le> 2 ^ n"
  have "f64 y - y \<le> y / 2 ^ 53" using round_to_error [of 53 y] y(1) by (simp only: abs_of_nonneg abs_le_iff)
  also have "\<dots> \<le> 2 ^ n / 2 ^ 53" using y(2) by (intro divide_right_mono) auto
  finally show "f64 y \<le> y + 2 ^ n / 2 ^ 53" by linarith
qed

lemma proportional_share:
  fixes x :: rat
  assumes "0 \<le> a" "a < 2 ^ 31" "0 \<le> r" "r < 2 ^ 31" "0 \<le> p / s" "p / s \<le> 1"
  defines "v \<equiv> trunc (dadd (of_int a) (dmul (ddiv p s) (of_int r)))"
  shows "a \<le> v" "of_int v \<le> of_int a + p / s * of_int r + 1 / 2 ^ 19"
proof -
  define d1 d2 where "d1 = ddiv p s" and "d2 = dmul d1 (of_int r)"
  have R: "0 \<le> (of_int r :: rat)" "(of_int r :: rat) \<le> 2 ^ 31" "0 \<le> (of_int a :: rat)" "(of_int a :: rat) \<le> 2 ^ 31"
    using assms(1-4) by (simp_all add: of_int_le_numeral_iff)
  have d1: "0 \<le> d1" "d1 \<le> p / s + 1 / 2 ^ 53" "d1 \<le> 1"
    unfolding d1_def ddiv_def using f64_nonneg [OF assms(5)] f64_up [OF assms(5), of 0] assms(6)
      double.rnd_le [OF representable_1 assms(6)] by simp_all
  have "d1 * of_int r \<le> (p / s + 1 / 2 ^ 53) * of_int r" using d1 R by (intro mult_right_mono) auto
  then have y: "d1 * of_int r \<le> p / s * of_int r + of_int r / 2 ^ 53" by (simp add: ring_distribs)
  have y1: "0 \<le> d1 * of_int r" "d1 * of_int r \<le> 2 ^ 31"
    using d1 R mult_mono [of d1 1 "of_int r" "2 ^ 31 :: rat"] by simp_all
  have d2: "0 \<le> d2" "d2 \<le> d1 * of_int r + 2 ^ 31 / 2 ^ 53"
    unfolding d2_def dmul_def using f64_nonneg [OF y1(1)] f64_up [OF y1] by simp_all
  have z: "0 \<le> of_int a + d2" "of_int a + d2 \<le> 2 ^ 33" using d2 y1 R by simp_all
  have v: "v = trunc (f64 (of_int a + d2))" by (simp add: v_def dadd_def d2_def d1_def)
  have "of_int a \<le> f64 (of_int a + d2)" using d2 assms(1,2) by (intro double.rnd_ge rep_int) auto
  then show "a \<le> v" unfolding v by (rule trunc_ge [OF _ assms(1)])
  have "of_int v \<le> f64 (of_int a + d2)" unfolding v by (intro trunc_le f64_nonneg z)
  also have "\<dots> \<le> of_int a + d2 + 2 ^ 33 / 2 ^ 53" by (rule f64_up [OF z])
  finally show "of_int v \<le> of_int a + p / s * of_int r + 1 / 2 ^ 19" using d2 y R by simp
qed

lemma proportional_sum:
  assumes fin: "finite Obs" and r: "0 \<le> r" "r < 2 ^ 31" and "allocation_key ` set ps \<subseteq> Obs"
    and "distinct (map allocation_key ps)"
    and "\<forall>p\<in>set ps. 0 \<le> A (allocation_key p) \<and> A (allocation_key p) < 2 ^ 31 \<and>
      0 \<le> observer_priority p / s \<and> observer_priority p / s \<le> 1"
  defines "A' \<equiv> proportional_loop ps s r A"
  shows "of_int (\<Sum>x\<in>Obs. A' x) \<le> of_int (\<Sum>x\<in>Obs. A x) + (\<Sum>p\<leftarrow>ps. observer_priority p) / s * of_int r +
      of_nat (length ps) / 2 ^ 19 \<and> (\<forall>x\<in>Obs. A x \<le> A' x)"
  using assms(4-6) unfolding A'_def
proof (induction ps arbitrary: A)
  case (Cons p ps)
  let ?k = "allocation_key p"
  define v where "v = trunc (dadd (of_int (A ?k)) (dmul (ddiv (observer_priority p) s) (of_int r)))"
  define B where "B = A(?k := v)"
  have k: "?k \<in> Obs" "allocation_key ` set ps \<subseteq> Obs" "distinct (map allocation_key ps)" "?k \<notin> allocation_key ` set ps"
    using Cons.prems(1,2) by auto
  have B: "B ?k = v" "\<And>y. y \<noteq> ?k \<Longrightarrow> B y = A y" by (simp_all add: B_def)
  have v: "A ?k \<le> v" "of_int v \<le> of_int (A ?k) + observer_priority p / s * of_int r + 1 / 2 ^ 19"
    unfolding v_def using proportional_share [OF _ _ r] Cons.prems(3) by simp_all
  have S: "of_int (\<Sum>y\<in>Obs. B y) = (of_int (\<Sum>y\<in>Obs. A y) - of_int (A ?k) + of_int v :: rat)"
    unfolding B_def sum_upd [OF fin k(1)] by simp
  have i: "\<forall>q\<in>set ps. 0 \<le> B (allocation_key q) \<and> B (allocation_key q) < 2 ^ 31 \<and>
      0 \<le> observer_priority q / s \<and> observer_priority q / s \<le> 1"
    using Cons.prems(3) k(4) B(2) by (metis image_eqI list.set_intros(2))
  have step: "proportional_loop (p # ps) s r A = proportional_loop ps s r B"
    by (simp add: B_def v_def Let_def)
  have IH: "of_int (\<Sum>x\<in>Obs. proportional_loop ps s r B x) \<le>
      of_int (\<Sum>x\<in>Obs. B x) + (\<Sum>p\<leftarrow>ps. observer_priority p) / s * of_int r + of_nat (length ps) / 2 ^ 19"
    "\<forall>x\<in>Obs. B x \<le> proportional_loop ps s r B x" using Cons.IH [OF k(2,3) i] by blast+
  have "A x \<le> B x" for x using v(1) B by (cases "x = ?k") auto
  then have "\<forall>x\<in>Obs. A x \<le> proportional_loop ps s r B x" using IH(2) by (meson order_trans)
  moreover have "(\<Sum>p\<leftarrow>p # ps. observer_priority p) / s * of_int r =
      observer_priority p / s * of_int r + (\<Sum>p\<leftarrow>ps. observer_priority p) / s * (of_int r :: rat)"
    by (simp add: add_divide_distrib ring_distribs)
  moreover have "of_nat (length (p # ps)) / 2 ^ 19 = 1 / 2 ^ 19 + (of_nat (length ps) / 2 ^ 19 :: rat)"
    by (simp add: add_divide_distrib)
  ultimately show ?case unfolding step using IH(1) S v(2) by linarith
qed simp


lemma exact_priorities_member: "exact_priorities xs \<Longrightarrow> x \<in> set xs \<Longrightarrow> 0 \<le> x / sum_list xs \<and> x / sum_list xs \<le> 1"
proof -
  assume h: "exact_priorities xs" "x \<in> set xs"
  then have "0 < x \<and> 0 \<le> sum_list xs \<and> x \<le> sum_list xs"
  proof (induction xs)
    case (Cons y ys)
    have y: "0 < y" "exact_priorities ys" using Cons.prems(1) by (auto simp: exact_priorities_def)
    then have "0 \<le> sum_list ys" by (intro sum_list_nonneg) (auto simp: exact_priorities_def)
    then show ?case using Cons.IH [OF y(2)] Cons.prems(2) y(1) by auto
  qed simp
  then show ?thesis by simp
qed

lemma relative_ok:
  assumes fin: "finite Obs" and obs: "observer ` set tracks = Obs" and ok: "tracks_ok tracks"
    and r: "0 \<le> r" "r + (\<Sum>x\<in>Obs. A x) < 2 ^ 31"
    and inv: "\<forall>x\<in>Obs. 0 \<le> lo x \<and> lo x \<le> A x \<and> lo x \<le> A x + C x"
  defines "A' \<equiv> DistributeBitrateRelatively tracks r C A"
  shows "(\<Sum>x\<in>Obs. A' x) \<le> r + (\<Sum>x\<in>Obs. A x) \<and> (\<forall>x\<in>Obs. lo x \<le> A' x)"
proof -
  define rs where "rs = map (\<lambda>t. \<lparr>allocation_key = observer t, capacity_bps = C (observer t),
      observer_priority = bitrate_priority (track_config t)\<rparr>) tracks"
  define ps where "ps = sort_key (\<lambda>p. ddiv (of_int (capacity_bps p)) (observer_priority p)) rs"
  have keys: "map allocation_key rs = map observer tracks" by (simp add: rs_def)
  have d: "distinct (map allocation_key rs)" "distinct rs"
    using ok distinct_map [of allocation_key rs] unfolding keys by (simp_all add: tracks_ok_def)
  have ps: "set ps = set rs" "distinct ps" "length ps \<le> 2 ^ 16" "allocation_key ` set ps \<subseteq> Obs"
    using ok obs d(2) by (auto simp: ps_def rs_def tracks_ok_def)
  have dk: "distinct (map allocation_key ps)"
    using d(1) ps(1,2) unfolding distinct_map by simp
  have h: "exact_priorities (map observer_priority ps)" "exact_priorities (map observer_priority rs)"
    using ok ps(1) by (auto simp: rs_def exact_priorities_def tracks_ok_def track_ok_def)
  have "(\<Sum>p\<leftarrow>rs. observer_priority p) = (\<Sum>p\<leftarrow>ps. observer_priority p)"
    using d(2) ps(1,2) by (simp add: sum_list_distinct_conv_sum_set)
  moreover have "foldl dadd (of_int 0 / 2 ^ 16) (map observer_priority rs) = of_int 0 / 2 ^ 16 + (\<Sum>p\<leftarrow>rs. observer_priority p)"
    using h(2) ok by (intro sum_priorities) (auto simp: rs_def tracks_ok_def)
  ultimately have psum: "foldl dadd 0 (map (\<lambda>t. bitrate_priority (track_config t)) tracks) = (\<Sum>p\<leftarrow>ps. observer_priority p)"
    by (simp add: rs_def comp_def)
  obtain qs s' r' A1 where e: "full_capacity_loop ps (\<Sum>p\<leftarrow>ps. observer_priority p) r A = (qs, s', r', A1)"
    by (metis prod_cases4)
  have A': "A' = proportional_loop qs s' r' A1"
    by (simp add: A'_def DistributeBitrateRelatively_def psum rs_def [symmetric] ps_def [symmetric] e)
  have i1: "\<forall>x\<in>Obs. 0 \<le> lo x \<and> lo x \<le> A x" using inv by blast
  have i2: "\<forall>p\<in>set ps. lo (allocation_key p) \<le> A (allocation_key p) + capacity_bps p"
    using inv obs ps(1) by (auto simp: rs_def)
  note F = full_capacity_sum [OF fin ps(4) dk h(1) ps(3) r i1 i2 e]
  then obtain n where qs: "qs = drop n ps" by blast
  have T: "r' + (\<Sum>x\<in>Obs. A1 x) = r + (\<Sum>x\<in>Obs. A x)" "0 \<le> r'" "\<forall>x\<in>Obs. lo x \<le> A1 x"
    "s' = (\<Sum>p\<leftarrow>qs. observer_priority p)" using F by blast+
  have nn: "0 \<le> A1 x" if "x \<in> Obs" for x using T(3) i1 that by force
  then have S0: "0 \<le> (\<Sum>x\<in>Obs. A1 x)" by (rule sum_nonneg)
  have le: "A1 x \<le> (\<Sum>x\<in>Obs. A1 x)" if "x \<in> Obs" for x by (intro member_le fin nn that)
  have sub: "set qs \<subseteq> set ps" "allocation_key ` set qs \<subseteq> Obs" "distinct (map allocation_key qs)" "length qs \<le> 2 ^ 16"
    using ps dk set_drop_subset [of n ps] unfolding qs by (auto simp: drop_map [symmetric])
  have hq: "exact_priorities (map observer_priority qs)" using h(1) sub(1) by (auto simp: exact_priorities_def)
  have r2: "r' < 2 ^ 31" using T(1) S0 r(2) by linarith
  have pq: "\<forall>p\<in>set qs. 0 \<le> A1 (allocation_key p) \<and> A1 (allocation_key p) < 2 ^ 31 \<and>
      0 \<le> observer_priority p / s' \<and> observer_priority p / s' \<le> 1"
  proof
    fix p assume p: "p \<in> set qs"
    then have k: "allocation_key p \<in> Obs" using sub(2) by blast
    show "0 \<le> A1 (allocation_key p) \<and> A1 (allocation_key p) < 2 ^ 31 \<and> 0 \<le> observer_priority p / s' \<and> observer_priority p / s' \<le> 1"
      using nn [OF k] le [OF k] T(1,2) r(2) exact_priorities_member [OF hq, of "observer_priority p"] p T(4) by auto
  qed
  note P = proportional_sum [OF fin T(2) r2 sub(2,3) pq, folded A']
  have "s' / s' * of_int r' \<le> (of_int r' :: rat)" using T(2) by simp
  moreover have "(of_nat (length qs) :: rat) \<le> of_nat (2 ^ 16)" using sub(4) by (simp only: of_nat_le_iff)
  ultimately have "(of_int (\<Sum>x\<in>Obs. A' x) :: rat) < of_int ((\<Sum>x\<in>Obs. A1 x) + r' + 1)"
    using conjunct1 [OF P] unfolding T(4) [symmetric] by simp
  then have "(\<Sum>x\<in>Obs. A' x) < (\<Sum>x\<in>Obs. A1 x) + r' + 1" by (simp only: of_int_less_iff)
  moreover have "\<forall>x\<in>Obs. lo x \<le> A' x" using conjunct2 [OF P] T(3) by (meson order_trans)
  ultimately show ?thesis using T(1) by simp
qed

lemma normal_rate_ok:
  assumes ok: "tracks_ok tracks" and b: "(\<Sum>t\<leftarrow>tracks. min_of t) \<le> bitrate" "bitrate < 2 ^ 31"
  defines "Obs \<equiv> observer ` set tracks" and "A \<equiv> NormalRateAllocation tracks bitrate (\<Sum>t\<leftarrow>tracks. min_of t)"
  shows "(\<Sum>x\<in>Obs. A x) \<le> bitrate" and "\<And>t. t \<in> set tracks \<Longrightarrow> min_of t \<le> A (observer t)"
proof -
  let ?M = "\<Sum>t\<leftarrow>tracks. min_of t"
  define A0 C0 where "A0 = fold (\<lambda>t m. m(observer t := i32 (min_of t))) tracks (\<lambda>_. 0)"
    and "C0 = fold (\<lambda>t m. m(observer t := i32 (u32 (max_of t - min_of t)))) tracks (\<lambda>_. 0)"
  have fin: "finite Obs" and obs: "observer ` set tracks = Obs" "observer ` set tracks \<subseteq> Obs"
    and d: "distinct (map observer tracks)" using ok by (auto simp: Obs_def tracks_ok_def)
  have t: "0 \<le> min_of t \<and> min_of t \<le> max_of t \<and> max_of t < 2 ^ 28" if "t \<in> set tracks" for t
    using ok that by (auto simp: tracks_ok_def track_ok_def)
  have A0: "A0 (observer t) = min_of t" if "t \<in> set tracks" for t
    unfolding A0_def by (subst fold_upd [OF d that]) (use t [OF that] in \<open>simp add: i32_id\<close>)
  have C0: "C0 (observer t) = max_of t - min_of t" if "t \<in> set tracks" for t
    unfolding C0_def by (subst fold_upd [OF d that]) (use t [OF that] in \<open>simp add: i32_id u32_id\<close>)
  have S: "(\<Sum>x\<in>Obs. A0 x) = ?M" unfolding Obs_def using d A0 by (rule obs_sum)
  have u: "u32 (bitrate - ?M) = bitrate - ?M" using b rates_bounds [OF ok] by (intro u32_id) simp_all
  obtain b' C1 A1 where e: "priority_pass tracks (bitrate - ?M) C0 A0 = (b', C1, A1)" by (metis prod_cases3)
  have A: "A = (if b' > 0 then DistributeBitrateRelatively tracks b' C1 A1 else A1)"
    by (simp add: A_def NormalRateAllocation_def A0_def [symmetric] C0_def [symmetric] u e)
  have b0: "0 \<le> bitrate - ?M" "bitrate - ?M + (\<Sum>x\<in>Obs. A0 x) < 2 ^ 31" using b S by simp_all
  have inv: "\<forall>x\<in>Obs. 0 \<le> A0 x \<and> A0 x \<le> A0 x \<and> A0 x + C0 x = A0 x + C0 x \<and> 0 \<le> A0 x + C0 x \<and> A0 x + C0 x < 2 ^ 28"
    using t A0 C0 by (fastforce simp: Obs_def)
  have P: "b' + (\<Sum>x\<in>Obs. A1 x) = bitrate - ?M + (\<Sum>x\<in>Obs. A0 x) \<and> 0 \<le> b' \<and>
      (\<forall>x\<in>Obs. A0 x \<le> A1 x \<and> A1 x + C1 x = A0 x + C0 x)"
    using priority_pass_sum [where hi = "\<lambda>x. A0 x + C0 x", OF fin obs(2) b0 inv e] .
  have inv1: "\<forall>x\<in>Obs. 0 \<le> A0 x \<and> A0 x \<le> A1 x \<and> A0 x \<le> A1 x + C1 x"
    using P t A0 C0 by (auto simp: Obs_def)
  have b1: "0 \<le> b'" "b' + (\<Sum>x\<in>Obs. A1 x) < 2 ^ 31" using P b0 by simp_all
  have "(\<Sum>x\<in>Obs. A x) \<le> b' + (\<Sum>x\<in>Obs. A1 x) \<and> (\<forall>x\<in>Obs. A0 x \<le> A x)"
  proof (cases "b' > 0")
    case True
    then show ?thesis using A relative_ok [OF fin obs(1) ok b1 inv1] by simp
  next
    case False
    then show ?thesis using A P b1(1) by simp
  qed
  then show "(\<Sum>x\<in>Obs. A x) \<le> bitrate" "\<And>t. t \<in> set tracks \<Longrightarrow> min_of t \<le> A (observer t)"
    using P S A0 by (auto simp: Obs_def)
qed

section \<open>The allocation as a whole\<close>

lemma allocate_ok:
  assumes "tracks_ok tracks" and "tracks \<noteq> []" and "0 < bitrate" and "bitrate < 2 ^ 31"
  defines "A \<equiv> AllocateBitrates tracks bitrate"
    and "enough \<equiv> EnoughBitrateForAllObservers tracks bitrate (\<Sum>t\<leftarrow>tracks. min_of t)"
  shows "(\<Sum>t\<leftarrow>tracks. A (observer t)) \<le> max bitrate (\<Sum>t\<leftarrow>tracks. enforced_min t) \<and>
    (\<forall>t\<in>set tracks. enforced_min t \<le> A (observer t) \<and> 0 \<le> A (observer t) \<and>
      (enough \<longrightarrow> min_of t \<le> A (observer t)) \<and>
      (enough \<and> (\<Sum>t\<leftarrow>tracks. max_of t) < bitrate \<longrightarrow> max_of t \<le> A (observer t) \<and> A (observer t) \<le> 2 * max_of t))"
proof -
  have ok: "\<forall>t\<in>set tracks. 0 \<le> min_of t \<and> min_of t \<le> max_of t" and d: "distinct (map observer tracks)"
    using assms(1) by (auto simp: tracks_ok_def track_ok_def)
  have sums: "fold (\<lambda>t s. u32 (s + min_of t)) tracks 0 = (\<Sum>t\<leftarrow>tracks. min_of t)"
    "fold (\<lambda>t s. u32 (s + max_of t)) tracks 0 = (\<Sum>t\<leftarrow>tracks. max_of t)"
    using fold_u32_add [of tracks min_of 0] fold_u32_add [of tracks max_of 0] ok rates_bounds [OF assms(1)] by force+
  have S: "(\<Sum>t\<leftarrow>tracks. A (observer t)) = (\<Sum>x\<in>observer ` set tracks. A x)"
    using obs_sum [OF d, of A "\<lambda>t. A (observer t)"] by simp
  have em: "\<forall>t\<in>set tracks. 0 \<le> enforced_min t \<and> enforced_min t \<le> min_of t" using ok by (simp add: enforced_min_def)
  consider (low) "\<not> enough" | (normal) enough "bitrate \<le> (\<Sum>t\<leftarrow>tracks. max_of t)"
    | (max) enough "(\<Sum>t\<leftarrow>tracks. max_of t) < bitrate" by linarith
  then show ?thesis
  proof cases
    case low
    then have "A = LowRateAllocation tracks bitrate"
      using assms(2,3) by (simp add: A_def enough_def AllocateBitrates_def sums)
    then show ?thesis using low low_rate_ok [OF assms(1,3,4)] em unfolding S by auto
  next
    case normal
    then have "A = NormalRateAllocation tracks bitrate (\<Sum>t\<leftarrow>tracks. min_of t)" "(\<Sum>t\<leftarrow>tracks. min_of t) \<le> bitrate"
      using assms(2,3) by (auto simp: A_def enough_def AllocateBitrates_def sums EnoughBitrateForAllObservers_def split: if_splits)
    then show ?thesis using normal normal_rate_ok [OF assms(1) _ assms(4)] em unfolding S by fastforce
  next
    case max
    then have A: "A = MaxRateAllocation tracks bitrate (\<Sum>t\<leftarrow>tracks. max_of t)"
      using assms(2,3) by (simp add: A_def enough_def AllocateBitrates_def sums)
    have "\<forall>t\<in>set tracks. max_of t \<le> A (observer t) \<and> A (observer t) \<le> 2 * max_of t"
      "(\<Sum>t\<leftarrow>tracks. A (observer t)) \<le> bitrate"
      using max_rate_ok [OF assms(1) max(2) assms(4), where sm = "\<Sum>t\<leftarrow>tracks. max_of t", folded A] unfolding S by auto
    then show ?thesis using ok em by fastforce
  qed
qed


definition sample_track :: "nat \<Rightarrow> int \<Rightarrow> int \<Rightarrow> bool \<Rightarrow> int \<Rightarrow> AllocatableTrack" where
  "sample_track k lo hi enf pri = new_AllocatableTrack k
     \<lparr>min_bitrate_bps = lo, max_bitrate_bps = hi, pad_up_bitrate_bps = 0, priority_bitrate_bps = 0,
      enforce_min_bitrate = enf, bitrate_priority = of_int pri / 2\<rparr>"

definition sample_tracks :: "AllocatableTrack list" where
  "sample_tracks = [sample_track 1 6000 32000 True 2, sample_track 2 30000 2500000 False 4]"

lemma sample_tracks_ok: "tracks_ok sample_tracks"
proof -
  have "track_ok (sample_track 1 6000 32000 True 2)" "track_ok (sample_track 2 30000 2500000 False 4)"
    unfolding track_ok_def sample_track_def
    by (simp_all add: new_AllocatableTrack_def exI [of _ "2 ^ 16"] exI [of _ "2 ^ 17"])
  then show ?thesis
    by (simp add: tracks_ok_def sample_tracks_def) (simp add: sample_track_def new_AllocatableTrack_def)
qed


section \<open>What the observers are told\<close>

text \<open>Observers that only record what they are told.\<close>

definition recorder :: "(nat \<Rightarrow> BitrateAllocationUpdate \<Rightarrow> int) \<Rightarrow> (nat \<times> BitrateAllocationUpdate) list bitrate_observers" where
  "recorder protection =
     \<lparr>obs_OnBitrateUpdated = (\<lambda>k u calls. (protection k u, calls @ [(k, u)])),
      OnAllocationLimitsChanged = (\<lambda>l calls. calls)\<rparr>"

definition told :: "BitrateAllocationUpdate \<Rightarrow> allocation \<Rightarrow> allocation \<Rightarrow> AllocatableTrack \<Rightarrow> nat \<times> BitrateAllocationUpdate" where
  "told update A S t =
     (observer t, update\<lparr>up_target_bitrate := u32 (A (observer t)), up_stable_target_bitrate := u32 (S (observer t))\<rparr>)"

lemma update_track_calls:
  "snd (snd (update_track (recorder protection) update A S target (t, calls))) = calls @ [told update A S t]"
  by (simp add: update_track_def recorder_def told_def Let_def)

lemma update_tracks_calls:
  "snd (snd (update_tracks (recorder protection) update A S target ts calls)) = calls @ map (told update A S) ts"
proof (induction ts arbitrary: calls)
  case (Cons t ts)
  show ?case using update_track_calls [of protection update A S target t calls] Cons.IH
    by (simp add: split_beta)
qed simp

lemma recorder_calls: "snd (obs_OnBitrateUpdated (recorder protection) k u calls) = calls @ [(k, u)]"
  by (simp add: recorder_def)

lemma limits_calls: "snd (UpdateAllocationLimits (recorder protection) (a, calls)) = calls"
  by (simp add: UpdateAllocationLimits_def recorder_def Let_def)

lemma told_targets:
  assumes "tracks_ok tracks" and "tracks \<noteq> []" and "0 < bitrate" and "bitrate < 2 ^ 31"
  shows "(\<Sum>(k, u)\<leftarrow>map (told update (AllocateBitrates tracks bitrate) S) tracks. up_target_bitrate u)
    \<le> max bitrate (\<Sum>t\<leftarrow>tracks. enforced_min t)"
proof -
  let ?A = "AllocateBitrates tracks bitrate"
  note ok = allocate_ok [OF assms]
  have d: "distinct (map observer tracks)" and t: "\<forall>t\<in>set tracks. track_ok t" using assms(1) by (auto simp: tracks_ok_def)
  have "(\<Sum>t\<leftarrow>tracks. enforced_min t) \<le> (\<Sum>t\<leftarrow>tracks. max_of t)"
    using t enforced_min_bounds by (intro sum_list_mono) auto
  then have small: "(\<Sum>t\<leftarrow>tracks. ?A (observer t)) < 2 ^ 31"
    using conjunct1 [OF ok] rates_bounds(3) [OF assms(1)] assms(4) by (auto simp: max_def split: if_splits)
  have S: "(\<Sum>t\<leftarrow>tracks. ?A (observer t)) = (\<Sum>x\<in>observer ` set tracks. ?A x)"
    using obs_sum [OF d, of ?A "\<lambda>t. ?A (observer t)"] by simp
  have "u32 (?A (observer t)) = ?A (observer t)" if "t \<in> set tracks" for t
  proof -
    have "?A (observer t) \<le> (\<Sum>x\<in>observer ` set tracks. ?A x)" using ok that by (intro member_le) auto
    then show ?thesis using small ok that unfolding S by (intro u32_id) auto
  qed
  then have "(\<Sum>t\<leftarrow>tracks. u32 (?A (observer t))) = (\<Sum>t\<leftarrow>tracks. ?A (observer t))"
    by (intro arg_cong [of _ _ sum_list] map_cong) auto
  then show ?thesis using ok by (simp add: told_def comp_def)
qed

lemma told_within_budget:
  assumes "tracks_ok tracks" and "0 \<le> bitrate" and "bitrate < 2 ^ 31"
  shows "(\<Sum>(k, u)\<leftarrow>map (told update (AllocateBitrates tracks bitrate) S) tracks. up_target_bitrate u)
    \<le> max bitrate (\<Sum>t\<leftarrow>tracks. enforced_min t)"
proof (cases "tracks = [] \<or> bitrate = 0")
  case True
  then have "(\<Sum>(k, u)\<leftarrow>map (told update (AllocateBitrates tracks bitrate) S) tracks. up_target_bitrate u) = 0"
    by (auto simp: told_def comp_def AllocateBitrates_def ZeroRateAllocation_def u32_def)
  then show ?thesis using assms(2) by simp
next
  case False
  then show ?thesis using assms by (intro told_targets) auto
qed

lemma told_zero:
  "\<forall>(k, u)\<in>set (map (told update (AllocateBitrates tracks 0) S) ts). up_target_bitrate u = 0"
  by (auto simp: told_def AllocateBitrates_def ZeroRateAllocation_def u32_def)

lemma told_fields:
  "map fst (map (told update A S) ts) = map observer ts"
  "\<forall>(k, u)\<in>set (map (told update A S) ts). up_is_overused_for_encoder u = up_is_overused_for_encoder update \<and>
     up_cwnd_reduce_ratio u = up_cwnd_reduce_ratio update"
  by (auto simp: told_def)

lemma set_track_observers:
  "map observer (set_track obs config tracks) =
     (if obs \<in> observer ` set tracks then map observer tracks else map observer tracks @ [obs])"
  by (auto simp: set_track_def new_AllocatableTrack_def)

text \<open>C7. Every network estimate, the first one and an estimate of zero included, reaches every stream
  exactly once, in the order of registration, together with the over-use signal that MAE adds to the
  message. The target rates handed out respect the budget (for a rate below 2^31 bits per second and
  streams within the limits of \<open>tracks_ok\<close>), and an estimate of zero tells every stream zero. When a
  stream is registered or changes its limits after a positive estimate, all streams are told again,
  but then with the over-use signal cleared; otherwise only that stream is told, a target rate of zero.\<close>

theorem observers_told:
  "(\<exists>told. snd (OnNetworkEstimateChanged (recorder protection) msg (a, calls)) = calls @ told \<and>
      map fst told = map observer (allocatable_tracks a) \<and>
      (\<forall>(k, u)\<in>set told. up_is_overused_for_encoder u = tr_is_overused_for_encoder msg \<and>
         up_cwnd_reduce_ratio u = tr_cwnd_reduce_ratio msg) \<and>
      (tracks_ok (allocatable_tracks a) \<and> 0 \<le> tr_target_rate msg \<and> tr_target_rate msg < 2 ^ 31 \<longrightarrow>
         (\<Sum>(k, u)\<leftarrow>told. up_target_bitrate u) \<le>
           max (tr_target_rate msg) (\<Sum>t\<leftarrow>allocatable_tracks a. enforced_min t)) \<and>
      (tr_target_rate msg = 0 \<longrightarrow> (\<forall>(k, u)\<in>set told. up_target_bitrate u = 0))) \<and>
   (\<exists>told. snd (AddObserver (recorder protection) obs config (a, calls)) = calls @ told \<and>
      map fst told =
        (if last_target_bps a \<le> 0 then [obs]
         else if obs \<in> observer ` set (allocatable_tracks a) then map observer (allocatable_tracks a)
         else map observer (allocatable_tracks a) @ [obs]) \<and>
      (\<forall>(k, u)\<in>set told. up_is_overused_for_encoder u = 0 \<and> up_cwnd_reduce_ratio u = 0) \<and>
      (last_target_bps a \<le> 0 \<longrightarrow> (\<forall>(k, u)\<in>set told. up_target_bitrate u = 0)))"
proof (intro conjI)
  let ?T = "allocatable_tracks a" and ?r = "tr_target_rate msg"
  define update where "update = new_BitrateAllocationUpdate
    \<lparr>up_packet_loss_ratio := ddiv (of_int (max 0 (min (trunc (f32 (tr_loss_rate_ratio msg * 255))) 255))) 256,
     up_round_trip_time := Millis (ms (tr_round_trip_time msg)), up_bwe_period := Millis (ms (tr_bwe_period msg)),
     up_cwnd_reduce_ratio := tr_cwnd_reduce_ratio msg, up_is_overused_for_encoder := tr_is_overused_for_encoder msg\<rparr>"
  define S where "S = AllocateBitrates ?T (u32 (tr_stable_target_rate msg))"
  have update: "snd (OnNetworkEstimateChanged (recorder protection) msg (a, calls)) =
      calls @ map (told update (AllocateBitrates ?T (u32 ?r)) S) ?T"
    "up_is_overused_for_encoder update = tr_is_overused_for_encoder msg"
    "up_cwnd_reduce_ratio update = tr_cwnd_reduce_ratio msg"
    by (simp_all add: OnNetworkEstimateChanged_def Let_def limits_calls update_tracks_calls split_beta update_def S_def)
  have budget: "tracks_ok ?T \<and> 0 \<le> ?r \<and> ?r < 2 ^ 31 \<longrightarrow>
      (\<Sum>(k, u)\<leftarrow>map (told update (AllocateBitrates ?T (u32 ?r)) S) ?T. up_target_bitrate u) \<le>
        max ?r (\<Sum>t\<leftarrow>?T. enforced_min t)"
    using told_within_budget [of ?T ?r update S] u32_id [of ?r] by auto
  have zero: "?r = 0 \<longrightarrow> (\<forall>(k, u)\<in>set (map (told update (AllocateBitrates ?T (u32 ?r)) S) ?T). up_target_bitrate u = 0)"
    using told_zero [of update ?T S ?T] u32_id [of 0] by simp
  show "\<exists>told. snd (OnNetworkEstimateChanged (recorder protection) msg (a, calls)) = calls @ told \<and>
      map fst told = map observer ?T \<and>
      (\<forall>(k, u)\<in>set told. up_is_overused_for_encoder u = tr_is_overused_for_encoder msg \<and>
         up_cwnd_reduce_ratio u = tr_cwnd_reduce_ratio msg) \<and>
      (tracks_ok ?T \<and> 0 \<le> ?r \<and> ?r < 2 ^ 31 \<longrightarrow>
         (\<Sum>(k, u)\<leftarrow>told. up_target_bitrate u) \<le> max ?r (\<Sum>t\<leftarrow>?T. enforced_min t)) \<and>
      (?r = 0 \<longrightarrow> (\<forall>(k, u)\<in>set told. up_target_bitrate u = 0))"
    unfolding update(1) update(2,3) [symmetric] by (intro exI conjI) (rule refl told_fields budget zero)+
  let ?S = "set_track obs config ?T"
  define empty_update where "empty_update = new_BitrateAllocationUpdate
    \<lparr>up_packet_loss_ratio := ddiv (of_int (last_fraction_loss a)) 256,
     up_round_trip_time := Millis (last_rtt a), up_bwe_period := Millis (last_bwe_period_ms a)\<rparr>"
  define A' S' where "A' = AllocateBitrates ?S (last_target_bps a)" and "S' = AllocateBitrates ?S (last_stable_target_bps a)"
  have add: "snd (AddObserver (recorder protection) obs config (a, calls)) =
      calls @ (if last_target_bps a \<le> 0 then [(obs, empty_update)] else map (told empty_update A' S') ?S)"
    by (simp add: AddObserver_def Let_def limits_calls update_tracks_calls split_beta empty_update_def A'_def S'_def
        recorder_calls not_le)
  have e: "up_is_overused_for_encoder empty_update = 0" "up_cwnd_reduce_ratio empty_update = 0"
    "up_target_bitrate empty_update = 0"
    by (simp_all add: empty_update_def new_BitrateAllocationUpdate_def)
  show "\<exists>told. snd (AddObserver (recorder protection) obs config (a, calls)) = calls @ told \<and>
      map fst told =
        (if last_target_bps a \<le> 0 then [obs]
         else if obs \<in> observer ` set ?T then map observer ?T else map observer ?T @ [obs]) \<and>
      (\<forall>(k, u)\<in>set told. up_is_overused_for_encoder u = 0 \<and> up_cwnd_reduce_ratio u = 0) \<and>
      (last_target_bps a \<le> 0 \<longrightarrow> (\<forall>(k, u)\<in>set told. up_target_bitrate u = 0))"
  proof (cases "last_target_bps a \<le> 0")
    case True
    then show ?thesis using add e by simp
  next
    case False
    then show ?thesis
      using add told_fields(2) [of empty_update A' S' ?S, unfolded e]
        trans [OF told_fields(1) [of empty_update A' S' ?S] set_track_observers] by auto
  qed
qed

definition sample_allocator :: BitrateAllocator where
  "sample_allocator = new_BitrateAllocator\<lparr>allocatable_tracks := sample_tracks, last_target_bps := 500000\<rparr>"

definition sample_rate :: TargetTransferRate where
  "sample_rate = \<lparr>tr_at_time = 0, tr_loss_rate_ratio = 0, tr_round_trip_time = 50000, tr_bwe_period = 1000000,
     tr_target_rate = 1000000, tr_stable_target_rate = 900000, tr_cwnd_reduce_ratio = 0, tr_is_overused_for_encoder = 2\<rparr>"

lemma told_to_all:
  "map fst calls = ks \<Longrightarrow> \<forall>(k, u)\<in>set calls. g u = c \<Longrightarrow> map (\<lambda>x. g (snd x)) calls = replicate (length ks) c"
  by (induction calls arbitrary: ks) auto

theorem observers_told_witness:
  "(\<exists>told. snd (OnNetworkEstimateChanged (recorder (\<lambda>k u. 0)) sample_rate (sample_allocator, [])) = told \<and>
      map fst told = [1, 2] \<and> map (\<lambda>c. up_is_overused_for_encoder (snd c)) told = [2, 2] \<and>
      (\<Sum>(k, u)\<leftarrow>told. up_target_bitrate u) \<le> 1000000) \<and>
   (\<exists>told. snd (AddObserver (recorder (\<lambda>k u. 0)) 3 (track_config (sample_track 3 30000 500000 False 2))
        (sample_allocator, [])) = told \<and>
      map fst told = [1, 2, 3] \<and> map (\<lambda>c. up_is_overused_for_encoder (snd c)) told = [0, 0, 0])"
proof -
  let ?config = "track_config (sample_track 3 30000 500000 False 2)"
  have a: "allocatable_tracks sample_allocator = sample_tracks" "last_target_bps sample_allocator = 500000"
    "tr_target_rate sample_rate = 1000000" "tr_is_overused_for_encoder sample_rate = 2"
    by (simp_all add: sample_allocator_def sample_rate_def)
  have m: "map observer sample_tracks = [1, 2]" "observer ` set sample_tracks = {1, 2}" "sample_tracks \<noteq> []"
    by (simp_all add: sample_tracks_def sample_track_def new_AllocatableTrack_def)
  have em: "(\<Sum>t\<leftarrow>sample_tracks. enforced_min t) = 6000" by code_simp
  note T = observers_told [of "\<lambda>k u. 0" sample_rate sample_allocator "[]" 3 ?config, unfolded a m append_Nil em]
  obtain c1 where c1: "snd (OnNetworkEstimateChanged (recorder (\<lambda>k u. 0)) sample_rate (sample_allocator, [])) = c1"
    "map fst c1 = [1, 2]" "\<forall>(k, u)\<in>set c1. up_is_overused_for_encoder u = 2"
    "(\<Sum>(k, u)\<leftarrow>c1. up_target_bitrate u) \<le> 1000000"
    using conjunct1 [OF T] sample_tracks_ok by (auto simp: split_beta)
  obtain c2 where c2: "snd (AddObserver (recorder (\<lambda>k u. 0)) 3 ?config (sample_allocator, [])) = c2"
    "map fst c2 = [1, 2, 3]" "\<forall>(k, u)\<in>set c2. up_is_overused_for_encoder u = 0"
    using conjunct2 [OF T] by (auto simp: split_beta)
  show ?thesis
    using c1 c2 told_to_all [OF c1(2,3)] told_to_all [OF c2(2,3)] by simp
qed

end
