(* ===== verification/BitrateAllocation.thy ===== *)
theory BitrateAllocation
  imports Prelude
begin

text \<open>
  The table of video bitrates per spatial and temporal layer,
  \<open>api/video/video_bitrate_allocation.cc\<close> and \<open>.h\<close>. An index outside the table
  fails an \<open>RTC_CHECK\<close>, which ends the process: such a call returns \<open>None\<close>.
\<close>

definition kMaxSpatialLayers :: nat where
  "kMaxSpatialLayers = 5"

definition kMaxTemporalStreams :: nat where
  "kMaxTemporalStreams = 4"

definition kMaxBitrateBps :: int where
  "kMaxBitrateBps = 2 ^ 32 - 1"

record VideoBitrateAllocation =
  vba_sum :: uint32_t
  bitrates :: "nat \<Rightarrow> nat \<Rightarrow> uint32_t option"
  is_bw_limited :: bool

definition VideoBitrateAllocation_init :: VideoBitrateAllocation where
  "VideoBitrateAllocation_init = \<lparr>vba_sum = 0, bitrates = (\<lambda>_ _. None), is_bw_limited = False\<rparr>"

definition value_or0 :: "uint32_t option \<Rightarrow> uint32_t" where
  "value_or0 x = (case x of None \<Rightarrow> 0 | Some b \<Rightarrow> b)"

definition in_table :: "nat \<Rightarrow> nat \<Rightarrow> bool" where
  "in_table si ti \<longleftrightarrow> si < kMaxSpatialLayers \<and> ti < kMaxTemporalStreams"

definition SetBitrate ::
  "VideoBitrateAllocation \<Rightarrow> nat \<Rightarrow> nat \<Rightarrow> uint32_t \<Rightarrow> (bool \<times> VideoBitrateAllocation) option" where
  "SetBitrate a si ti bitrate_bps =
     (if \<not> in_table si ti then None
      else
        let s0 = uint (vba_sum a);
            s1 = (case bitrates a si ti of None \<Rightarrow> s0 | Some b \<Rightarrow> s0 - uint b);
            new_bitrate_sum_bps = s1 + uint bitrate_bps
        in if kMaxBitrateBps < new_bitrate_sum_bps then Some (False, a)
           else Some (True,
             a\<lparr>bitrates := (bitrates a)(si := (bitrates a si)(ti := Some bitrate_bps)),
               vba_sum := word_of_int new_bitrate_sum_bps\<rparr>))"

definition HasBitrate :: "VideoBitrateAllocation \<Rightarrow> nat \<Rightarrow> nat \<Rightarrow> bool option" where
  "HasBitrate a si ti = (if in_table si ti then Some (bitrates a si ti \<noteq> None) else None)"

definition GetBitrate :: "VideoBitrateAllocation \<Rightarrow> nat \<Rightarrow> nat \<Rightarrow> uint32_t option" where
  "GetBitrate a si ti = (if in_table si ti then Some (value_or0 (bitrates a si ti)) else None)"

fun any_layer_set :: "VideoBitrateAllocation \<Rightarrow> nat \<Rightarrow> nat \<Rightarrow> nat \<Rightarrow> bool" where
  "any_layer_set a si i 0 = False"
| "any_layer_set a si i (Suc n) = (if bitrates a si i \<noteq> None then True else any_layer_set a si (Suc i) n)"

definition IsSpatialLayerUsed :: "VideoBitrateAllocation \<Rightarrow> nat \<Rightarrow> bool option" where
  "IsSpatialLayerUsed a si =
     (if si < kMaxSpatialLayers then Some (any_layer_set a si 0 kMaxTemporalStreams) else None)"

fun sum_layers :: "VideoBitrateAllocation \<Rightarrow> nat \<Rightarrow> nat \<Rightarrow> uint32_t" where
  "sum_layers a si 0 = 0"
| "sum_layers a si (Suc i) = sum_layers a si i + value_or0 (bitrates a si i)"

definition GetTemporalLayerSum :: "VideoBitrateAllocation \<Rightarrow> nat \<Rightarrow> nat \<Rightarrow> uint32_t option" where
  "GetTemporalLayerSum a si ti = (if in_table si ti then Some (sum_layers a si (Suc ti)) else None)"

definition GetSpatialLayerSum :: "VideoBitrateAllocation \<Rightarrow> nat \<Rightarrow> uint32_t option" where
  "GetSpatialLayerSum a si =
     (if si < kMaxSpatialLayers then GetTemporalLayerSum a si (kMaxTemporalStreams - 1) else None)"

fun allocation_size :: "VideoBitrateAllocation \<Rightarrow> nat \<Rightarrow> nat \<Rightarrow> nat" where
  "allocation_size a si 0 = 0"
| "allocation_size a si (Suc i) = (if bitrates a si i \<noteq> None then Suc i else allocation_size a si i)"

definition GetTemporalLayerAllocation :: "VideoBitrateAllocation \<Rightarrow> nat \<Rightarrow> uint32_t list option" where
  "GetTemporalLayerAllocation a si =
     (if si < kMaxSpatialLayers
      then Some (map (\<lambda>i. value_or0 (bitrates a si i)) [0 ..< allocation_size a si kMaxTemporalStreams])
      else None)"

text \<open>The result of \<open>SetBitrate\<close> is ignored here, as in the source.\<close>

definition copy_layer ::
  "VideoBitrateAllocation \<Rightarrow> nat \<Rightarrow> nat \<Rightarrow> VideoBitrateAllocation \<Rightarrow> VideoBitrateAllocation option" where
  "copy_layer a si ti layer =
     (case HasBitrate a si ti of
        None \<Rightarrow> None
      | Some False \<Rightarrow> Some layer
      | Some True \<Rightarrow>
          (case GetBitrate a si ti of
             None \<Rightarrow> None
           | Some b \<Rightarrow> map_option snd (SetBitrate layer 0 ti b)))"

fun copy_layers ::
  "VideoBitrateAllocation \<Rightarrow> nat \<Rightarrow> nat list \<Rightarrow> VideoBitrateAllocation \<Rightarrow> VideoBitrateAllocation option" where
  "copy_layers a si [] layer = Some layer"
| "copy_layers a si (ti # tis) layer =
     (case copy_layer a si ti layer of None \<Rightarrow> None | Some l \<Rightarrow> copy_layers a si tis l)"

definition simulcast_layer ::
  "VideoBitrateAllocation \<Rightarrow> nat \<Rightarrow> VideoBitrateAllocation option option" where
  "simulcast_layer a si =
     (case IsSpatialLayerUsed a si of
        None \<Rightarrow> None
      | Some False \<Rightarrow> Some None
      | Some True \<Rightarrow>
          map_option Some (copy_layers a si [0 ..< kMaxTemporalStreams] VideoBitrateAllocation_init))"

definition GetSimulcastAllocations ::
  "VideoBitrateAllocation \<Rightarrow> VideoBitrateAllocation option list option" where
  "GetSimulcastAllocations a =
     those (map (simulcast_layer a) [0 ..< kMaxSpatialLayers])"

definition get_sum_bps :: "VideoBitrateAllocation \<Rightarrow> uint32_t" where
  "get_sum_bps a = vba_sum a"

definition get_sum_kbps :: "VideoBitrateAllocation \<Rightarrow> uint32_t" where
  "get_sum_kbps a = vba_sum a div 1000"

definition allocation_eq :: "VideoBitrateAllocation \<Rightarrow> VideoBitrateAllocation \<Rightarrow> bool" where
  "allocation_eq a b =
     list_all (\<lambda>si. list_all (\<lambda>ti. bitrates a si ti = bitrates b si ti) [0 ..< kMaxTemporalStreams])
       [0 ..< kMaxSpatialLayers]"

definition set_bw_limited :: "VideoBitrateAllocation \<Rightarrow> bool \<Rightarrow> VideoBitrateAllocation" where
  "set_bw_limited a b = a\<lparr>is_bw_limited := b\<rparr>"

section \<open>Invariant\<close>

abbreviation rate :: "VideoBitrateAllocation \<Rightarrow> nat \<Rightarrow> nat \<Rightarrow> int" where
  "rate a si ti \<equiv> uint (value_or0 (bitrates a si ti))"

definition layer_total :: "VideoBitrateAllocation \<Rightarrow> nat \<Rightarrow> int" where
  "layer_total a si = (\<Sum>ti<kMaxTemporalStreams. rate a si ti)"

definition vba_ok :: "VideoBitrateAllocation \<Rightarrow> bool" where
  "vba_ok a \<longleftrightarrow> uint (vba_sum a) = (\<Sum>si<kMaxSpatialLayers. layer_total a si)"

lemma vba_ok_init: "vba_ok VideoBitrateAllocation_init"
  by (simp add: vba_ok_def VideoBitrateAllocation_init_def layer_total_def value_or0_def)

lemma layer_total_nonneg: "0 \<le> layer_total a si"
  by (simp add: layer_total_def sum_nonneg)

lemma layer_total_le:
  assumes "vba_ok a" "si < kMaxSpatialLayers"
  shows "layer_total a si \<le> uint (vba_sum a)"
  using assms member_le_sum [of si "{..<kMaxSpatialLayers}" "layer_total a"]
  by (simp add: vba_ok_def layer_total_nonneg)

lemma partial_le_layer_total:
  assumes "n \<le> kMaxTemporalStreams"
  shows "(\<Sum>ti<n. rate a si ti) \<le> layer_total a si"
  unfolding layer_total_def using assms by (intro sum_mono2) auto

lemma rate_le_layer_total:
  assumes "ti < kMaxTemporalStreams"
  shows "rate a si ti \<le> layer_total a si"
  unfolding layer_total_def using assms
  by (intro member_le_sum [of ti "{..<kMaxTemporalStreams}" "rate a si"]) auto

lemma uint_sum_layers:
  assumes "vba_ok a" "si < kMaxSpatialLayers" "n \<le> kMaxTemporalStreams"
  shows "uint (sum_layers a si n) = (\<Sum>ti<n. rate a si ti)"
  using assms(3)
proof (induction n)
  case (Suc n)
  have "(\<Sum>ti<Suc n. rate a si ti) \<le> uint (vba_sum a)"
    using partial_le_layer_total [OF Suc.prems, of a si] layer_total_le [OF assms(1,2)] by linarith
  also have "\<dots> < 2 ^ 32" using uint_lt2p [of "vba_sum a"] by simp
  finally have "uint (sum_layers a si n) + rate a si n < 2 ^ 32"
    using Suc by simp
  then have "uint (sum_layers a si n + value_or0 (bitrates a si n)) =
      uint (sum_layers a si n) + rate a si n"
    by (intro uint_add_lem [THEN iffD1]) simp
  then show ?case using Suc by simp
qed simp

lemma vba_ok_update:
  assumes ok: "vba_ok a" and i: "in_table si ti"
    and bound: "uint (vba_sum a) - rate a si ti + uint b \<le> kMaxBitrateBps"
  defines "a' \<equiv> a\<lparr>bitrates := (bitrates a)(si := (bitrates a si)(ti := Some b)),
                 vba_sum := word_of_int (uint (vba_sum a) - rate a si ti + uint b)\<rparr>"
  shows "vba_ok a' \<and> uint (vba_sum a') = uint (vba_sum a) - rate a si ti + uint b"
proof -
  have idx: "si < kMaxSpatialLayers" "ti < kMaxTemporalStreams"
    using i by (auto simp: in_table_def)
  have "rate a si ti \<le> uint (vba_sum a)"
    using rate_le_layer_total [OF idx(2), of a si] layer_total_le [OF ok idx(1)] by linarith
  moreover have "vba_sum a' = word_of_int (uint (vba_sum a) - rate a si ti + uint b)"
    by (simp add: a'_def)
  ultimately have s: "uint (vba_sum a') = uint (vba_sum a) - rate a si ti + uint b"
    using bound uint_word_of_int_id [of "uint (vba_sum a) - rate a si ti + uint b", where 'a = 32]
    by (simp only: kMaxBitrateBps_def) (simp add: add_nonneg_nonneg)
  have "layer_total a' si = layer_total a si - rate a si ti + uint b"
    unfolding layer_total_def
    by (subst sum_update_one [OF idx(2), of "rate a' si" "rate a si"])
       (auto simp: a'_def value_or0_def)
  moreover have "layer_total a' k = layer_total a k" if "k \<noteq> si" for k
    using that by (simp add: layer_total_def a'_def)
  ultimately have "(\<Sum>k<kMaxSpatialLayers. layer_total a' k) =
      (\<Sum>k<kMaxSpatialLayers. layer_total a k) - rate a si ti + uint b"
    by (subst sum_update_one [OF idx(1), of "layer_total a'" "layer_total a"]) auto
  then show ?thesis using s ok by (simp add: vba_ok_def)
qed

lemma SetBitrate_eq:
  assumes "in_table si ti"
  shows "SetBitrate a si ti b =
    (if kMaxBitrateBps < uint (vba_sum a) - rate a si ti + uint b then Some (False, a)
     else Some (True,
       a\<lparr>bitrates := (bitrates a)(si := (bitrates a si)(ti := Some b)),
         vba_sum := word_of_int (uint (vba_sum a) - rate a si ti + uint b)\<rparr>))"
  using assms by (auto simp: SetBitrate_def Let_def value_or0_def split: option.splits)

lemma uint_GetSpatialLayerSum:
  assumes "vba_ok a" "si < kMaxSpatialLayers"
  shows "map_option uint (GetSpatialLayerSum a si) = Some (layer_total a si)"
proof -
  have "Suc (kMaxTemporalStreams - 1) = kMaxTemporalStreams" by (simp add: kMaxTemporalStreams_def)
  then show ?thesis
    using uint_sum_layers [OF assms order_refl] assms(2)
    by (simp add: GetSpatialLayerSum_def GetTemporalLayerSum_def in_table_def layer_total_def
        kMaxTemporalStreams_def del: sum_layers.simps)
qed

section \<open>Properties\<close>

text \<open>
  C31. \<open>SetBitrate\<close> keeps the cached sum equal to the sum of the table. It refuses exactly the
  updates that would push that sum beyond 32 bits, leaving the table as it was, and otherwise
  changes the one entry.
\<close>

theorem SetBitrate_correct:
  assumes "vba_ok a" "in_table si ti"
  shows "\<exists>ok a'. SetBitrate a si ti b = Some (ok, a') \<and> vba_ok a' \<and>
    (ok \<longleftrightarrow> uint (vba_sum a) - rate a si ti + uint b \<le> kMaxBitrateBps) \<and>
    (if ok then bitrates a' = (bitrates a)(si := (bitrates a si)(ti := Some b)) \<and>
                uint (vba_sum a') = uint (vba_sum a) - rate a si ti + uint b
     else a' = a)"
  using vba_ok_update [OF assms] assms by (auto simp: SetBitrate_eq)

definition sample_allocation :: VideoBitrateAllocation where
  "sample_allocation = VideoBitrateAllocation_init
     \<lparr>vba_sum := 500, bitrates := (\<lambda>_ _. None)(1 := (\<lambda>_. None)(2 := Some 500))\<rparr>"

lemma sample_allocation_ok: "vba_ok sample_allocation"
  by (simp add: vba_ok_def layer_total_def sample_allocation_def value_or0_def
      kMaxSpatialLayers_def kMaxTemporalStreams_def eval_nat_numeral)

theorem SetBitrate_correct_witness:
  "\<exists>ok a'. SetBitrate sample_allocation 1 2 700 = Some (ok, a') \<and> vba_ok a' \<and> ok \<and>
     uint (vba_sum a') = 700"
proof -
  have "in_table 1 2" by (simp add: in_table_def kMaxSpatialLayers_def kMaxTemporalStreams_def)
  then show ?thesis
    using SetBitrate_correct [OF sample_allocation_ok, of 1 2 700]
    by (auto simp: sample_allocation_def value_or0_def kMaxBitrateBps_def split: if_splits)
qed

text \<open>
  C32. On a consistent table the 32-bit layer sums never wrap: each is the exact sum of its
  layers and is bounded by the cached total.
\<close>

theorem layer_sums_exact:
  assumes "vba_ok a" "in_table si ti"
  shows "map_option uint (GetTemporalLayerSum a si ti) = Some (\<Sum>k\<le>ti. rate a si k) \<and>
    map_option uint (GetSpatialLayerSum a si) = Some (layer_total a si) \<and>
    (\<Sum>k\<le>ti. rate a si k) \<le> layer_total a si \<and> layer_total a si \<le> uint (get_sum_bps a)"
proof -
  have idx: "si < kMaxSpatialLayers" "ti < kMaxTemporalStreams"
    using assms(2) by (auto simp: in_table_def)
  have u: "uint (sum_layers a si (Suc k)) = (\<Sum>j\<le>k. rate a si j)" if "k < kMaxTemporalStreams" for k
    using uint_sum_layers [OF assms(1) idx(1), of "Suc k"] that by (simp only: lessThan_Suc_atMost Suc_leI)
  show ?thesis
    using u [OF idx(2)] uint_GetSpatialLayerSum [OF assms(1) idx(1)] assms partial_le_layer_total [of "Suc ti" a si] idx layer_total_le [OF assms(1) idx(1)]
    by (simp add: GetTemporalLayerSum_def get_sum_bps_def lessThan_Suc_atMost)
qed

theorem layer_sums_exact_witness:
  "map_option uint (GetTemporalLayerSum sample_allocation 1 2) = Some (\<Sum>k\<le>2. rate sample_allocation 1 k)"
proof -
  have "in_table 1 2" by (simp add: in_table_def kMaxSpatialLayers_def kMaxTemporalStreams_def)
  then show ?thesis using layer_sums_exact [OF sample_allocation_ok] by blast
qed

section \<open>Simulcast view\<close>

lemma copy_layers_append:
  "copy_layers a si (xs @ ys) l =
     (case copy_layers a si xs l of None \<Rightarrow> None | Some l' \<Rightarrow> copy_layers a si ys l')"
  by (induction xs arbitrary: l) (auto split: option.splits)

definition layer_copy :: "VideoBitrateAllocation \<Rightarrow> nat \<Rightarrow> nat \<Rightarrow> VideoBitrateAllocation" where
  "layer_copy a si n = VideoBitrateAllocation_init
     \<lparr>vba_sum := word_of_int (\<Sum>ti<n. rate a si ti),
      bitrates := (\<lambda>_ _. None)(0 := \<lambda>ti. if ti < n then bitrates a si ti else None)\<rparr>"

lemma uint_layer_copy_sum:
  assumes "vba_ok a" "si < kMaxSpatialLayers" "n \<le> kMaxTemporalStreams"
  shows "uint (word_of_int (\<Sum>ti<n. rate a si ti) :: uint32_t) = (\<Sum>ti<n. rate a si ti)"
proof (rule uint_word_of_int_id)
  show "0 \<le> (\<Sum>ti<n. rate a si ti)" by (simp add: sum_nonneg)
  have "(\<Sum>ti<n. rate a si ti) \<le> uint (vba_sum a)"
    using partial_le_layer_total [OF assms(3), of a si] layer_total_le [OF assms(1,2)] by linarith
  also have "\<dots> < 2 ^ LENGTH(32)" by (rule uint_lt2p)
  finally show "(\<Sum>ti<n. rate a si ti) < 2 ^ LENGTH(32)" .
qed

lemma copy_layer_step:
  assumes "vba_ok a" "si < kMaxSpatialLayers" "n < kMaxTemporalStreams"
  shows "copy_layer a si n (layer_copy a si n) = Some (layer_copy a si (Suc n))"
proof (cases "bitrates a si n")
  case None
  then have "(\<lambda>ti. if ti < Suc n then bitrates a si ti else None) =
      (\<lambda>ti. if ti < n then bitrates a si ti else None)"
    by (auto simp: less_Suc_eq)
  with None assms show ?thesis
    by (simp add: copy_layer_def HasBitrate_def in_table_def layer_copy_def value_or0_def)
next
  case (Some b)
  have tab: "in_table si n" "in_table 0 n"
    using assms by (simp_all add: in_table_def kMaxSpatialLayers_def)
  have rb: "rate a si n = uint b" using Some by (simp add: value_or0_def)
  have r0: "rate (layer_copy a si n) 0 n = 0" by (simp add: layer_copy_def value_or0_def)
  have sn: "uint (vba_sum (layer_copy a si n)) = (\<Sum>ti<n. rate a si ti)"
    using uint_layer_copy_sum [OF assms(1,2), of n] assms(3) by (simp add: layer_copy_def)
  have "(\<Sum>ti<Suc n. rate a si ti) \<le> uint (vba_sum a)"
    using partial_le_layer_total [of "Suc n" a si] layer_total_le [OF assms(1,2)] assms(3) by linarith
  also have "\<dots> \<le> kMaxBitrateBps"
    using uint_lt2p [of "vba_sum a"] by (simp add: kMaxBitrateBps_def)
  finally have "(\<Sum>ti<n. rate a si ti) + uint b \<le> kMaxBitrateBps" by (simp add: rb)
  then have "SetBitrate (layer_copy a si n) 0 n b = Some (True, layer_copy a si (Suc n))"
    unfolding SetBitrate_eq [OF tab(2)] sn r0
    by (simp add: layer_copy_def VideoBitrateAllocation_init_def rb less_Suc_eq Some fun_eq_iff value_or0_def)
  then show ?thesis
    using Some tab by (simp add: copy_layer_def HasBitrate_def GetBitrate_def value_or0_def)
qed

lemma copy_layers_all:
  assumes "vba_ok a" "si < kMaxSpatialLayers" "n \<le> kMaxTemporalStreams"
  shows "copy_layers a si [0 ..< n] VideoBitrateAllocation_init = Some (layer_copy a si n)"
  using assms(3)
proof (induction n)
  case 0
  then show ?case
    by (simp add: layer_copy_def VideoBitrateAllocation_init_def fun_upd_def)
next
  case (Suc n)
  then show ?case
    using copy_layer_step [OF assms(1,2), of n] by (simp add: copy_layers_append)
qed

lemma any_layer_set_iff:
  "any_layer_set a si i n \<longleftrightarrow> (\<exists>k \<in> {i ..< i + n}. bitrates a si k \<noteq> None)"
proof (induction n arbitrary: i)
  case (Suc n)
  have "{i ..< i + Suc n} = insert i {Suc i ..< Suc i + n}" by auto
  then show ?case using Suc by (auto simp del: bex_simps)
qed simp

lemma simulcast_layer_eq:
  assumes "vba_ok a" "si < kMaxSpatialLayers"
  shows "simulcast_layer a si = Some
    (if \<exists>ti<kMaxTemporalStreams. bitrates a si ti \<noteq> None
     then Some (layer_copy a si kMaxTemporalStreams) else None)"
  using copy_layers_all [OF assms order_refl] assms(2)
  by (simp add: simulcast_layer_def IsSpatialLayerUsed_def any_layer_set_iff atLeast0LessThan Bex_def
      split: bool.split)

lemma those_map_Some: "(\<And>x. x \<in> set xs \<Longrightarrow> f x = Some (g x)) \<Longrightarrow> those (map f xs) = Some (map g xs)"
  by (induction xs) auto

lemma layer_copy_ok:
  assumes "vba_ok a" "si < kMaxSpatialLayers"
  shows "vba_ok (layer_copy a si kMaxTemporalStreams)"
    and "uint (vba_sum (layer_copy a si kMaxTemporalStreams)) = layer_total a si"
proof -
  let ?l = "layer_copy a si kMaxTemporalStreams"
  show s: "uint (vba_sum ?l) = layer_total a si"
    using uint_layer_copy_sum [OF assms order_refl] by (simp add: layer_copy_def layer_total_def)
  have "layer_total ?l 0 = layer_total a si"
    by (simp add: layer_total_def layer_copy_def)
  moreover have "layer_total ?l k = 0" if "k \<noteq> 0" for k
    using that by (simp add: layer_total_def layer_copy_def value_or0_def)
  ultimately show "vba_ok ?l"
    using s by (simp add: vba_ok_def kMaxSpatialLayers_def eval_nat_numeral)
qed

text \<open>
  C33. The simulcast view of a consistent table has one entry per spatial layer. The entry is
  empty exactly for an unused layer; otherwise it is itself a consistent table, holds the layer's
  rates as its layer 0 and has the layer's sum as its total.
\<close>

theorem GetSimulcastAllocations_correct:
  assumes "vba_ok a"
  shows "\<exists>ls. GetSimulcastAllocations a = Some ls \<and> length ls = kMaxSpatialLayers \<and>
    (\<forall>si<kMaxSpatialLayers.
       (ls ! si = None) = (IsSpatialLayerUsed a si = Some False) \<and>
       (\<forall>l. ls ! si = Some l \<longrightarrow> vba_ok l \<and> GetSpatialLayerSum a si = Some (get_sum_bps l) \<and>
          (\<forall>ti<kMaxTemporalStreams. bitrates l 0 ti = bitrates a si ti)))"
proof -
  define g where "g si = (if \<exists>ti<kMaxTemporalStreams. bitrates a si ti \<noteq> None
     then Some (layer_copy a si kMaxTemporalStreams) else None)" for si
  have "GetSimulcastAllocations a = Some (map g [0 ..< kMaxSpatialLayers])"
    unfolding GetSimulcastAllocations_def
    by (rule those_map_Some) (simp add: simulcast_layer_eq [OF assms] g_def)
  moreover have "(g si = None) = (IsSpatialLayerUsed a si = Some False)" if "si < kMaxSpatialLayers" for si
    using that by (simp add: g_def IsSpatialLayerUsed_def any_layer_set_iff atLeast0LessThan Ball_def)
  moreover have "vba_ok l \<and> GetSpatialLayerSum a si = Some (get_sum_bps l) \<and>
      (\<forall>ti<kMaxTemporalStreams. bitrates l 0 ti = bitrates a si ti)"
    if si: "si < kMaxSpatialLayers" and l: "g si = Some l" for si l
  proof -
    have l: "l = layer_copy a si kMaxTemporalStreams" using l by (simp add: g_def split: if_splits)
    have "uint (sum_layers a si kMaxTemporalStreams) = uint (vba_sum l)"
      using uint_sum_layers [OF assms si order_refl] layer_copy_ok(2) [OF assms si]
      by (simp add: l layer_total_def)
    then have "sum_layers a si (Suc (kMaxTemporalStreams - 1)) = get_sum_bps l"
      by (intro word_uint_eqI) (simp add: get_sum_bps_def kMaxTemporalStreams_def)
    then have "GetSpatialLayerSum a si = Some (get_sum_bps l)"
      using si by (simp add: GetSpatialLayerSum_def GetTemporalLayerSum_def in_table_def
          kMaxTemporalStreams_def del: sum_layers.simps)
    then show ?thesis using layer_copy_ok(1) [OF assms si] by (simp add: l layer_copy_def)
  qed
  ultimately show ?thesis by (intro exI [of _ "map g [0 ..< kMaxSpatialLayers]"]) simp
qed

theorem GetSimulcastAllocations_correct_witness:
  "\<exists>ls l. GetSimulcastAllocations sample_allocation = Some ls \<and> ls ! 0 = None \<and>
     ls ! 1 = Some l \<and> bitrates l 0 2 = Some 500"
proof -
  obtain ls where ls: "GetSimulcastAllocations sample_allocation = Some ls"
    "\<forall>si<kMaxSpatialLayers.
       (ls ! si = None) = (IsSpatialLayerUsed sample_allocation si = Some False) \<and>
       (\<forall>l. ls ! si = Some l \<longrightarrow> vba_ok l \<and> GetSpatialLayerSum sample_allocation si = Some (get_sum_bps l) \<and>
          (\<forall>ti<kMaxTemporalStreams. bitrates l 0 ti = bitrates sample_allocation si ti))"
    using GetSimulcastAllocations_correct [OF sample_allocation_ok] by blast
  have "IsSpatialLayerUsed sample_allocation 0 = Some False"
    "IsSpatialLayerUsed sample_allocation 1 = Some True"
    by (simp_all add: IsSpatialLayerUsed_def kMaxSpatialLayers_def kMaxTemporalStreams_def
        sample_allocation_def eval_nat_numeral)
  then have "ls ! 0 = None" "ls ! 1 \<noteq> None" using ls(2) by (auto simp: kMaxSpatialLayers_def)
  moreover from this obtain l where l: "ls ! 1 = Some l" by auto
  moreover have "bitrates l 0 2 = bitrates sample_allocation 1 2"
    using ls(2) l by (simp add: kMaxSpatialLayers_def kMaxTemporalStreams_def)
  ultimately show ?thesis using ls(1) by (auto simp: sample_allocation_def)
qed

end
