(* ===== verification/SimulcastRate.thy ===== *)
theory SimulcastRate
  imports Units BitrateAllocation "HOL-Library.Monad_Syntax"
begin

text \<open>
  The codec configuration (\<open>api/video_codecs/video_codec.h\<close>, \<open>simulcast_stream.h\<close>), the simulcast
  checks of \<open>modules/video_coding/utility/simulcast_utility.cc\<close> and the split of a target rate over
  simulcast streams and temporal layers of \<open>simulcast_rate_allocator.cc\<close>. The field trials the
  allocator reads at construction are fields of its record. \<^term>\<open>None\<close> is a failed \<open>RTC_CHECK\<close>, a
  read outside the array of streams or of an inactive union member.
\<close>

section \<open>Codec configuration\<close>

datatype VideoCodecType =
  kVideoCodecGeneric | kVideoCodecVP8 | kVideoCodecVP9 | kVideoCodecAV1 | kVideoCodecH264
| kVideoCodecMultiplex | kVideoCodecH265

datatype VideoCodecMode = kRealtimeVideo | kScreensharing

record SimulcastStream =
  ss_width :: int
  ss_height :: int
  ss_maxFramerate :: rat
  ss_numberOfTemporalLayers :: uint8_t
  ss_maxBitrate :: uint32_t
  ss_targetBitrate :: uint32_t
  ss_minBitrate :: uint32_t
  ss_qpMax :: uint32_t
  ss_active :: bool

text \<open>The codec-specific union, with the members that the modelled code reads.\<close>

datatype VideoCodecUnion =
  VP8_specific uint8_t
| H264_specific int uint8_t
| Other_specific

record VideoCodec =
  vc_codecType :: VideoCodecType
  vc_width :: uint16_t
  vc_height :: uint16_t
  vc_startBitrate :: uint32_t
  vc_maxBitrate :: uint32_t
  vc_minBitrate :: uint32_t
  vc_maxFramerate :: uint32_t
  vc_active :: bool
  vc_numberOfSimulcastStreams :: uint8_t
  vc_simulcastStream :: "SimulcastStream list"
  vc_mode :: VideoCodecMode
  vc_codec_specific :: VideoCodecUnion
  vc_frame_drop_enabled :: bool

definition kMaxSimulcastStreams :: nat where
  "kMaxSimulcastStreams = 3"

definition SimulcastStream_init :: SimulcastStream where
  "SimulcastStream_init = \<lparr>ss_width = 0, ss_height = 0, ss_maxFramerate = 0, ss_numberOfTemporalLayers = 1,
     ss_maxBitrate = 0, ss_targetBitrate = 0, ss_minBitrate = 0, ss_qpMax = 0, ss_active = False\<rparr>"

definition VideoCodec_init :: VideoCodec where
  "VideoCodec_init = \<lparr>vc_codecType = kVideoCodecGeneric, vc_width = 0, vc_height = 0, vc_startBitrate = 0,
     vc_maxBitrate = 0, vc_minBitrate = 0, vc_maxFramerate = 0, vc_active = True,
     vc_numberOfSimulcastStreams = 0,
     vc_simulcastStream = replicate kMaxSimulcastStreams SimulcastStream_init,
     vc_mode = kRealtimeVideo, vc_codec_specific = VP8_specific 0, vc_frame_drop_enabled = False\<rparr>"

definition stream_at :: "VideoCodec \<Rightarrow> nat \<Rightarrow> SimulcastStream option" where
  "stream_at c i = (if i < length (vc_simulcastStream c) then Some (vc_simulcastStream c ! i) else None)"

fun H264_codec :: "VideoCodecUnion \<Rightarrow> (int \<times> uint8_t) option" where
  "H264_codec (H264_specific keyFrameInterval numberOfTemporalLayers) = Some (keyFrameInterval, numberOfTemporalLayers)"
| "H264_codec _ = None"

fun VP8_numberOfTemporalLayers :: "VideoCodecUnion \<Rightarrow> uint8_t option" where
  "VP8_numberOfTemporalLayers (VP8_specific n) = Some n"
| "VP8_numberOfTemporalLayers _ = None"

section \<open>Simulcast checks\<close>

fun SumStreamMaxBitrate :: "nat \<Rightarrow> VideoCodec \<Rightarrow> uint32_t option" where
  "SumStreamMaxBitrate 0 c = Some 0"
| "SumStreamMaxBitrate (Suc i) c = do {
     bitrate_sum \<leftarrow> SumStreamMaxBitrate i c;
     stream \<leftarrow> stream_at c i;
     Some (bitrate_sum + ss_maxBitrate stream) }"

definition NumberOfSimulcastStreams :: "VideoCodec \<Rightarrow> nat option" where
  "NumberOfSimulcastStreams c =
     (let streams = (if vc_numberOfSimulcastStreams c < 1 then 1 else unat (vc_numberOfSimulcastStreams c))
      in do {
        simulcast_max_bitrate \<leftarrow> SumStreamMaxBitrate streams c;
        Some (if simulcast_max_bitrate = 0 then 1 else streams) })"

text \<open>The first read is at the highest index, so it decides whether all reads are in range.\<close>

definition ValidSimulcastParameters :: "VideoCodec \<Rightarrow> nat \<Rightarrow> bool option" where
  "ValidSimulcastParameters c num_streams =
     (let s = vc_simulcastStream c; w = uint (vc_width c); h = uint (vc_height c)
      in if num_streams = 0 \<or> length s < num_streams then None
         else Some (
           if w \<noteq> ss_width (s ! (num_streams - 1)) \<or> h \<noteq> ss_height (s ! (num_streams - 1)) then False
           else if \<exists>i \<in> set [0 ..< num_streams]. w * ss_height (s ! i) \<noteq> h * ss_width (s ! i) then False
           else if \<exists>i \<in> set [1 ..< num_streams]. ss_width (s ! i) < ss_width (s ! (i - 1)) then False
           else if \<exists>i \<in> set [1 ..< num_streams].
               f64 (1/1000000000) < \<bar>f32 (ss_maxFramerate (s ! i) - ss_maxFramerate (s ! (i - 1)))\<bar> then False
           else if \<exists>i \<in> set [0 ..< num_streams - 1].
               ss_numberOfTemporalLayers (s ! i) \<noteq> ss_numberOfTemporalLayers (s ! (i + 1)) then False
           else True))"

section \<open>Temporal layers\<close>

definition kLayerRateAllocation :: "rat list list" where
  "kLayerRateAllocation =
     [[1, 1, 1, 1],
      [f32 (6/10), 1, 1, 1],
      [f32 (4/10), f32 (6/10), 1, 1],
      [f32 (25/100), f32 (4/10), f32 (6/10), 1]]"

definition kBaseHeavy3TlRateAllocation :: "rat list" where
  "kBaseHeavy3TlRateAllocation = [f32 (6/10), f32 (8/10), 1, 1]"

definition kLegacyScreenshareTl0BitrateKbps :: uint32_t where
  "kLegacyScreenshareTl0BitrateKbps = 200"

definition kLegacyScreenshareTl1BitrateKbps :: uint32_t where
  "kLegacyScreenshareTl1BitrateKbps = 1000"

definition GetTemporalRateAllocation :: "nat \<Rightarrow> nat \<Rightarrow> bool \<Rightarrow> rat option" where
  "GetTemporalRateAllocation num_layers temporal_id base_heavy_tl3_alloc =
     (if \<not> 0 < num_layers \<or> \<not> num_layers \<le> kMaxTemporalStreams \<or> \<not> temporal_id < num_layers then None
      else if num_layers = 3 \<and> base_heavy_tl3_alloc then Some (kBaseHeavy3TlRateAllocation ! temporal_id)
      else Some (kLayerRateAllocation ! (num_layers - 1) ! temporal_id))"

text \<open>\<open>static_cast<uint32_t>(layer_bitrate + 0.5)\<close> of the \<open>float\<close> product.\<close>

definition layer_cumulative :: "int \<Rightarrow> rat \<Rightarrow> uint32_t" where
  "layer_cumulative bitrate_kbps fraction =
     (let layer_bitrate = f32 (f32 (of_int bitrate_kbps) * fraction)
      in word_of_int (trunc (dadd layer_bitrate (1/2))))"

fun to_individual :: "uint32_t \<Rightarrow> uint32_t \<Rightarrow> uint32_t list \<Rightarrow> uint32_t list" where
  "to_individual bitrate_kbps acc [] = []"
| "to_individual bitrate_kbps acc (layer_bitrate # rest) =
     (if bitrate_kbps \<le> layer_bitrate then [layer_bitrate - acc]
      else (layer_bitrate - acc) # to_individual bitrate_kbps layer_bitrate rest)"

definition DefaultTemporalLayerAllocation :: "bool \<Rightarrow> nat \<Rightarrow> int \<Rightarrow> uint32_t list option" where
  "DefaultTemporalLayerAllocation base_heavy num_temporal_layers bitrate_kbps = do {
     fractions \<leftarrow> those (map (\<lambda>i. GetTemporalRateAllocation num_temporal_layers i base_heavy)
       [0 ..< num_temporal_layers]);
     Some (to_individual (word_of_int bitrate_kbps) 0 (map (layer_cumulative bitrate_kbps) fractions)) }"

definition ScreenshareTemporalLayerAllocation ::
  "bool \<Rightarrow> nat \<Rightarrow> int \<Rightarrow> int \<Rightarrow> nat \<Rightarrow> uint32_t list option" where
  "ScreenshareTemporalLayerAllocation base_heavy num_temporal_layers bitrate_kbps max_bitrate_kbps simulcast_id =
     (if simulcast_id > 0 then DefaultTemporalLayerAllocation base_heavy num_temporal_layers bitrate_kbps
      else Some (word_of_int bitrate_kbps #
        (if max_bitrate_kbps > bitrate_kbps then [word_of_int (max_bitrate_kbps - bitrate_kbps)] else [])))"

section \<open>The allocator\<close>

record SimulcastRateAllocator =
  sra_codec :: VideoCodec
  stable_rate_enabled :: bool
  video_hysteresis_factor :: rat
  screenshare_hysteresis_factor :: rat
  vp8_base_heavy_tl3_alloc :: bool
  stream_enabled :: "bool list"
  legacy_conference_mode :: bool

definition SimulcastRateAllocator_init ::
  "VideoCodec \<Rightarrow> bool \<Rightarrow> rat \<Rightarrow> rat \<Rightarrow> bool \<Rightarrow> SimulcastRateAllocator" where
  "SimulcastRateAllocator_init codec enabled video_hysteresis screenshare_hysteresis base_heavy =
     \<lparr>sra_codec = codec, stable_rate_enabled = enabled, video_hysteresis_factor = video_hysteresis,
      screenshare_hysteresis_factor = screenshare_hysteresis, vp8_base_heavy_tl3_alloc = base_heavy,
      stream_enabled = [], legacy_conference_mode = False\<rparr>"

definition SetLegacyConferenceMode :: "SimulcastRateAllocator \<Rightarrow> bool \<Rightarrow> SimulcastRateAllocator" where
  "SetLegacyConferenceMode s enabled = s\<lparr>legacy_conference_mode := enabled\<rparr>"

definition NumTemporalStreams :: "SimulcastRateAllocator \<Rightarrow> nat \<Rightarrow> nat option" where
  "NumTemporalStreams s simulcast_id =
     (let c = sra_codec s in do {
        n \<leftarrow> (if vc_codecType c = kVideoCodecVP8 \<and> vc_numberOfSimulcastStreams c = 0
             then VP8_numberOfTemporalLayers (vc_codec_specific c)
             else map_option ss_numberOfTemporalLayers (stream_at c simulcast_id));
        Some (unat (max 1 n)) })"

text \<open>The variables of the loop over the simulcast streams.\<close>

record alloc_state =
  left_total :: int
  left_stable :: int
  top_active_layer :: nat
  enabled :: "bool list"
  allocated :: VideoBitrateAllocation

definition layer_index :: "VideoCodec \<Rightarrow> nat list" where
  "layer_index c = sort_key (\<lambda>i. ss_maxBitrate (vc_simulcastStream c ! i))
     [0 ..< unat (vc_numberOfSimulcastStreams c)]"

fun skip_inactive :: "VideoCodec \<Rightarrow> nat \<Rightarrow> nat list \<Rightarrow> (nat \<times> nat list) option" where
  "skip_inactive c pos [] = Some (pos, [])"
| "skip_inactive c pos (i # is) = do {
     stream \<leftarrow> stream_at c i;
     if ss_active stream then Some (pos, i # is) else skip_inactive c (Suc pos) is }"

definition layer_min_bitrate :: "SimulcastRateAllocator \<Rightarrow> bool \<Rightarrow> bool \<Rightarrow> SimulcastStream \<Rightarrow> int" where
  "layer_min_bitrate s first_allocation was_enabled stream =
     (let min_bitrate = KilobitsPerSec (uint (ss_minBitrate stream));
          target_bitrate = KilobitsPerSec (uint (ss_targetBitrate stream));
          hysteresis_factor = (if vc_mode (sra_codec s) = kRealtimeVideo then video_hysteresis_factor s
                               else screenshare_hysteresis_factor s)
      in if \<not> first_allocation \<and> \<not> was_enabled
         then min (unit_times_double min_bitrate hysteresis_factor) target_bitrate
         else min_bitrate)"

fun allocate_layers ::
  "SimulcastRateAllocator \<Rightarrow> bool \<Rightarrow> nat list \<Rightarrow> alloc_state \<Rightarrow> (nat list \<times> alloc_state) option" where
  "allocate_layers s first [] st = Some ([], st)"
| "allocate_layers s first (i # is) st = do {
     stream \<leftarrow> stream_at (sra_codec s) i;
     if \<not> ss_active stream then allocate_layers s first is (st\<lparr>enabled := (enabled st)[i := False]\<rparr>)
     else if left_stable st < layer_min_bitrate s first (enabled st ! i) stream
       then Some (i # is, st\<lparr>allocated := set_bw_limited (allocated st) True\<rparr>)
     else do {
       let target_bitrate = KilobitsPerSec (uint (ss_targetBitrate stream));
       let layer_rate = min (left_total st) target_bitrate;
       (_, a) \<leftarrow> SetBitrate (allocated st) i 0 (word_of_int layer_rate);
       allocate_layers s first is
         (st\<lparr>top_active_layer := i, enabled := (enabled st)[i := True], allocated := a,
             left_total := unit_minus (left_total st) layer_rate,
             left_stable := unit_minus (left_stable st) (min (left_stable st) target_bitrate)\<rparr>) } }"

fun disable_layers :: "nat list \<Rightarrow> bool list \<Rightarrow> bool list" where
  "disable_layers [] en = en"
| "disable_layers (i # is) en = disable_layers is (en[i := False])"

definition allocate_rest :: "VideoCodec \<Rightarrow> alloc_state \<Rightarrow> VideoBitrateAllocation option" where
  "allocate_rest c st =
     (if left_total st > 0 then do {
        stream \<leftarrow> stream_at c (top_active_layer st);
        initial_layer_rate \<leftarrow> map_option uint (GetSpatialLayerSum (allocated st) (top_active_layer st));
        let additional_allocation =
          min (left_total st) (unit_minus (KilobitsPerSec (uint (ss_maxBitrate stream))) initial_layer_rate);
        (_, a) \<leftarrow> SetBitrate (allocated st) (top_active_layer st) 0
          (word_of_int (unit_plus initial_layer_rate additional_allocation));
        Some a }
      else Some (allocated st))"

definition DistributeAllocationToSimulcastLayers ::
  "SimulcastRateAllocator \<Rightarrow> int \<Rightarrow> int \<Rightarrow> VideoBitrateAllocation \<Rightarrow>
   (SimulcastRateAllocator \<times> VideoBitrateAllocation) option" where
  "DistributeAllocationToSimulcastLayers s total_bitrate stable_bitrate allocated_bitrates =
     (let c = sra_codec s;
          max_rate = KilobitsPerSec (uint (vc_maxBitrate c));
          left_in_total = (if vc_maxBitrate c \<noteq> 0 then min total_bitrate max_rate else total_bitrate);
          left_in_stable = (if vc_maxBitrate c \<noteq> 0 then min stable_bitrate max_rate else stable_bitrate);
          n = unat (vc_numberOfSimulcastStreams c)
      in if n = 0 then
           (if vc_active c then do {
              (_, a) \<leftarrow> SetBitrate allocated_bitrates 0 0
                (word_of_int (max (KilobitsPerSec (uint (vc_minBitrate c))) left_in_total));
              Some (s, a) }
            else Some (s, allocated_bitrates))
         else if length (vc_simulcastStream c) < n then None
         else do {
           (pos, layers) \<leftarrow> skip_inactive c 0 (layer_index c);
           if layers = [] then Some (s, allocated_bitrates)
           else do {
             stream \<leftarrow> stream_at c (hd layers);
             let min_rate = KilobitsPerSec (uint (ss_minBitrate stream));
             let first_allocation = (stream_enabled s = []);
             let st = \<lparr>left_total = max left_in_total min_rate, left_stable = max left_in_stable min_rate,
                       top_active_layer = pos,
                       enabled = (if first_allocation then replicate n False else stream_enabled s),
                       allocated = allocated_bitrates\<rparr>;
             (rest, st') \<leftarrow> allocate_layers s first_allocation layers st;
             a \<leftarrow> allocate_rest c st';
             Some (s\<lparr>stream_enabled := disable_layers rest (enabled st')\<rparr>, a) } })"

fun set_temporal_rates ::
  "VideoBitrateAllocation \<Rightarrow> nat \<Rightarrow> nat \<Rightarrow> uint32_t list \<Rightarrow> VideoBitrateAllocation option" where
  "set_temporal_rates a simulcast_id tl_index [] = Some a"
| "set_temporal_rates a simulcast_id tl_index (layer_rate_kbps # rest) = do {
     a' \<leftarrow> (if layer_rate_kbps > 0
           then map_option snd (SetBitrate a simulcast_id tl_index (layer_rate_kbps * 1000))
           else Some a);
     set_temporal_rates a' simulcast_id (Suc tl_index) rest }"

definition temporal_rates ::
  "SimulcastRateAllocator \<Rightarrow> nat \<Rightarrow> nat \<Rightarrow> uint32_t \<Rightarrow> uint32_t list option" where
  "temporal_rates s num_spatial_streams simulcast_id target_bitrate_kbps =
     (let c = sra_codec s;
          legacy = (vc_mode c = kScreensharing \<and> legacy_conference_mode s \<and> simulcast_id = 0)
      in do {
        num_temporal_streams \<leftarrow> NumTemporalStreams s simulcast_id;
        (target, max_bitrate_kbps) \<leftarrow>
          (if legacy then Some (min kLegacyScreenshareTl0BitrateKbps target_bitrate_kbps,
                                min kLegacyScreenshareTl1BitrateKbps target_bitrate_kbps)
           else if num_spatial_streams = 1 then Some (target_bitrate_kbps, vc_maxBitrate c)
           else map_option (\<lambda>stream. (target_bitrate_kbps, ss_maxBitrate stream)) (stream_at c simulcast_id));
        if num_temporal_streams = 1 then Some [target]
        else if legacy then
          ScreenshareTemporalLayerAllocation (vp8_base_heavy_tl3_alloc s) num_temporal_streams
            (uint target) (sint max_bitrate_kbps) simulcast_id
        else DefaultTemporalLayerAllocation (vp8_base_heavy_tl3_alloc s) num_temporal_streams (uint target) })"

definition distribute_stream ::
  "SimulcastRateAllocator \<Rightarrow> nat \<Rightarrow> nat \<Rightarrow> VideoBitrateAllocation \<Rightarrow> VideoBitrateAllocation option" where
  "distribute_stream s num_spatial_streams simulcast_id a = do {
     bitrate \<leftarrow> GetBitrate a simulcast_id 0;
     let target_bitrate_kbps = bitrate div 1000;
     if target_bitrate_kbps = 0 then Some a
     else do {
       tl_allocation \<leftarrow> temporal_rates s num_spatial_streams simulcast_id target_bitrate_kbps;
       set_temporal_rates a simulcast_id 0 tl_allocation } }"

fun distribute_streams ::
  "SimulcastRateAllocator \<Rightarrow> nat \<Rightarrow> nat list \<Rightarrow> VideoBitrateAllocation \<Rightarrow> VideoBitrateAllocation option" where
  "distribute_streams s n [] a = Some a"
| "distribute_streams s n (i # is) a = do { a' \<leftarrow> distribute_stream s n i a; distribute_streams s n is a' }"

definition DistributeAllocationToTemporalLayers ::
  "SimulcastRateAllocator \<Rightarrow> VideoBitrateAllocation \<Rightarrow> VideoBitrateAllocation option" where
  "DistributeAllocationToTemporalLayers s a =
     (let n = max 1 (unat (vc_numberOfSimulcastStreams (sra_codec s)))
      in distribute_streams s n [0 ..< n] a)"

definition Allocate ::
  "SimulcastRateAllocator \<Rightarrow> int \<Rightarrow> int \<Rightarrow> (SimulcastRateAllocator \<times> VideoBitrateAllocation) option" where
  "Allocate s total_bitrate stable_bitrate =
     (let stable_rate = (if stable_rate_enabled s \<and> stable_bitrate > 0 then min stable_bitrate total_bitrate
                         else total_bitrate)
      in do {
        (s', a) \<leftarrow> DistributeAllocationToSimulcastLayers s total_bitrate stable_rate VideoBitrateAllocation_init;
        a' \<leftarrow> DistributeAllocationToTemporalLayers s' a;
        Some (s', a') })"

section \<open>Temporal split conserves the rate\<close>

lemma trunc_nonneg: "0 \<le> x \<Longrightarrow> trunc x = \<lfloor>x\<rfloor>"
  by (simp add: trunc_def)

lemma layer_cumulative_props:
  fixes k :: int
  assumes k: "0 \<le> k" "k < 2 ^ 24" and x: "0 \<le> x" "x \<le> y" "y \<le> 1"
  shows "layer_cumulative k x \<le> layer_cumulative k y"
    and "uint (layer_cumulative k y) \<le> k"
    and "uint (layer_cumulative k 1) = k"
    and "1/2 \<le> of_int k * y \<Longrightarrow> 0 < layer_cumulative k y"
proof -
  define d where "d z = dadd (f32 (f32 (of_int k) * z)) (1/2)" for z
  have rk: "representable 24 (of_int k :: rat)" using k by (intro representable_of_int) simp
  then have fk: "f32 (of_int k) = (of_int k :: rat)" by (rule single.rnd_exact)
  have rh: "representable 53 (of_int k + 1/2 :: rat)"
    using representable_half [OF representable_of_int [of "2 * k + 1" 53]] k by (simp add: add_divide_distrib)
  have lo: "1/2 \<le> d z" if "0 \<le> z" for z
  proof -
    have "0 \<le> f32 (of_int k * z)" using that k by (intro single.rnd_ge) simp_all
    then show ?thesis
      using double.rnd_ge [OF representable_half [OF representable_1], of "f32 (of_int k * z) + 1/2"]
      by (simp add: d_def dadd_def fk)
  qed
  have mono: "d u \<le> d v" if "u \<le> v" for u v
    using that k by (simp add: d_def dadd_def fk double.rnd_mono single.rnd_mono mult_left_mono)
  have d1: "d 1 = of_int k + 1/2"
    using rh by (simp add: d_def dadd_def fk single.rnd_exact [OF rk] double.rnd_exact)
  have t: "layer_cumulative k z = word_of_int \<lfloor>d z\<rfloor>" if "0 \<le> z" for z
    using lo [OF that] by (simp add: layer_cumulative_def Let_def d_def [symmetric] trunc_nonneg)
  have f: "0 \<le> \<lfloor>d z\<rfloor> \<and> \<lfloor>d z\<rfloor> \<le> k" if "0 \<le> z" "z \<le> 1" for z
  proof -
    have "\<lfloor>d z\<rfloor> \<le> \<lfloor>d 1\<rfloor>" using mono [OF that(2)] by (rule floor_mono)
    also have "\<dots> = k" unfolding d1 by linarith
    finally show ?thesis using lo [OF that(1)] by simp
  qed
  have u: "uint (layer_cumulative k z) = \<lfloor>d z\<rfloor>" if "0 \<le> z" "z \<le> 1" for z
    unfolding t [OF that(1)]
  proof (rule uint_word_of_int_id)
    show "0 \<le> \<lfloor>d z\<rfloor>" using f [OF that] by (rule conjunct1)
    have "\<lfloor>d z\<rfloor> \<le> k" using f [OF that] by (rule conjunct2)
    also have "k < 2 ^ LENGTH(32)" using k(2) by simp
    finally show "\<lfloor>d z\<rfloor> < 2 ^ LENGTH(32)" .
  qed
  show "layer_cumulative k x \<le> layer_cumulative k y"
    using u [of x] u [of y] x mono [OF x(2)] by (simp add: word_le_def floor_mono)
  show "uint (layer_cumulative k y) \<le> k" using u [of y] f [of y] x by simp
  have "\<lfloor>d 1\<rfloor> = k" unfolding d1 by linarith
  then show "uint (layer_cumulative k 1) = k" using u [of 1] by simp
  assume "1/2 \<le> of_int k * y"
  then have "1/2 \<le> f32 (of_int k * y)" using representable_half [OF representable_1] by (rule single.rnd_ge [rotated])
  then have "1 \<le> d y"
    using double.rnd_ge [OF representable_1, of "f32 (of_int k * y) + 1/2"] by (simp add: d_def dadd_def fk)
  then have "1 \<le> uint (layer_cumulative k y)" using u [of y] x by simp
  then show "0 < layer_cumulative k y" by (simp add: word_less_def)
qed

lemma uint_minus_le: "a \<le> b \<Longrightarrow> uint (b - a) = uint b - uint a" for a b :: "'a::len word"
  by (simp add: uint_diff_cases)

lemma to_individual_sum:
  assumes "sorted (acc # bs)" "last (acc # bs) = kb" "acc < kb"
  shows "to_individual kb acc bs \<noteq> [] \<and> length (to_individual kb acc bs) \<le> length bs \<and>
    sum_list (map uint (to_individual kb acc bs)) = uint kb - uint acc"
  using assms
proof (induction bs arbitrary: acc)
  case (Cons b bs)
  have le: "acc \<le> b" "b \<le> kb"
    using Cons.prems by (auto simp: last_in_set split: if_splits)
  show ?case
  proof (cases "kb \<le> b")
    case True
    then show ?thesis using le by (simp add: uint_minus_le)
  next
    case False
    then show ?thesis
      using Cons.IH [of b] Cons.prems le by (auto simp: uint_minus_le split: if_splits)
  qed
qed simp

lemma fraction_bounds: "0 \<le> f32 x \<and> f32 x \<le> 1" if "0 \<le> x" "x \<le> 1" for x
  using that single.rnd_ge [of 0 x] single.rnd_le [of 1 x] by simp

lemma f32_quarter_le: "f32 (1/4) \<le> f32 (2/5)" "f32 (2/5) \<le> f32 (3/5)" "f32 (3/5) \<le> f32 (4/5)"
  by (rule single.rnd_mono, simp)+

lemma f32_at_least: "1/4 \<le> f32 (1/4)" "1/4 \<le> f32 (2/5)" "1/4 \<le> f32 (3/5)" "1/2 \<le> f32 (3/5)"
  using single.rnd_ge [of "1/4"] single.rnd_ge [of "1/2"]
    representable_half [of 24 1] representable_half [of 24 "1/2"] by simp_all

lemma fractions_ok:
  assumes "1 \<le> n" "n \<le> kMaxTemporalStreams"
  obtains fs where "those (map (\<lambda>i. GetTemporalRateAllocation n i bh) [0 ..< n]) = Some fs"
    "length fs = n" "sorted fs" "set fs \<subseteq> {0..1}" "last fs = 1"
    "1/4 \<le> hd fs" "n \<le> 2 \<Longrightarrow> 1/2 \<le> hd fs"
proof -
  have "n = 1 \<or> n = 2 \<or> n = 3 \<or> n = 4" using assms by (auto simp: kMaxTemporalStreams_def)
  then have "\<exists>fs. those (map (\<lambda>i. GetTemporalRateAllocation n i bh) [0 ..< n]) = Some fs \<and>
      length fs = n \<and> sorted fs \<and> set fs \<subseteq> {0..1} \<and> last fs = 1 \<and>
      1/4 \<le> hd fs \<and> (n \<le> 2 \<longrightarrow> 1/2 \<le> hd fs)"
    using fraction_bounds [of "1/4"] fraction_bounds [of "2/5"] fraction_bounds [of "3/5"]
      fraction_bounds [of "4/5"] f32_quarter_le f32_at_least
    by (elim disjE; cases bh)
       (simp_all add: GetTemporalRateAllocation_def kMaxTemporalStreams_def upt_rec
         kLayerRateAllocation_def kBaseHeavy3TlRateAllocation_def nth_Cons')
  then show ?thesis using that by blast
qed

lemma DefaultTemporalLayerAllocation_total:
  assumes "1 \<le> n" "n \<le> kMaxTemporalStreams" "0 < k" "k < 2 ^ 24"
  obtains l where "DefaultTemporalLayerAllocation bh n k = Some l" "l \<noteq> []" "length l \<le> n"
    "sum_list (map uint l) = k" "2 \<le> k \<or> n \<le> 2 \<Longrightarrow> 0 < hd l"
proof -
  obtain fs where fs: "those (map (\<lambda>i. GetTemporalRateAllocation n i bh) [0 ..< n]) = Some fs"
    "length fs = n" "sorted fs" "set fs \<subseteq> {0..1}" "last fs = 1" "1/4 \<le> hd fs" "n \<le> 2 \<longrightarrow> 1/2 \<le> hd fs"
    using fractions_ok [OF assms(1,2)] by blast
  let ?bs = "map (layer_cumulative k) fs"
  have ne: "fs \<noteq> []" using fs(2) assms(1) by auto
  have uk: "uint (word_of_int k :: uint32_t) = k" using assms by (intro uint_word_of_int_id) auto
  have "sorted_wrt (\<le>) ?bs" unfolding sorted_wrt_map
    using fs(3,4) assms(3,4)
    by (auto intro!: sorted_wrt_mono_rel [OF _ fs(3)] layer_cumulative_props(1))
  moreover have "last ?bs = word_of_int k"
    using layer_cumulative_props(3) [of k 0 1] assms ne fs(5) uk
    by (intro word_uint_eqI) (simp add: last_map)
  moreover have "(0 :: uint32_t) < word_of_int k" using uk assms(3) by (simp add: word_less_def)
  ultimately have "to_individual (word_of_int k) 0 ?bs \<noteq> [] \<and>
      length (to_individual (word_of_int k) 0 ?bs) \<le> length ?bs \<and>
      sum_list (map uint (to_individual (word_of_int k) 0 ?bs)) = uint (word_of_int k :: uint32_t) - uint (0 :: uint32_t)"
    using ne by (intro to_individual_sum) auto
  moreover have "0 < hd (to_individual (word_of_int k) 0 ?bs)" if "2 \<le> k \<or> n \<le> 2"
  proof -
    have "hd fs \<in> {0..1}" using fs(4) ne by (meson hd_in_set subsetD)
    then have h: "0 \<le> hd fs" "hd fs \<le> 1" by simp_all
    have "1/2 \<le> rat_of_int k * hd fs"
    proof (cases "2 \<le> k")
      case True
      then have "2 * (1/4) \<le> rat_of_int k * hd fs" using fs(6) by (intro mult_mono) auto
      then show ?thesis by simp
    next
      case False
      then have "1 * (1/2) \<le> rat_of_int k * hd fs" using that fs(7) assms(3) by (intro mult_mono) auto
      then show ?thesis by simp
    qed
    then have "0 < layer_cumulative k (hd fs)"
      using layer_cumulative_props(4) [of k "hd fs" "hd fs"] assms(3,4) h by simp
    then show ?thesis using ne by (cases fs) auto
  qed
  ultimately show ?thesis
    using that [of "to_individual (word_of_int k) 0 ?bs"] fs(1,2) uk
    by (simp add: DefaultTemporalLayerAllocation_def)
qed

section \<open>Split over simulcast streams\<close>

abbreviation num_streams :: "VideoCodec \<Rightarrow> nat" where
  "num_streams c \<equiv> unat (vc_numberOfSimulcastStreams c)"

definition wf_codec :: "VideoCodec \<Rightarrow> bool" where
  "wf_codec c \<longleftrightarrow> length (vc_simulcastStream c) = kMaxSimulcastStreams \<and>
     num_streams c \<le> kMaxSimulcastStreams \<and>
     (\<forall>s \<in> set (vc_simulcastStream c).
        ss_minBitrate s \<le> ss_targetBitrate s \<and> ss_targetBitrate s \<le> ss_maxBitrate s \<and>
        unat (ss_numberOfTemporalLayers s) \<le> kMaxTemporalStreams) \<and>
     (case vc_codec_specific c of VP8_specific k \<Rightarrow> unat k \<le> kMaxTemporalStreams
      | _ \<Rightarrow> vc_codecType c \<noteq> kVideoCodecVP8)"

lemma stream_at_ok:
  assumes "wf_codec c" "i < num_streams c"
  shows "stream_at c i = Some (vc_simulcastStream c ! i)" "in_table i 0"
    "uint (ss_minBitrate (vc_simulcastStream c ! i)) \<le> uint (ss_targetBitrate (vc_simulcastStream c ! i))"
    "uint (ss_targetBitrate (vc_simulcastStream c ! i)) \<le> uint (ss_maxBitrate (vc_simulcastStream c ! i))"
  using assms nth_mem [of i "vc_simulcastStream c"]
  by (auto simp: wf_codec_def stream_at_def in_table_def kMaxSimulcastStreams_def kMaxSpatialLayers_def
      kMaxTemporalStreams_def word_le_def)

lemma SetBitrate_fits:
  assumes "vba_ok a" "in_table si ti" "0 \<le> r" "uint (vba_sum a) - rate a si ti + r \<le> kMaxBitrateBps"
  obtains a' where "SetBitrate a si ti (word_of_int r) = Some (True, a')" "vba_ok a'"
    "bitrates a' = (bitrates a)(si := (bitrates a si)(ti := Some (word_of_int r)))"
    "uint (vba_sum a') = uint (vba_sum a) - rate a si ti + r" "uint (word_of_int r :: uint32_t) = r"
proof -
  have "rate a si ti \<le> uint (vba_sum a)"
    using rate_le_layer_total [of ti a si] layer_total_le [OF assms(1), of si] assms(2)
    by (auto simp: in_table_def)
  then have r: "uint (word_of_int r :: uint32_t) = r"
    using assms(3,4) by (intro uint_word_of_int_id) (auto simp: kMaxBitrateBps_def)
  show ?thesis
    using vba_ok_update [OF assms(1,2), of "word_of_int r"] SetBitrate_eq [OF assms(2), of a "word_of_int r"]
      assms(4) that r by auto
qed

definition alloc_inv :: "VideoCodec \<Rightarrow> int \<Rightarrow> nat list \<Rightarrow> alloc_state \<Rightarrow> bool" where
  "alloc_inv c L is st \<longleftrightarrow> vba_ok (allocated st) \<and> uint (vba_sum (allocated st)) + left_total st = L \<and>
     0 \<le> left_total st \<and> top_active_layer st < num_streams c \<and>
     (\<forall>i \<in> set is. bitrates (allocated st) i 0 = None) \<and>
     (\<forall>i ti. ti \<noteq> 0 \<longrightarrow> bitrates (allocated st) i ti = None) \<and>
     (\<forall>i. bitrates (allocated st) i 0 \<noteq> None \<longrightarrow> i < num_streams c \<and> ss_active (vc_simulcastStream c ! i) \<and>
        rate (allocated st) i 0 \<le> 1000 * uint (ss_targetBitrate (vc_simulcastStream c ! i)))"

definition top_ok :: "VideoCodec \<Rightarrow> alloc_state \<Rightarrow> bool" where
  "top_ok c st \<longleftrightarrow> ss_active (vc_simulcastStream c ! top_active_layer st)"

lemma allocate_step:
  assumes wf: "wf_codec (sra_codec s)" and inv: "alloc_inv (sra_codec s) L (i # is) st"
    and L: "L \<le> kMaxBitrateBps" and i: "i < num_streams (sra_codec s)" "i \<notin> set is"
    and act: "ss_active (vc_simulcastStream (sra_codec s) ! i)"
    and room: "\<not> left_stable st < layer_min_bitrate s first (enabled st ! i) (vc_simulcastStream (sra_codec s) ! i)"
  obtains st' where "allocate_layers s first (i # is) st = allocate_layers s first is st'"
    "alloc_inv (sra_codec s) L is st'" "top_ok (sra_codec s) st'" "enabled st' = (enabled st)[i := True]"
proof -
  let ?c = "sra_codec s" and ?stream = "vc_simulcastStream (sra_codec s) ! i"
  let ?target = "KilobitsPerSec (uint (ss_targetBitrate ?stream))"
  let ?r = "min (left_total st) ?target"
  note st = inv [unfolded alloc_inv_def]
  have none: "bitrates (allocated st) i 0 = None" "rate (allocated st) i 0 = 0"
    using st by (auto simp: value_or0_def)
  have r: "0 \<le> ?r" "?r \<le> left_total st" using st by (auto simp: KilobitsPerSec_def)
  have "uint (vba_sum (allocated st)) - rate (allocated st) i 0 + ?r \<le> kMaxBitrateBps"
    using st L none r by linarith
  then obtain a where a: "SetBitrate (allocated st) i 0 (word_of_int ?r) = Some (True, a)" "vba_ok a"
    "bitrates a = (bitrates (allocated st))(i := (bitrates (allocated st) i)(0 := Some (word_of_int ?r)))"
    "uint (vba_sum a) = uint (vba_sum (allocated st)) - rate (allocated st) i 0 + ?r"
    "uint (word_of_int ?r :: uint32_t) = ?r"
    using SetBitrate_fits [OF _ stream_at_ok(2) [OF wf i(1)] r(1)] st by blast
  have "left_total st \<le> kMaxBitrateBps" using st L uint_ge_0 [of "vba_sum (allocated st)"] by linarith
  then have fin: "unit_minus (left_total st) ?r = left_total st - ?r"
    using r by (intro unit_minus_finite IsFinite_bounds) (auto simp: kMaxBitrateBps_def)
  let ?st = "st\<lparr>top_active_layer := i, enabled := (enabled st)[i := True], allocated := a,
             left_total := unit_minus (left_total st) ?r,
             left_stable := unit_minus (left_stable st) (min (left_stable st) ?target)\<rparr>"
  have "allocate_layers s first (i # is) st = allocate_layers s first is ?st"
    using act room a(1) by (simp add: stream_at_ok [OF wf i(1)] Let_def)
  moreover have "alloc_inv ?c L is ?st"
    using st a none i act r fin
    by (auto simp: alloc_inv_def value_or0_def KilobitsPerSec_def)
  ultimately show ?thesis using act by (intro that) (auto simp: top_ok_def)
qed

lemma set_bw_limited_simps [simp]:
  "bitrates (set_bw_limited a b) = bitrates a" "vba_sum (set_bw_limited a b) = vba_sum a"
  "vba_ok (set_bw_limited a b) = vba_ok a"
  by (simp_all add: set_bw_limited_def vba_ok_def layer_total_def)

lemma allocate_layers_inv:
  assumes wf: "wf_codec (sra_codec s)" and L: "L \<le> kMaxBitrateBps"
  shows "alloc_inv (sra_codec s) L is st \<Longrightarrow> distinct is \<Longrightarrow> set is \<subseteq> {..< num_streams (sra_codec s)} \<Longrightarrow>
    \<exists>rest st'. allocate_layers s first is st = Some (rest, st') \<and> alloc_inv (sra_codec s) L rest st' \<and>
      (top_ok (sra_codec s) st \<longrightarrow> top_ok (sra_codec s) st') \<and> set rest \<subseteq> set is \<and>
      length (enabled st') = length (enabled st) \<and> (\<forall>j. j \<notin> set is \<longrightarrow> enabled st' ! j = enabled st ! j)"
proof (induction "is" arbitrary: st)
  case (Cons i "is")
  let ?c = "sra_codec s" and ?stream = "vc_simulcastStream (sra_codec s) ! i"
  have i: "i < num_streams ?c" "i \<notin> set is" using Cons.prems by auto
  have prems: "distinct is" "set is \<subseteq> {..< num_streams ?c}" using Cons.prems by auto
  consider (inactive) "\<not> ss_active ?stream"
    | (stop) "ss_active ?stream" "left_stable st < layer_min_bitrate s first (enabled st ! i) ?stream"
    | (go) "ss_active ?stream" "\<not> left_stable st < layer_min_bitrate s first (enabled st ! i) ?stream"
    by blast
  then show ?case
  proof cases
    case inactive
    let ?st = "st\<lparr>enabled := (enabled st)[i := False]\<rparr>"
    have "alloc_inv ?c L is ?st" using Cons.prems(1) by (simp add: alloc_inv_def)
    from Cons.IH [OF this prems] inactive show ?thesis
      by (fastforce simp: stream_at_ok [OF wf i(1)] top_ok_def)
  next
    case stop
    let ?st = "st\<lparr>allocated := set_bw_limited (allocated st) True\<rparr>"
    have "alloc_inv ?c L (i # is) ?st" using Cons.prems(1) by (simp add: alloc_inv_def)
    with stop show ?thesis by (simp add: stream_at_ok [OF wf i(1)] top_ok_def)
  next
    case go
    obtain st1 where st1: "allocate_layers s first (i # is) st = allocate_layers s first is st1"
      "alloc_inv ?c L is st1" "top_ok ?c st1" "enabled st1 = (enabled st)[i := True]"
      using allocate_step [OF wf Cons.prems(1) L i go] .
    from Cons.IH [OF st1(2) prems] obtain rest st' where
      r: "allocate_layers s first is st1 = Some (rest, st')" "alloc_inv ?c L rest st'"
      "top_ok ?c st1 \<longrightarrow> top_ok ?c st'" "set rest \<subseteq> set is" "length (enabled st') = length (enabled st1)"
      "\<forall>j. j \<notin> set is \<longrightarrow> enabled st' ! j = enabled st1 ! j" by blast
    show ?thesis
      unfolding st1(1) r(1) using r(2-6) st1(3,4)
      by (intro exI [of _ rest] exI [of _ st']) auto
  qed
qed (auto)

lemma only_base_layer_total:
  assumes "\<forall>ti. ti \<noteq> 0 \<longrightarrow> bitrates a i ti = None"
  shows "layer_total a i = rate a i 0"
proof -
  have "layer_total a i = (\<Sum>ti<kMaxTemporalStreams. if ti = 0 then rate a i 0 else 0)"
    unfolding layer_total_def using assms by (intro sum.cong) (auto simp: value_or0_def)
  then show ?thesis by (simp add: kMaxTemporalStreams_def)
qed

definition base_layers_ok :: "VideoCodec \<Rightarrow> VideoBitrateAllocation \<Rightarrow> bool" where
  "base_layers_ok c a \<longleftrightarrow> vba_ok a \<and> (\<forall>i ti. ti \<noteq> 0 \<longrightarrow> bitrates a i ti = None) \<and>
     (\<forall>i. bitrates a i 0 \<noteq> None \<longrightarrow> i < num_streams c \<and> ss_active (vc_simulcastStream c ! i) \<and>
        rate a i 0 \<le> 1000 * uint (ss_maxBitrate (vc_simulcastStream c ! i)))"

lemma alloc_inv_base_layers:
  assumes wf: "wf_codec c" and inv: "alloc_inv c L is st"
  shows "base_layers_ok c (allocated st)"
proof -
  have "rate (allocated st) i 0 \<le> 1000 * uint (ss_maxBitrate (vc_simulcastStream c ! i))"
    if "bitrates (allocated st) i 0 \<noteq> None" for i
  proof -
    have "i < num_streams c" "rate (allocated st) i 0 \<le> 1000 * uint (ss_targetBitrate (vc_simulcastStream c ! i))"
      using inv that unfolding alloc_inv_def by blast+
    then show ?thesis using stream_at_ok(4) [OF wf, of i] by linarith
  qed
  then show ?thesis using inv unfolding alloc_inv_def base_layers_ok_def by blast
qed

lemma allocate_rest_ok:
  assumes wf: "wf_codec c" and inv: "alloc_inv c L is st" and top: "top_ok c st"
    and L: "L \<le> kMaxBitrateBps"
  obtains a where "allocate_rest c st = Some a" "base_layers_ok c a" "uint (vba_sum a) \<le> L"
proof (cases "0 < left_total st")
  case False
  with alloc_inv_base_layers [OF wf inv] inv that show ?thesis by (auto simp: allocate_rest_def alloc_inv_def)
next
  case True
  let ?t = "top_active_layer st" and ?a = "allocated st"
  note st = inv [unfolded alloc_inv_def]
  have t: "?t < num_streams c" using st by simp
  note stream = stream_at_ok [OF wf t] and base = alloc_inv_base_layers [OF wf inv]
  let ?max = "KilobitsPerSec (uint (ss_maxBitrate (vc_simulcastStream c ! ?t)))"
  let ?i = "rate ?a ?t 0"
  have sum: "map_option uint (GetSpatialLayerSum ?a ?t) = Some ?i"
    using uint_GetSpatialLayerSum [of ?a ?t] only_base_layer_total [of ?a ?t] st stream(2)
    by (simp add: in_table_def)
  have init: "?i \<le> ?max"
  proof (cases "bitrates ?a ?t 0 = None")
    case False
    then have "?i \<le> 1000 * uint (ss_maxBitrate (vc_simulcastStream c ! ?t))"
      using base unfolding base_layers_ok_def by blast
    then show ?thesis by (simp add: KilobitsPerSec_def)
  qed (simp add: value_or0_def KilobitsPerSec_def)
  have "?i \<le> uint (vba_sum ?a)"
    using rate_le_layer_total [of 0 ?a ?t] layer_total_le [of ?a ?t] st stream(2) by (auto simp: in_table_def)
  then have bnd: "?i + left_total st \<le> L" using st by linarith
  define add where "add = min (left_total st) (?max - ?i)"
  have fin: "unit_minus ?max ?i = ?max - ?i" "unit_plus ?i add = ?i + add"
  proof -
    have mx: "?max < 4294967296000"
      using uint_lt2p [of "ss_maxBitrate (vc_simulcastStream c ! ?t)"] by (simp add: KilobitsPerSec_def)
    have i0: "0 \<le> ?i" by simp
    have add: "0 \<le> add" "add \<le> kMaxBitrateBps"
      using True init bnd L i0 unfolding add_def by linarith+
    have "\<bar>?max\<bar> < 9223372036854775807" "\<bar>?i\<bar> < 9223372036854775807" using mx i0 init by linarith+
    moreover have "\<bar>add\<bar> < 9223372036854775807" using add by (simp add: kMaxBitrateBps_def)
    ultimately have "IsFinite ?max" "IsFinite ?i" "IsFinite add" by (auto intro: IsFinite_bounds)
    then show "unit_minus ?max ?i = ?max - ?i" "unit_plus ?i add = ?i + add" by simp_all
  qed
  have r: "0 \<le> ?i + add" "uint (vba_sum ?a) - rate ?a ?t 0 + (?i + add) \<le> kMaxBitrateBps"
    using init st L True uint_ge_0 [of "value_or0 (bitrates ?a ?t 0)"] unfolding add_def by linarith+
  obtain a where a: "SetBitrate ?a ?t 0 (word_of_int (?i + add)) = Some (True, a)" "vba_ok a"
    "bitrates a = (bitrates ?a)(?t := (bitrates ?a ?t)(0 := Some (word_of_int (?i + add))))"
    "uint (vba_sum a) = uint (vba_sum ?a) - rate ?a ?t 0 + (?i + add)"
    "uint (word_of_int (?i + add) :: uint32_t) = ?i + add"
    using SetBitrate_fits [OF _ stream(2) r] st by blast
  have "allocate_rest c st = Some a"
    unfolding allocate_rest_def using True a(1) by (simp add: stream sum fin Let_def add_def [symmetric])
  moreover have "base_layers_ok c a"
    using base a(2,3,5) t top
    by (auto simp: base_layers_ok_def top_ok_def value_or0_def add_def KilobitsPerSec_def)
  moreover have "uint (vba_sum a) \<le> L" using a(4) st unfolding add_def by linarith
  ultimately show ?thesis by (rule that)
qed

lemma set_layer_index: "set (layer_index c) = {..< num_streams c}" and distinct_layer_index: "distinct (layer_index c)"
  and length_layer_index: "length (layer_index c) = num_streams c"
  by (auto simp: layer_index_def atLeast0LessThan)

text \<open>The stream that must never be switched off: the first active one in the order of \<open>layer_index\<close>.\<close>

definition first_active :: "VideoCodec \<Rightarrow> nat option" where
  "first_active c = find (\<lambda>i. ss_active (vc_simulcastStream c ! i)) (layer_index c)"

lemma skip_inactive_find:
  assumes "wf_codec c" "set is \<subseteq> {..< num_streams c}"
  shows "case find (\<lambda>i. ss_active (vc_simulcastStream c ! i)) is of
      None \<Rightarrow> \<exists>pos'. skip_inactive c pos is = Some (pos', [])
    | Some i \<Rightarrow> \<exists>pos' rest. skip_inactive c pos is = Some (pos', i # rest) \<and> pos' < pos + length is \<and>
        set (i # rest) \<subseteq> set is \<and> (distinct is \<longrightarrow> distinct (i # rest)) \<and> ss_active (vc_simulcastStream c ! i)"
  using assms(2)
proof (induction "is" arbitrary: pos)
  case (Cons i "is")
  have at: "stream_at c i = Some (vc_simulcastStream c ! i)"
    using stream_at_ok(1) [OF assms(1), of i] Cons.prems by simp
  show ?case
  proof (cases "ss_active (vc_simulcastStream c ! i)")
    case False
    then show ?thesis using Cons.IH [of "Suc pos"] Cons.prems
      by (auto simp: at split: option.splits)
  qed (auto simp: at)
qed simp

definition sra_ok :: "SimulcastRateAllocator \<Rightarrow> bool" where
  "sra_ok s \<longleftrightarrow> wf_codec (sra_codec s) \<and>
     (stream_enabled s = [] \<or>
      length (stream_enabled s) = num_streams (sra_codec s) \<and>
      (\<forall>i. first_active (sra_codec s) = Some i \<longrightarrow> stream_enabled s ! i))"

text \<open>What may be given out: the capped target, but at least the minimum of the first active stream.\<close>

definition budget :: "VideoCodec \<Rightarrow> int \<Rightarrow> int" where
  "budget c total_bps =
     (let left = (if vc_maxBitrate c \<noteq> 0 then min total_bps (KilobitsPerSec (uint (vc_maxBitrate c))) else total_bps)
      in if num_streams c = 0
         then (if vc_active c then max (KilobitsPerSec (uint (vc_minBitrate c))) left else 0)
         else case first_active c of None \<Rightarrow> 0
           | Some i \<Rightarrow> max left (KilobitsPerSec (uint (ss_minBitrate (vc_simulcastStream c ! i)))))"

lemma disable_layers_nth: "j \<notin> set is \<Longrightarrow> disable_layers is en ! j = en ! j"
  and length_disable_layers: "length (disable_layers is en) = length en"
  by (induction "is" arbitrary: en) auto

lemma base_layers_ok_init: "base_layers_ok c VideoBitrateAllocation_init"
  using vba_ok_init by (simp add: base_layers_ok_def VideoBitrateAllocation_init_def)

lemma distribute_active:
  assumes ok: "sra_ok s" and n: "num_streams (sra_codec s) \<noteq> 0"
    and i: "first_active (sra_codec s) = Some i"
    and b: "0 \<le> total_bps" "budget (sra_codec s) total_bps \<le> kMaxBitrateBps"
  obtains s' a where
    "DistributeAllocationToSimulcastLayers s total_bps stable_bps VideoBitrateAllocation_init = Some (s', a)"
    "sra_ok s'" "\<exists>en. s' = s\<lparr>stream_enabled := en\<rparr>" "base_layers_ok (sra_codec s) a"
    "uint (vba_sum a) \<le> budget (sra_codec s) total_bps"
proof -
  let ?c = "sra_codec s" and ?first = "stream_enabled s = []"
  let ?stream = "vc_simulcastStream ?c ! i" and ?L = "budget ?c total_bps"
  have wf: "wf_codec ?c" using ok by (simp add: sra_ok_def)
  have sub: "set (layer_index ?c) \<subseteq> {..< num_streams ?c}" by (simp add: set_layer_index)
  obtain pos rest where skip: "skip_inactive ?c 0 (layer_index ?c) = Some (pos, i # rest)"
    "pos < num_streams ?c" "set (i # rest) \<subseteq> {..< num_streams ?c}" "distinct (i # rest)" "ss_active ?stream"
    using skip_inactive_find [OF wf sub, of 0] i
    by (auto simp: first_active_def set_layer_index distinct_layer_index length_layer_index)
  have i_lt: "i < num_streams ?c" "i \<notin> set rest" "distinct rest" "set rest \<subseteq> {..< num_streams ?c}"
    using skip by auto
  note at = stream_at_ok [OF wf i_lt(1)]
  let ?cap = "\<lambda>x. if vc_maxBitrate ?c \<noteq> 0 then min x (KilobitsPerSec (uint (vc_maxBitrate ?c))) else x"
  let ?min = "KilobitsPerSec (uint (ss_minBitrate ?stream))"
  define st where "st = \<lparr>left_total = max (?cap total_bps) ?min, left_stable = max (?cap stable_bps) ?min,
     top_active_layer = pos,
     enabled = (if ?first then replicate (num_streams ?c) False else stream_enabled s),
     allocated = VideoBitrateAllocation_init\<rparr>"
  have L: "?L = max (?cap total_bps) ?min" using n i by (simp add: budget_def)
  have "alloc_inv ?c ?L (i # rest) st"
    using skip(2) vba_ok_init b(1) unfolding L
    by (simp add: st_def alloc_inv_def VideoBitrateAllocation_init_def KilobitsPerSec_def le_max_iff_disj)
  moreover have "\<not> left_stable st < layer_min_bitrate s ?first (enabled st ! i) ?stream"
    using ok i by (auto simp: st_def layer_min_bitrate_def Let_def sra_ok_def)
  ultimately obtain st1 where st1: "allocate_layers s ?first (i # rest) st = allocate_layers s ?first rest st1"
    "alloc_inv ?c ?L rest st1" "top_ok ?c st1" "enabled st1 = (enabled st)[i := True]"
    using allocate_step [OF wf _ b(2) i_lt(1,2) skip(5)] by blast
  obtain rest' st' where st': "allocate_layers s ?first rest st1 = Some (rest', st')" "alloc_inv ?c ?L rest' st'"
    "top_ok ?c st'" "set rest' \<subseteq> set rest" "length (enabled st') = length (enabled st1)"
    "enabled st' ! i = enabled st1 ! i"
    using allocate_layers_inv [OF wf b(2) st1(2) i_lt(3,4), of ?first] st1(3) i_lt(2) by blast
  obtain a where a: "allocate_rest ?c st' = Some a" "base_layers_ok ?c a" "uint (vba_sum a) \<le> ?L"
    using allocate_rest_ok [OF wf st'(2,3) b(2)] .
  let ?s' = "s\<lparr>stream_enabled := disable_layers rest' (enabled st')\<rparr>"
  have len: "length (vc_simulcastStream ?c) \<ge> num_streams ?c" using wf by (simp add: wf_codec_def)
  have res: "DistributeAllocationToSimulcastLayers s total_bps stable_bps VideoBitrateAllocation_init = Some (?s', a)"
    using n len skip(1) at(1) st1(1) st'(1) a(1)
    by (simp add: DistributeAllocationToSimulcastLayers_def Let_def st_def [symmetric]
        del: allocate_layers.simps)
  have "length (enabled st) = num_streams ?c" using ok by (auto simp: st_def sra_ok_def)
  moreover have "i \<notin> set rest'" using st'(4) i_lt(2) by blast
  ultimately have "sra_ok ?s'"
    using ok i st'(5,6) st1(4) i_lt(1)
    by (auto simp: sra_ok_def length_disable_layers disable_layers_nth)
  then show ?thesis using res a that by blast
qed

section \<open>Split over temporal layers\<close>

lemma SetBitrate_kbps:
  assumes ok: "vba_ok a" and t: "in_table i ti"
    and fits: "uint (vba_sum a) - rate a i ti + 1000 * uint r \<le> kMaxBitrateBps"
  obtains a' where "SetBitrate a i ti (r * 1000) = Some (True, a')" "vba_ok a'"
    "bitrates a' = (bitrates a)(i := (bitrates a i)(ti := Some (r * 1000)))"
    "uint (vba_sum a') = uint (vba_sum a) - rate a i ti + 1000 * uint r" "uint (r * 1000) = 1000 * uint r"
proof -
  have w: "word_of_int (1000 * uint r) = r * 1000" by (simp add: mult.commute)
  have "0 \<le> 1000 * uint r" by simp
  from SetBitrate_fits [OF ok t this fits] that show ?thesis unfolding w by blast
qed

lemma layer_total_from_sum:
  assumes "vba_ok a" "vba_ok a'" "i < kMaxSpatialLayers" "\<forall>j. j \<noteq> i \<longrightarrow> bitrates a' j = bitrates a j"
  shows "layer_total a' i - layer_total a i = uint (vba_sum a') - uint (vba_sum a)"
proof -
  have "layer_total a' j = layer_total a j" if "j \<noteq> i" for j using assms(4) that by (simp add: layer_total_def)
  then have "(\<Sum>k<kMaxSpatialLayers. layer_total a' k) =
      (\<Sum>k<kMaxSpatialLayers. layer_total a k) - layer_total a i + layer_total a' i"
    by (subst sum_update_one [OF assms(3), of "layer_total a'" "layer_total a"]) auto
  then show ?thesis using assms(1,2) by (simp add: vba_ok_def)
qed

lemma set_temporal_rates_ok:
  assumes "vba_ok a" "i < kMaxSpatialLayers" "ti + length l \<le> kMaxTemporalStreams"
    "\<forall>tj \<ge> ti. bitrates a i tj = None" "uint (vba_sum a) + 1000 * sum_list (map uint l) \<le> kMaxBitrateBps"
  shows "\<exists>a'. set_temporal_rates a i ti l = Some a' \<and> vba_ok a' \<and>
    uint (vba_sum a') = uint (vba_sum a) + 1000 * sum_list (map uint l) \<and>
    (\<forall>j. j \<noteq> i \<longrightarrow> bitrates a' j = bitrates a j)"
  using assms
proof (induction l arbitrary: a ti)
  case (Cons r l)
  have t: "in_table i ti" using Cons.prems by (simp add: in_table_def)
  have none: "rate a i ti = 0" using Cons.prems(4) by (simp add: value_or0_def)
  have nn: "0 \<le> sum_list (map uint l)" by (intro sum_list_nonneg) auto
  show ?case
  proof (cases "0 < r")
    case False
    then have "r = 0" by (simp add: word_neq_0_conv [symmetric])
    then show ?thesis using Cons.IH [of a "Suc ti"] Cons.prems by simp
  next
    case True
    have "uint (vba_sum a) - rate a i ti + 1000 * uint r \<le> kMaxBitrateBps"
      using Cons.prems(5) none nn by simp
    then obtain a1 where a1: "SetBitrate a i ti (r * 1000) = Some (True, a1)" "vba_ok a1"
      "bitrates a1 = (bitrates a)(i := (bitrates a i)(ti := Some (r * 1000)))"
      "uint (vba_sum a1) = uint (vba_sum a) - rate a i ti + 1000 * uint r"
      using SetBitrate_kbps [OF Cons.prems(1) t] by blast
    have "\<exists>a'. set_temporal_rates a1 i (Suc ti) l = Some a' \<and> vba_ok a' \<and>
        uint (vba_sum a') = uint (vba_sum a1) + 1000 * sum_list (map uint l) \<and>
        (\<forall>j. j \<noteq> i \<longrightarrow> bitrates a' j = bitrates a1 j)"
      using Cons.prems a1 none by (intro Cons.IH) auto
    then show ?thesis using True a1 none by auto
  qed
qed simp

lemma set_temporal_rates_from_base:
  assumes ok: "vba_ok a" "i < kMaxSpatialLayers" and l: "l \<noteq> []" "length l \<le> kMaxTemporalStreams" "0 < hd l"
    and base: "\<forall>ti. ti \<noteq> 0 \<longrightarrow> bitrates a i ti = None" and le: "1000 * sum_list (map uint l) \<le> rate a i 0"
  obtains a' where "set_temporal_rates a i 0 l = Some a'" "vba_ok a'"
    "layer_total a' i = 1000 * sum_list (map uint l)" "\<forall>j. j \<noteq> i \<longrightarrow> bitrates a' j = bitrates a j"
    "uint (vba_sum a') \<le> uint (vba_sum a)"
proof -
  obtain r rs where lr: "l = r # rs" using l(1) by (cases l) auto
  have t: "in_table i 0" using ok by (simp add: in_table_def kMaxTemporalStreams_def)
  have nn: "0 \<le> sum_list (map uint rs)" by (intro sum_list_nonneg) auto
  have mx: "uint (vba_sum a) \<le> kMaxBitrateBps"
    using uint_lt2p [of "vba_sum a"] by (simp add: kMaxBitrateBps_def)
  have "uint (vba_sum a) - rate a i 0 + 1000 * uint r \<le> kMaxBitrateBps" using le lr nn mx by simp
  then obtain a1 where a1: "SetBitrate a i 0 (r * 1000) = Some (True, a1)" "vba_ok a1"
    "bitrates a1 = (bitrates a)(i := (bitrates a i)(0 := Some (r * 1000)))"
    "uint (vba_sum a1) = uint (vba_sum a) - rate a i 0 + 1000 * uint r"
    using SetBitrate_kbps [OF ok(1) t] by blast
  have "\<exists>a'. set_temporal_rates a1 i (Suc 0) rs = Some a' \<and> vba_ok a' \<and>
      uint (vba_sum a') = uint (vba_sum a1) + 1000 * sum_list (map uint rs) \<and>
      (\<forall>j. j \<noteq> i \<longrightarrow> bitrates a' j = bitrates a1 j)"
    using a1 base ok l(2) lr le mx by (intro set_temporal_rates_ok) auto
  then obtain a' where a': "set_temporal_rates a1 i (Suc 0) rs = Some a'" "vba_ok a'"
      "uint (vba_sum a') = uint (vba_sum a1) + 1000 * sum_list (map uint rs)"
      "\<forall>j. j \<noteq> i \<longrightarrow> bitrates a' j = bitrates a1 j" by blast
  have same: "\<forall>j. j \<noteq> i \<longrightarrow> bitrates a' j = bitrates a j" using a'(4) a1(3) by simp
  have "layer_total a' i = 1000 * sum_list (map uint l)"
    using layer_total_from_sum [OF ok(1) a'(2) ok(2) same] only_base_layer_total [OF base] a'(3) a1(4) lr
    by simp
  moreover have "uint (vba_sum a') \<le> uint (vba_sum a)" using a'(3) a1(4) le lr by simp
  ultimately show ?thesis using that a1(1) a'(1,2) same l(3) lr by simp
qed

lemma unat_max_1: "unat (max 1 (x :: uint8_t)) = max 1 (unat x)"
  by (simp add: max_def word_le_nat_alt)

lemma NumTemporalStreams_ok:
  assumes "wf_codec (sra_codec s)" "i < max 1 (num_streams (sra_codec s))"
  obtains n where "NumTemporalStreams s i = Some n" "1 \<le> n" "n \<le> kMaxTemporalStreams"
    "stream_at (sra_codec s) i = Some (vc_simulcastStream (sra_codec s) ! i)"
proof -
  let ?c = "sra_codec s"
  have i: "i < length (vc_simulcastStream ?c)" using assms by (auto simp: wf_codec_def kMaxSimulcastStreams_def)
  then have at: "stream_at ?c i = Some (vc_simulcastStream ?c ! i)" by (simp add: stream_at_def)
  have "unat (ss_numberOfTemporalLayers (vc_simulcastStream ?c ! i)) \<le> kMaxTemporalStreams"
    using assms(1) nth_mem [OF i] by (auto simp: wf_codec_def)
  then have "\<exists>n. NumTemporalStreams s i = Some n \<and> 1 \<le> n \<and> n \<le> kMaxTemporalStreams"
    using assms(1) at
    by (auto simp: NumTemporalStreams_def Let_def unat_max_1 wf_codec_def kMaxTemporalStreams_def
        split: VideoCodecUnion.splits)
  then show ?thesis using that at by blast
qed

definition legacy_screenshare :: "SimulcastRateAllocator \<Rightarrow> bool" where
  "legacy_screenshare s \<longleftrightarrow> vc_mode (sra_codec s) = kScreensharing \<and> legacy_conference_mode s"

lemma temporal_rates_ok:
  assumes wf: "wf_codec (sra_codec s)" and i: "i < max 1 (num_streams (sra_codec s))"
    and leg: "\<not> legacy_screenshare s" and k: "0 < uint k" "uint k < 2 ^ 24"
    and n: "NumTemporalStreams s i = Some n" "2 \<le> uint k \<or> n \<le> 2"
  obtains l where "temporal_rates s (max 1 (num_streams (sra_codec s))) i k = Some l" "l \<noteq> []"
    "length l \<le> kMaxTemporalStreams" "sum_list (map uint l) = uint k" "0 < hd l"
proof -
  have n': "1 \<le> n" "n \<le> kMaxTemporalStreams" "stream_at (sra_codec s) i = Some (vc_simulcastStream (sra_codec s) ! i)"
    using NumTemporalStreams_ok [OF wf i] n(1) by auto
  obtain l where l: "DefaultTemporalLayerAllocation (vp8_base_heavy_tl3_alloc s) n (uint k) = Some l" "l \<noteq> []"
    "length l \<le> n" "sum_list (map uint l) = uint k" "0 < hd l"
    using DefaultTemporalLayerAllocation_total [OF n'(1,2) k] n(2) by metis
  have "temporal_rates s (max 1 (num_streams (sra_codec s))) i k = Some (if n = 1 then [k] else l)"
    using leg n(1) n'(3) l(1) by (auto simp: temporal_rates_def Let_def legacy_screenshare_def)
  moreover have "0 < k" using k(1) by (simp add: word_less_def)
  ultimately show ?thesis
    using that [of "if n = 1 then [k] else l"] l n' by (auto simp: kMaxTemporalStreams_def)
qed

definition kbps_floor :: "int \<Rightarrow> int" where
  "kbps_floor r = (if r < 1000 then r else 1000 * (r div 1000))"

definition split_exact :: "SimulcastRateAllocator \<Rightarrow> VideoBitrateAllocation \<Rightarrow> nat \<Rightarrow> bool" where
  "split_exact s a i \<longleftrightarrow> (\<forall>ti. ti \<noteq> 0 \<longrightarrow> bitrates a i ti = None) \<and>
     (NumTemporalStreams s i \<in> {Some 1, Some 2} \<or> rate a i 0 < 1000 \<or> 2000 \<le> rate a i 0)"

lemma distribute_stream_ok:
  assumes wf: "wf_codec (sra_codec s)" and i: "i < max 1 (num_streams (sra_codec s))"
    and leg: "\<not> legacy_screenshare s" and ok: "vba_ok a" and ex: "split_exact s a i"
  obtains a' where "distribute_stream s (max 1 (num_streams (sra_codec s))) i a = Some a'" "vba_ok a'"
    "layer_total a' i = kbps_floor (layer_total a i)" "\<forall>j. j \<noteq> i \<longrightarrow> bitrates a' j = bitrates a j"
    "uint (vba_sum a') \<le> uint (vba_sum a)"
proof -
  let ?b = "value_or0 (bitrates a i 0)" and ?n = "max 1 (num_streams (sra_codec s))"
  have i5: "i < kMaxSpatialLayers"
    using wf i by (auto simp: wf_codec_def kMaxSimulcastStreams_def kMaxSpatialLayers_def)
  then have g: "GetBitrate a i 0 = Some ?b" by (simp add: GetBitrate_def in_table_def kMaxTemporalStreams_def)
  have u: "uint (?b div 1000) = uint ?b div 1000" by (simp add: uint_div_distrib)
  have base: "\<forall>ti. ti \<noteq> 0 \<longrightarrow> bitrates a i ti = None" using ex by (simp add: split_exact_def)
  have lt: "layer_total a i = uint ?b" by (rule only_base_layer_total [OF base])
  show ?thesis
  proof (cases "uint ?b < 1000")
    case True
    then have "?b div 1000 = 0" using u by (intro word_uint_eqI) simp
    then show ?thesis using that [of a] ok g True lt by (simp add: distribute_stream_def kbps_floor_def)
  next
    case False
    have bound: "uint ?b < 4294967296" using uint_lt2p [of ?b] by simp
    obtain n where n: "NumTemporalStreams s i = Some n" "1 \<le> n" using NumTemporalStreams_ok [OF wf i] by blast
    have k: "0 < uint (?b div 1000)" "uint (?b div 1000) < 2 ^ 24" "2 \<le> uint (?b div 1000) \<or> n \<le> 2"
      using ex n False bound unfolding u split_exact_def by auto
    obtain l where l: "temporal_rates s ?n i (?b div 1000) = Some l" "l \<noteq> []"
      "length l \<le> kMaxTemporalStreams" "sum_list (map uint l) = uint (?b div 1000)" "0 < hd l"
      using temporal_rates_ok [OF wf i leg k(1,2) n(1) k(3)] .
    have "1000 * sum_list (map uint l) \<le> uint ?b" unfolding l(4) u by simp
    then obtain a' where a': "set_temporal_rates a i 0 l = Some a'" "vba_ok a'"
      "layer_total a' i = 1000 * sum_list (map uint l)" "\<forall>j. j \<noteq> i \<longrightarrow> bitrates a' j = bitrates a j"
      "uint (vba_sum a') \<le> uint (vba_sum a)"
      using set_temporal_rates_from_base [OF ok i5 l(2,3,5) base] by blast
    have "?b div 1000 \<noteq> 0" using k(1) by auto
    then have "distribute_stream s ?n i a = Some a'" using g l(1) a'(1) by (simp add: distribute_stream_def)
    moreover have "layer_total a' i = kbps_floor (layer_total a i)"
      using a'(3) False unfolding l(4) u lt kbps_floor_def by simp
    ultimately show ?thesis using that a' by blast
  qed
qed

lemma distribute_streams_ok:
  assumes wf: "wf_codec (sra_codec s)" and leg: "\<not> legacy_screenshare s"
  shows "distinct is \<Longrightarrow> set is \<subseteq> {..< max 1 (num_streams (sra_codec s))} \<Longrightarrow> vba_ok a \<Longrightarrow>
    \<forall>i \<in> set is. split_exact s a i \<Longrightarrow>
    \<exists>a'. distribute_streams s (max 1 (num_streams (sra_codec s))) is a = Some a' \<and> vba_ok a' \<and>
      uint (vba_sum a') \<le> uint (vba_sum a) \<and> (\<forall>j. j \<notin> set is \<longrightarrow> bitrates a' j = bitrates a j) \<and>
      (\<forall>i \<in> set is. layer_total a' i = kbps_floor (layer_total a i))"
proof (induction "is" arbitrary: a)
  case (Cons i "is")
  let ?n = "max 1 (num_streams (sra_codec s))"
  obtain a1 where a1: "distribute_stream s ?n i a = Some a1" "vba_ok a1"
    "layer_total a1 i = kbps_floor (layer_total a i)" "\<forall>j. j \<noteq> i \<longrightarrow> bitrates a1 j = bitrates a j"
    "uint (vba_sum a1) \<le> uint (vba_sum a)"
    using distribute_stream_ok [OF wf _ leg Cons.prems(3), of i] Cons.prems by auto
  have ne: "j \<noteq> i" if "j \<in> set is" for j using Cons.prems(1) that by auto
  have tot: "layer_total a1 j = layer_total a j" if "j \<noteq> i" for j
    using a1(4) that by (simp add: layer_total_def)
  have "\<forall>j \<in> set is. split_exact s a1 j"
    using Cons.prems(4) a1(4) ne by (auto simp: split_exact_def)
  then obtain a' where a': "distribute_streams s ?n is a1 = Some a'" "vba_ok a'"
    "uint (vba_sum a') \<le> uint (vba_sum a1)" "\<forall>j. j \<notin> set is \<longrightarrow> bitrates a' j = bitrates a1 j"
    "\<forall>j \<in> set is. layer_total a' j = kbps_floor (layer_total a1 j)"
    using Cons.IH [of a1] Cons.prems a1(2) by auto
  have "layer_total a' i = layer_total a1 i" using a'(4) Cons.prems(1) by (simp add: layer_total_def)
  then show ?case
    using a' a1 tot ne Cons.prems(1) by (intro exI [of _ a']) auto
qed simp

section \<open>Properties\<close>

text \<open>
  C35. Splitting a stream's rate over its temporal layers loses and invents nothing: through the
  \<open>float\<close> fractions and the rounding, the individual layer rates are at most one per temporal layer
  and add up to exactly the rate that was split.
\<close>

theorem DefaultTemporalLayerAllocation_conserves:
  assumes "1 \<le> n" "n \<le> kMaxTemporalStreams" "0 < bitrate_kbps" "bitrate_kbps < 2 ^ 24"
  shows "\<exists>l. DefaultTemporalLayerAllocation base_heavy n bitrate_kbps = Some l \<and> l \<noteq> [] \<and>
    length l \<le> n \<and> sum_list (map uint l) = bitrate_kbps"
  using DefaultTemporalLayerAllocation_total [OF assms] by metis

theorem DefaultTemporalLayerAllocation_conserves_witness:
  "\<exists>l. DefaultTemporalLayerAllocation False 3 1999 = Some l \<and> sum_list (map uint l) = 1999"
  using DefaultTemporalLayerAllocation_conserves [of 3 1999 False] by (auto simp: kMaxTemporalStreams_def)

text \<open>
  C18. The simulcast split is total and keeps within its budget on every well-formed configuration:
  the table is consistent, its sum is at most the capped target or the minimum of the first active
  stream, only active streams get a rate and none more than its maximum, and the first active
  stream stays enabled, so the invariant holds for the next call.
\<close>

theorem simulcast_split_within_budget:
  assumes "sra_ok s" "num_streams (sra_codec s) \<noteq> 0" "0 \<le> total_bps"
    "budget (sra_codec s) total_bps \<le> kMaxBitrateBps"
  shows "\<exists>s' a. DistributeAllocationToSimulcastLayers s total_bps stable_bps VideoBitrateAllocation_init =
      Some (s', a) \<and> sra_ok s' \<and> sra_codec s' = sra_codec s \<and> base_layers_ok (sra_codec s) a \<and>
    uint (vba_sum a) \<le> budget (sra_codec s) total_bps"
proof (cases "first_active (sra_codec s)")
  case (Some i)
  show ?thesis by (rule distribute_active [OF assms(1,2) Some assms(3,4), of stable_bps]) auto
next
  case None
  have wf: "wf_codec (sra_codec s)" "length (vc_simulcastStream (sra_codec s)) \<ge> num_streams (sra_codec s)"
    using assms(1) by (auto simp: sra_ok_def wf_codec_def)
  obtain pos where "skip_inactive (sra_codec s) 0 (layer_index (sra_codec s)) = Some (pos, [])"
    using skip_inactive_find [OF wf(1), of "layer_index (sra_codec s)" 0] None
    by (auto simp: first_active_def set_layer_index)
  then have "DistributeAllocationToSimulcastLayers s total_bps stable_bps VideoBitrateAllocation_init =
      Some (s, VideoBitrateAllocation_init)"
    using wf(2) assms(2) by (simp add: DistributeAllocationToSimulcastLayers_def Let_def)
  then show ?thesis
    using base_layers_ok_init assms None by (simp add: VideoBitrateAllocation_init_def budget_def)
qed

definition sample_stream :: "uint32_t \<Rightarrow> SimulcastStream" where
  "sample_stream scale = \<lparr>ss_width = 320, ss_height = 180, ss_maxFramerate = 30, ss_numberOfTemporalLayers = 3,
     ss_maxBitrate = 900 * scale, ss_targetBitrate = 600 * scale, ss_minBitrate = 100 * scale, ss_qpMax = 51,
     ss_active = True\<rparr>"

definition sample_codec :: VideoCodec where
  "sample_codec = \<lparr>vc_codecType = kVideoCodecH264, vc_width = 640, vc_height = 360, vc_startBitrate = 500,
     vc_maxBitrate = 3000, vc_minBitrate = 50, vc_maxFramerate = 30, vc_active = True,
     vc_numberOfSimulcastStreams = 2, vc_simulcastStream = [sample_stream 1, sample_stream 2, sample_stream 4],
     vc_mode = kRealtimeVideo, vc_codec_specific = H264_specific 3000 1, vc_frame_drop_enabled = True\<rparr>"

abbreviation sample_allocator :: SimulcastRateAllocator where
  "sample_allocator \<equiv> SimulcastRateAllocator_init sample_codec False (f64 (12/10)) (f64 (135/100)) False"

lemma sample_allocator_ok: "sra_ok sample_allocator"
  by (simp add: sra_ok_def wf_codec_def SimulcastRateAllocator_init_def sample_codec_def sample_stream_def
      kMaxSimulcastStreams_def kMaxTemporalStreams_def)

theorem simulcast_split_within_budget_witness:
  "\<exists>s' a. DistributeAllocationToSimulcastLayers sample_allocator 2000000 0 VideoBitrateAllocation_init =
      Some (s', a) \<and> uint (vba_sum a) \<le> 2000000"
proof -
  have c: "sra_codec sample_allocator = sample_codec" by (simp add: SimulcastRateAllocator_init_def)
  have "budget sample_codec 2000000 = 2000000" "num_streams sample_codec \<noteq> 0"
    by (simp_all add: budget_def first_active_def layer_index_def sample_codec_def sample_stream_def
        KilobitsPerSec_def upt_rec)
  then show ?thesis
    using simulcast_split_within_budget [OF sample_allocator_ok, of 2000000 0] unfolding c
    by (auto simp: kMaxBitrateBps_def)
qed

text \<open>
  C36. Outside of the legacy conference mode for screen sharing and for a codec configuration within the
  limits on streams and layers, distributing a table of base rates over the temporal layers succeeds,
  keeps the table consistent and never raises its sum. A stream with 1000 bits per second or more ends
  up with its rate rounded down to whole kbps, a stream with less keeps its rate unchanged; excluded
  are streams with three or more temporal layers and a rate from 1000 to 1999 bits per second.
\<close>

theorem temporal_split_rounds_down:
  assumes "wf_codec (sra_codec s)" "\<not> legacy_screenshare s" "vba_ok a"
    "\<forall>i < max 1 (num_streams (sra_codec s)). split_exact s a i"
  shows "\<exists>a'. DistributeAllocationToTemporalLayers s a = Some a' \<and> vba_ok a' \<and>
    uint (vba_sum a') \<le> uint (vba_sum a) \<and>
    (\<forall>i < max 1 (num_streams (sra_codec s)). layer_total a' i = kbps_floor (layer_total a i))"
  using distribute_streams_ok [OF assms(1,2), of "[0 ..< max 1 (num_streams (sra_codec s))]" a] assms(3,4)
  by (auto simp: DistributeAllocationToTemporalLayers_def Let_def atLeast0LessThan)

definition two_streams :: VideoBitrateAllocation where
  "two_streams = VideoBitrateAllocation_init\<lparr>vba_sum := 1501700,
     bitrates := \<lambda>si ti. if ti = 0 then (if si = 0 then Some 600500 else if si = 1 then Some 901200 else None) else None\<rparr>"

theorem temporal_split_rounds_down_witness:
  "\<exists>a'. DistributeAllocationToTemporalLayers sample_allocator two_streams = Some a' \<and>
     layer_total a' 0 = 600000 \<and> layer_total a' 1 = 901000"
proof -
  have c: "sra_codec sample_allocator = sample_codec" "num_streams sample_codec = 2"
    by (simp_all add: SimulcastRateAllocator_init_def sample_codec_def)
  have "wf_codec (sra_codec sample_allocator)" using sample_allocator_ok by (simp add: sra_ok_def)
  moreover have "\<not> legacy_screenshare sample_allocator"
    by (simp add: legacy_screenshare_def SimulcastRateAllocator_init_def)
  moreover have "layer_total two_streams i = rate two_streams i 0" for i
    by (rule only_base_layer_total) (simp add: two_streams_def)
  then have tot: "layer_total two_streams 0 = 600500" "layer_total two_streams 1 = 901200"
    "layer_total two_streams 2 = 0" "layer_total two_streams 3 = 0" "layer_total two_streams 4 = 0"
    by (simp_all add: two_streams_def value_or0_def)
  have "{..<kMaxSpatialLayers} = {0, 1, 2, 3, 4}" by (auto simp: kMaxSpatialLayers_def)
  then have "vba_ok two_streams" unfolding vba_ok_def using tot by (simp add: two_streams_def)
  moreover have "\<forall>i<max 1 (num_streams (sra_codec sample_allocator)). split_exact sample_allocator two_streams i"
    unfolding c by (auto simp: split_exact_def two_streams_def value_or0_def)
  ultimately show ?thesis
    using temporal_split_rounds_down [of sample_allocator two_streams] tot unfolding c
    by (auto simp: kbps_floor_def)
qed

definition one_kbps :: VideoBitrateAllocation where
  "one_kbps = VideoBitrateAllocation_init\<lparr>vba_sum := 1000, bitrates := (\<lambda>_ _. None)(0 := (\<lambda>_. None)(0 := Some 1000))\<rparr>"

text \<open>
  The exception is real: a stream of exactly one kbps with three temporal layers rounds its
  base layer to zero, the base rate is then left in place and the next layer added on top, so the
  stream is given twice its rate.
\<close>

theorem one_kbps_stream_doubles:
  "get_sum_bps one_kbps = 1000 \<and>
   map_option get_sum_bps (DistributeAllocationToTemporalLayers sample_allocator one_kbps) = Some 2000"
  by code_simp

end
