(* ===== verification/RateControl.thy ===== *)
theory RateControl
  imports SimulcastRate
begin

text \<open>
  What the rate path hands to an encoder: the process-wide MAE settings of \<open>rtc_base/helpers.cc\<close>
  and \<open>VideoEncoder::RateControlParameters\<close> of \<open>api/video_codecs/video_encoder.cc\<close>. The shorter
  constructors leave some members uninitialised; the values found there are arguments.
\<close>

section \<open>Process-wide settings\<close>

record rtc_settings =
  g_vbv_buffer_ratio :: rat
  g_min_qp :: int
  g_max_qp :: int
  g_codec_choose :: int

definition rtc_settings_init :: rtc_settings where
  "rtc_settings_init = \<lparr>g_vbv_buffer_ratio = 1, g_min_qp = 2, g_max_qp = 51, g_codec_choose = 0\<rparr>"

definition SetVBVBufferRatio :: "rat \<Rightarrow> rtc_settings \<Rightarrow> rtc_settings" where
  "SetVBVBufferRatio ratio g = g\<lparr>g_vbv_buffer_ratio := ratio\<rparr>"

definition SetCodecChoose :: "int \<Rightarrow> rtc_settings \<Rightarrow> rtc_settings" where
  "SetCodecChoose mode g = g\<lparr>g_codec_choose := mode\<rparr>"

definition SetQPBounds :: "int \<Rightarrow> int \<Rightarrow> rtc_settings \<Rightarrow> rtc_settings" where
  "SetQPBounds min_qp max_qp g = g\<lparr>g_min_qp := min_qp, g_max_qp := max_qp\<rparr>"

section \<open>Rate control parameters\<close>

record RateControlParameters =
  rc_target_bitrate :: VideoBitrateAllocation
  rc_bitrate :: VideoBitrateAllocation
  rc_framerate_fps :: rat
  rc_bandwidth_allocation :: int
  rc_current_rtt :: int
  rc_is_overused_for_encoder :: rat

definition RateControlParameters_basic ::
  "int \<Rightarrow> rat \<Rightarrow> VideoBitrateAllocation \<Rightarrow> rat \<Rightarrow> RateControlParameters" where
  "RateControlParameters_basic junk_rtt junk_overuse bitrate framerate_fps =
     \<lparr>rc_target_bitrate = VideoBitrateAllocation_init, rc_bitrate = bitrate, rc_framerate_fps = framerate_fps,
      rc_bandwidth_allocation = uint (get_sum_bps bitrate), rc_current_rtt = junk_rtt,
      rc_is_overused_for_encoder = junk_overuse\<rparr>"

definition RateControlParameters_full ::
  "VideoBitrateAllocation \<Rightarrow> rat \<Rightarrow> int \<Rightarrow> int \<Rightarrow> rat \<Rightarrow> RateControlParameters" where
  "RateControlParameters_full bitrate framerate_fps bandwidth_allocation current_rtt is_overused_for_encoder =
     \<lparr>rc_target_bitrate = VideoBitrateAllocation_init, rc_bitrate = bitrate, rc_framerate_fps = framerate_fps,
      rc_bandwidth_allocation = bandwidth_allocation, rc_current_rtt = current_rtt,
      rc_is_overused_for_encoder = is_overused_for_encoder\<rparr>"

definition rate_parameters_eq :: "RateControlParameters \<Rightarrow> RateControlParameters \<Rightarrow> bool" where
  "rate_parameters_eq p q \<longleftrightarrow> allocation_eq (rc_bitrate p) (rc_bitrate q) \<and>
     rc_framerate_fps p = rc_framerate_fps q \<and> rc_bandwidth_allocation p = rc_bandwidth_allocation q"

end
