(* ===== verification/H264Encoder.thy ===== *)
theory H264Encoder
  imports RateControl
begin

text \<open>
  The x264 wrapper that MAE puts in place of the OpenH264 encoder:
  \<open>modules/video_coding/codecs/h264/h264_encoder_impl.cc\<close>. The x264 library, the scalability
  controllers and the bitstream parser are parameters (\<open>encoder_env\<close>); as they keep state of their
  own, their answers may depend on the history of the calls made to them, which the wrapper's state
  records (newest call first). An x264 handle is a number, \<^term>\<open>None\<close> the null pointer. The members
  that the constructor leaves uninitialised are its arguments. A result \<^term>\<open>None\<close> is a failed
  \<open>RTC_CHECK\<close> or an access outside a vector or buffer.
\<close>

section \<open>Types\<close>

datatype VideoFrameType = kEmptyFrame | kVideoFrameKey | kVideoFrameDelta

datatype H264PacketizationMode = NonInterleaved | SingleNalUnit

text \<open>The scalability modes that the wrapper can ask for.\<close>

datatype ScalabilityMode = kL1T1 | kL1T2 | kL1T3

record LayerConfig =
  simulcast_idx :: int
  cfg_width :: int
  cfg_height :: int
  sending :: bool
  key_frame_request :: bool
  max_frame_rate :: rat
  target_bps :: uint32_t
  max_bps :: uint32_t
  frame_dropping_on :: bool
  key_frame_interval :: int
  num_temporal_layers :: int

definition LayerConfig_init :: LayerConfig where
  "LayerConfig_init = \<lparr>simulcast_idx = 0, cfg_width = - 1, cfg_height = - 1, sending = True,
     key_frame_request = False, max_frame_rate = 0, target_bps = 0, max_bps = 0,
     frame_dropping_on = False, key_frame_interval = 0, num_temporal_layers = 1\<rparr>"

text \<open>The fields of \<open>x264_param_t\<close> that the wrapper writes, and their enumeration values.\<close>

datatype x264_rc_method = X264_RC_CQP | X264_RC_CRF | X264_RC_ABR
datatype x264_csp = X264_CSP_NONE | X264_CSP_I420
datatype x264_log_level = X264_LOG_NONE | X264_LOG_INFO
datatype x264_type = X264_TYPE_AUTO | X264_TYPE_IDR

record x264_param =
  b_sliced_threads :: int
  i_bitdepth :: int
  i_threads :: int
  i_width :: int
  i_height :: int
  i_frame_total :: int
  i_keyint_max :: int
  i_rc_method :: x264_rc_method
  i_bitrate :: int
  i_vbv_max_bitrate :: int
  i_vbv_buffer_size :: int
  b_filler :: int
  i_qp_min :: int
  i_qp_max :: int
  i_log_level :: x264_log_level
  i_fps_den :: int
  i_fps_num :: int
  b_annexb :: int
  i_csp :: x264_csp
  b_vfr_input :: int
  b_repeat_headers :: int

record I420Buffer =
  DataY :: "uint8_t list"
  DataU :: "uint8_t list"
  DataV :: "uint8_t list"

record x264_picture =
  img_i_csp :: x264_csp
  img_i_plane :: int
  img_plane :: I420Buffer
  i_type :: x264_type
  b_keyframe :: bool
  i_pts :: int

text \<open>A NAL unit: its length and the bytes that can be read at its payload pointer.\<close>

record x264_nal =
  i_payload :: int
  p_payload :: "uint8_t list"

datatype x264_call =
  X264_encoder_open x264_param "nat option"
| X264_encoder_reconfig "nat option" x264_param
| X264_encoder_encode "nat option" x264_picture
| X264_encoder_close "nat option"
| X264_picture_clean

text \<open>Values that only pass through the wrapper.\<close>

typedecl GenericFrameInfo
typedecl FrameDependencyStructure
typedecl ColorSpace

record LayerFrameConfig =
  TemporalId :: int

datatype svc_call = NextFrameConfig bool | OnEncodeDone LayerFrameConfig

record svc_controller =
  svc_mode :: ScalabilityMode
  svc_calls :: "svc_call list"

record encoder_env =
  x264_param_default :: x264_param
  x264_param_default_preset :: "x264_param \<Rightarrow> int \<times> x264_param"
  x264_param_apply_profile :: "x264_param \<Rightarrow> int \<times> x264_param"
  x264_picture_alloc :: "x264_csp \<Rightarrow> int \<Rightarrow> int \<Rightarrow> int \<times> x264_picture"
  x264_encoder_open :: "x264_call list \<Rightarrow> x264_param \<Rightarrow> nat option"
  x264_encoder_encode :: "x264_call list \<Rightarrow> nat option \<Rightarrow> x264_picture \<Rightarrow> int \<times> x264_nal list"
  svc_available :: "ScalabilityMode \<Rightarrow> bool"
  svc_next_frame_config :: "ScalabilityMode \<Rightarrow> svc_call list \<Rightarrow> bool \<Rightarrow> LayerFrameConfig list"
  svc_on_encode_done :: "ScalabilityMode \<Rightarrow> svc_call list \<Rightarrow> LayerFrameConfig \<Rightarrow> GenericFrameInfo option"
  svc_dependency_structure :: "ScalabilityMode \<Rightarrow> svc_call list \<Rightarrow> FrameDependencyStructure"
  last_slice_qp :: "uint8_t list list \<Rightarrow> int option"
  env_stable_rate_enabled :: bool
  env_video_hysteresis :: rat
  env_screenshare_hysteresis :: rat
  env_base_heavy_tl3 :: bool
  junk_rtt :: int
  junk_overuse :: rat

record EncodedImage =
  ei_buffer :: "uint8_t list"
  ei_size :: nat
  ei_encodedWidth :: int
  ei_encodedHeight :: int
  ei_timestamp :: uint32_t
  ei_color_space :: "ColorSpace option"
  ei_frameType :: VideoFrameType
  ei_simulcast_index :: "int option"
  ei_temporal_index :: "int option"
  ei_qp :: int

definition kNoTemporalIdx :: uint8_t where
  "kNoTemporalIdx = 0xFF"

record CodecSpecificInfo =
  csi_codecType :: VideoCodecType
  csi_packetization_mode :: H264PacketizationMode
  csi_temporal_idx :: uint8_t
  csi_idr_frame :: bool
  csi_base_layer_sync :: bool
  csi_generic_frame_info :: "GenericFrameInfo option"
  csi_template_structure :: "FrameDependencyStructure option"
  csi_scalability_mode :: "ScalabilityMode option"

datatype H264EncoderImplEvent = kH264EncoderEventInit | kH264EncoderEventError

record H264EncoderImpl =
  m_codec_settings :: VideoCodec
  m_codec :: VideoCodec
  m_downscaled_buffers :: "(int \<times> int) option list"
  m_configurations :: "LayerConfig list"
  m_encoded_images :: "EncodedImage list"
  m_svc_controllers :: "svc_controller option list"
  m_scalability_modes :: "ScalabilityMode option list"
  m_packetization_mode :: H264PacketizationMode
  m_max_payload_size :: nat
  m_number_of_cores :: int
  m_encoder_thread_limit :: "int option"
  m_encoded_image_callback :: bool
  m_has_reported_init :: bool
  m_has_reported_error :: bool
  m_tl0sync_limit :: "uint8_t list"
  m_inited :: bool
  m_pic :: x264_picture
  m_encoder :: "nat option"
  m_param :: x264_param
  set_rate_count :: int
  calls :: "x264_call list"
  parsed :: "uint8_t list list"
  events :: "H264EncoderImplEvent list"
  delivered :: "(EncodedImage \<times> CodecSpecificInfo) list"

text \<open>Return codes.\<close>

definition WEBRTC_VIDEO_CODEC_OK :: int where "WEBRTC_VIDEO_CODEC_OK = 0"
definition WEBRTC_VIDEO_CODEC_ERROR :: int where "WEBRTC_VIDEO_CODEC_ERROR = - 1"
definition WEBRTC_VIDEO_CODEC_ERR_PARAMETER :: int where "WEBRTC_VIDEO_CODEC_ERR_PARAMETER = - 4"
definition WEBRTC_VIDEO_CODEC_UNINITIALIZED :: int where "WEBRTC_VIDEO_CODEC_UNINITIALIZED = - 7"
definition WEBRTC_VIDEO_CODEC_ERR_SIMULCAST_PARAMETERS_NOT_SUPPORTED :: int where
  "WEBRTC_VIDEO_CODEC_ERR_SIMULCAST_PARAMETERS_NOT_SUPPORTED = - 15"
definition WEBRTC_VIDEO_CODEC_ENCODER_FAILURE :: int where "WEBRTC_VIDEO_CODEC_ENCODER_FAILURE = - 16"

lemmas codec_status_defs = WEBRTC_VIDEO_CODEC_OK_def WEBRTC_VIDEO_CODEC_ERROR_def
  WEBRTC_VIDEO_CODEC_ERR_PARAMETER_def WEBRTC_VIDEO_CODEC_UNINITIALIZED_def
  WEBRTC_VIDEO_CODEC_ERR_SIMULCAST_PARAMETERS_NOT_SUPPORTED_def WEBRTC_VIDEO_CODEC_ENCODER_FAILURE_def

section \<open>Helpers\<close>

definition ScalabilityModeFromTemporalLayers :: "int \<Rightarrow> ScalabilityMode option" where
  "ScalabilityModeFromTemporalLayers n =
     (if n = 1 then Some kL1T1
      else if n = 2 then Some kL1T2
      else if n = 3 then Some kL1T3
      else None)"

definition CalcBufferSize_I420 :: "int \<Rightarrow> int \<Rightarrow> nat" where
  "CalcBufferSize_I420 width height =
     (let half_width = (width + 1) div 2; half_height = (height + 1) div 2
      in nat (width * height + half_width * half_height * 2))"

definition kMaxSizeT :: int where
  "kMaxSizeT = 2 ^ 64 - 1"

fun nal_capacity :: "int \<Rightarrow> x264_nal list \<Rightarrow> int option" where
  "nal_capacity required_capacity [] = Some required_capacity"
| "nal_capacity required_capacity (nal # nals) =
     (if i_payload nal < 0 \<or> kMaxSizeT - required_capacity < i_payload nal then None
      else nal_capacity (required_capacity + i_payload nal) nals)"

text \<open>
  The body of the copying loop: it logs the first four bytes at the payload pointer, whatever the
  length of the NAL unit, and appends the unit to the data copied so far with \<open>memcpy\<close>.
\<close>

definition copy_nal :: "x264_nal \<Rightarrow> EncodedImage \<Rightarrow> EncodedImage option" where
  "copy_nal nal img =
     (let n = nat (i_payload nal)
      in if length (p_payload nal) < 4 then None
         else if length (p_payload nal) < n \<or> length (ei_buffer img) < ei_size img + n then None
         else Some (img\<lparr>ei_buffer := take (ei_size img) (ei_buffer img) @ take n (p_payload nal) @
                          drop (ei_size img + n) (ei_buffer img),
                        ei_size := ei_size img + n\<rparr>))"

fun copy_nals :: "x264_nal list \<Rightarrow> EncodedImage \<Rightarrow> EncodedImage option" where
  "copy_nals [] img = Some img"
| "copy_nals (nal # nals) img = do { img' \<leftarrow> copy_nal nal img; copy_nals nals img' }"

text \<open>\<open>EncodedImageBuffer::Create\<close> allocates without initialising; the content is overwritten.\<close>

definition RtpFragmentize :: "EncodedImage \<Rightarrow> x264_nal list \<Rightarrow> EncodedImage option" where
  "RtpFragmentize encoded_image nals = do {
     required_capacity \<leftarrow> nal_capacity 0 nals;
     copy_nals nals (encoded_image\<lparr>ei_buffer := replicate (nat required_capacity) 0, ei_size := 0\<rparr>) }"

definition SetStreamState :: "LayerConfig \<Rightarrow> bool \<Rightarrow> LayerConfig" where
  "SetStreamState cfg send_stream =
     (if send_stream \<and> \<not> sending cfg then cfg\<lparr>key_frame_request := True, sending := send_stream\<rparr>
      else cfg\<lparr>sending := send_stream\<rparr>)"

definition ReportInit :: "H264EncoderImpl \<Rightarrow> H264EncoderImpl" where
  "ReportInit e = (if m_has_reported_init e then e
     else e\<lparr>events := kH264EncoderEventInit # events e, m_has_reported_init := True\<rparr>)"

definition ReportError :: "H264EncoderImpl \<Rightarrow> H264EncoderImpl" where
  "ReportError e = (if m_has_reported_error e then e
     else e\<lparr>events := kH264EncoderEventError # events e, m_has_reported_error := True\<rparr>)"

definition Release :: "H264EncoderImpl \<Rightarrow> H264EncoderImpl" where
  "Release e = e\<lparr>m_encoder := None, m_downscaled_buffers := [], m_configurations := [], m_encoded_images := [],
     m_tl0sync_limit := [], m_svc_controllers := [], m_scalability_modes := []\<rparr>"

definition RegisterEncodeCompleteCallback :: "H264EncoderImpl \<Rightarrow> bool \<Rightarrow> int \<times> H264EncoderImpl" where
  "RegisterEncodeCompleteCallback e callback =
     (WEBRTC_VIDEO_CODEC_OK, e\<lparr>m_encoded_image_callback := callback\<rparr>)"

definition H264EncoderImpl_init ::
  "bool \<Rightarrow> x264_picture \<Rightarrow> nat option \<Rightarrow> x264_param \<Rightarrow> string option \<Rightarrow> H264EncoderImpl" where
  "H264EncoderImpl_init junk_inited junk_pic junk_encoder junk_param packetization_mode =
     \<lparr>m_codec_settings = VideoCodec_init, m_codec = VideoCodec_init, m_downscaled_buffers = [], m_configurations = [],
      m_encoded_images = [], m_svc_controllers = [], m_scalability_modes = [],
      m_packetization_mode = (if packetization_mode = Some ''1'' then NonInterleaved else SingleNalUnit),
      m_max_payload_size = 0, m_number_of_cores = 0, m_encoder_thread_limit = None,
      m_encoded_image_callback = False, m_has_reported_init = False, m_has_reported_error = False,
      m_tl0sync_limit = [], m_inited = junk_inited, m_pic = junk_pic, m_encoder = junk_encoder,
      m_param = junk_param, set_rate_count = 0, calls = [], parsed = [], events = [], delivered = []\<rparr>"

section \<open>InitEncode\<close>

text \<open>The parameters that \<open>InitEncode\<close> sets on top of the preset, up to the profile restriction.\<close>

definition configure_param :: "rtc_settings \<Rightarrow> VideoCodec \<Rightarrow> x264_param \<Rightarrow> x264_param" where
  "configure_param g inst p =
     (let bitrate_kbps = 3000;
          p1 = p\<lparr>b_sliced_threads := 1, i_bitdepth := 8, i_threads := 1,
                 i_width := uint (vc_width inst), i_height := uint (vc_height inst),
                 i_frame_total := 0, i_keyint_max := 1500, i_rc_method := X264_RC_ABR,
                 i_bitrate := bitrate_kbps, i_vbv_max_bitrate := bitrate_kbps,
                 i_vbv_buffer_size := trunc (dmul (of_int bitrate_kbps) (f64 (5/10)))\<rparr>;
          p2 = (if g_codec_choose g = 5
                then p1\<lparr>b_filler := 1, i_vbv_buffer_size := trunc (dmul (of_int bitrate_kbps) (f64 (4/100)))\<rparr>
                else p1)
      in p2\<lparr>i_qp_min := g_min_qp g, i_qp_max := g_max_qp g, i_log_level := X264_LOG_INFO,
            i_fps_den := 1, i_fps_num := 30, b_annexb := 1, i_csp := X264_CSP_I420,
            b_vfr_input := 0, b_repeat_headers := 1\<rparr>)"

text \<open>The error exits of the x264 part close the handle that \<open>encoder_\<close> holds.\<close>

definition fail_x264 :: "H264EncoderImpl \<Rightarrow> H264EncoderImpl" where
  "fail_x264 e = e\<lparr>calls := X264_encoder_close (m_encoder e) # calls e, m_encoder := None\<rparr>"

definition init_x264 ::
  "encoder_env \<Rightarrow> rtc_settings \<Rightarrow> VideoCodec \<Rightarrow> H264EncoderImpl \<Rightarrow> bool \<times> H264EncoderImpl" where
  "init_x264 env g inst e0 =
     (let e = e0\<lparr>m_codec_settings := inst\<rparr>;
          (ret_preset, p0) = x264_param_default_preset env (x264_param_default env)
      in if ret_preset \<noteq> 0 then (False, fail_x264 (e\<lparr>m_param := p0\<rparr>))
         else let (ret_profile, p) = x264_param_apply_profile env (configure_param g inst p0);
                  e1 = e\<lparr>m_param := p\<rparr>
              in if ret_profile \<noteq> 0 then (False, fail_x264 e1)
                 else let (ret_alloc, pic) = x264_picture_alloc env (i_csp p) (i_width p) (i_height p);
                          e2 = e1\<lparr>m_pic := pic\<rparr>
                      in if ret_alloc \<noteq> 0 then (False, fail_x264 e2)
                         else let h = x264_encoder_open env (calls e2) p;
                                  e3 = e2\<lparr>m_encoder := h, calls := X264_encoder_open p h # calls e2\<rparr>
                              in if h = None
                                 then (False, e3\<lparr>calls := X264_picture_clean # X264_encoder_close h # calls e3,
                                                  m_encoder := None\<rparr>)
                                 else (True, e3\<lparr>m_inited := True\<rparr>))"

definition init_layer_config :: "VideoCodec \<Rightarrow> SimulcastStream \<Rightarrow> int \<times> uint8_t \<Rightarrow> nat \<Rightarrow> LayerConfig \<Rightarrow> LayerConfig" where
  "init_layer_config c stream h264 idx cfg =
     cfg\<lparr>simulcast_idx := int idx, sending := False, cfg_width := ss_width stream,
         cfg_height := ss_height stream, max_frame_rate := f32 (of_int (uint (vc_maxFramerate c))),
         frame_dropping_on := vc_frame_drop_enabled c, key_frame_interval := fst h264,
         num_temporal_layers := uint (max (snd h264) (ss_numberOfTemporalLayers stream)),
         max_bps := vc_maxBitrate c * 1000, target_bps := vc_startBitrate c * 1000\<rparr>"

definition init_encoded_image :: "SimulcastStream \<Rightarrow> EncodedImage \<Rightarrow> EncodedImage" where
  "init_encoded_image stream img =
     img\<lparr>ei_buffer := replicate (CalcBufferSize_I420 (ss_width stream) (ss_height stream)) 0,
         ei_encodedWidth := ss_width stream, ei_encodedHeight := ss_height stream, ei_size := 0\<rparr>"

text \<open>One round of the loop over the streams; \<open>Inl\<close> is an early return.\<close>

definition init_stream ::
  "encoder_env \<Rightarrow> rtc_settings \<Rightarrow> VideoCodec \<Rightarrow> nat \<Rightarrow> nat \<Rightarrow> H264EncoderImpl \<Rightarrow>
   ((int \<times> H264EncoderImpl) + H264EncoderImpl) option" where
  "init_stream env g inst number_of_streams i e0 =
     (let idx = number_of_streams - 1 - i;
          (ok, e) = init_x264 env g inst e0
      in if \<not> ok then Some (Inl (WEBRTC_VIDEO_CODEC_ERROR, e))
         else do {
           stream \<leftarrow> stream_at (m_codec e) idx;
           h264 \<leftarrow> H264_codec (vc_codec_specific (m_codec e));
           let cfg = init_layer_config (m_codec e) stream h264 idx (m_configurations e ! i);
           let mode = ScalabilityModeFromTemporalLayers (num_temporal_layers cfg);
           let e1 = e\<lparr>m_configurations := (m_configurations e)[i := cfg],
                      m_downscaled_buffers := (if i > 0
                        then (m_downscaled_buffers e)[i - 1 := Some (cfg_width cfg, cfg_height cfg)]
                        else m_downscaled_buffers e),
                      m_encoded_images := (m_encoded_images e)[i := init_encoded_image stream (m_encoded_images e ! i)],
                      m_tl0sync_limit := (m_tl0sync_limit e)[i := word_of_int (num_temporal_layers cfg)],
                      m_scalability_modes := (m_scalability_modes e)[i := mode]\<rparr>;
           Some (case mode of
               None \<Rightarrow> Inr e1
             | Some m \<Rightarrow>
                 if svc_available env m
                 then Inr (e1\<lparr>m_svc_controllers := (m_svc_controllers e1)[i := Some \<lparr>svc_mode = m, svc_calls = []\<rparr>]\<rparr>)
                 else Inl (WEBRTC_VIDEO_CODEC_ERROR,
                           ReportError (Release (e1\<lparr>m_svc_controllers := (m_svc_controllers e1)[i := None]\<rparr>)))) })"

fun init_streams ::
  "encoder_env \<Rightarrow> rtc_settings \<Rightarrow> VideoCodec \<Rightarrow> nat \<Rightarrow> nat list \<Rightarrow> H264EncoderImpl \<Rightarrow>
   ((int \<times> H264EncoderImpl) + H264EncoderImpl) option" where
  "init_streams env g inst n [] e = Some (Inr e)"
| "init_streams env g inst n (i # is) e = do {
     r \<leftarrow> init_stream env g inst n i e;
     case r of Inl x \<Rightarrow> Some (Inl x) | Inr e' \<Rightarrow> init_streams env g inst n is e' }"

definition EncodedImage_init :: EncodedImage where
  "EncodedImage_init = \<lparr>ei_buffer = [], ei_size = 0, ei_encodedWidth = 0, ei_encodedHeight = 0, ei_timestamp = 0,
     ei_color_space = None, ei_frameType = kVideoFrameDelta, ei_simulcast_index = None,
     ei_temporal_index = None, ei_qp = - 1\<rparr>"

section \<open>SetRates\<close>

definition vbv_ratio :: "rtc_settings \<Rightarrow> RateControlParameters \<Rightarrow> rat" where
  "vbv_ratio g parameters =
     (let codec_mode = g_codec_choose g
      in if codec_mode \<ge> 4
         then (if rc_is_overused_for_encoder parameters > 2 then f64 (4/100) else f64 (5/10))
         else if codec_mode = 3 \<or> codec_mode = 5 then f64 (4/100)
         else f64 (5/10))"

definition SetRates :: "rtc_settings \<Rightarrow> RateControlParameters \<Rightarrow> H264EncoderImpl \<Rightarrow> H264EncoderImpl option" where
  "SetRates g parameters e =
     (if m_encoder e = None then Some e
      else if rc_framerate_fps parameters < 1 then Some e
      else if get_sum_bps (rc_bitrate parameters) = 0
        then Some (e\<lparr>m_configurations := map (\<lambda>cfg. SetStreamState cfg False) (m_configurations e)\<rparr>)
      else (case m_configurations e of
          [] \<Rightarrow> None
        | cfg # cfgs \<Rightarrow> do {
            target \<leftarrow> GetSpatialLayerSum (rc_bitrate parameters) 0;
            let e1 = e\<lparr>m_codec := (m_codec e)\<lparr>vc_maxFramerate := word_of_int (trunc (rc_framerate_fps parameters))\<rparr>\<rparr>;
            let cfg1 = cfg\<lparr>target_bps := target, max_frame_rate := f32 (rc_framerate_fps parameters)\<rparr>;
            if target \<noteq> 0 then do {
              let bitrate_kbps = uint (target div 1000);
              let p = (m_param e1)\<lparr>i_bitrate := bitrate_kbps, i_vbv_max_bitrate := bitrate_kbps,
                        i_vbv_buffer_size := trunc (dmul (of_int bitrate_kbps) (vbv_ratio g parameters)),
                        i_fps_num := 30\<rparr>;
              Some (e1\<lparr>m_configurations := SetStreamState cfg1 True # cfgs, m_param := p,
                       set_rate_count := set_rate_count e1 + 1,
                       calls := X264_encoder_reconfig (m_encoder e1) p # calls e1\<rparr>) }
            else Some (e1\<lparr>m_configurations := SetStreamState cfg1 False # cfgs\<rparr>) }))"

section \<open>InitEncode, continued\<close>

definition resize_members :: "nat \<Rightarrow> H264EncoderImpl \<Rightarrow> H264EncoderImpl" where
  "resize_members n e = e\<lparr>m_downscaled_buffers := replicate (n - 1) None,
     m_encoded_images := replicate n EncodedImage_init, m_svc_controllers := replicate n None,
     m_scalability_modes := replicate n None, m_configurations := replicate n LayerConfig_init,
     m_tl0sync_limit := replicate n 0\<rparr>"

definition fill_stream_size :: "VideoCodec \<Rightarrow> VideoCodec" where
  "fill_stream_size c =
     (if vc_numberOfSimulcastStreams c = 0
      then c\<lparr>vc_simulcastStream := (vc_simulcastStream c)
               [0 := (vc_simulcastStream c ! 0)\<lparr>ss_width := uint (vc_width c), ss_height := uint (vc_height c)\<rparr>]\<rparr>
      else c)"

definition initial_rates ::
  "encoder_env \<Rightarrow> rtc_settings \<Rightarrow> H264EncoderImpl \<Rightarrow> (int \<times> H264EncoderImpl) option" where
  "initial_rates env g e = do {
     let init_allocator = SimulcastRateAllocator_init (m_codec e) (env_stable_rate_enabled env)
       (env_video_hysteresis env) (env_screenshare_hysteresis env) (env_base_heavy_tl3 env);
     let start = KilobitsPerSec (uint (vc_startBitrate (m_codec e)));
     (_, allocation) \<leftarrow> Allocate init_allocator start start;
     e' \<leftarrow> SetRates g (RateControlParameters_basic (junk_rtt env) (junk_overuse env) allocation
       (of_int (uint (vc_maxFramerate (m_codec e))))) e;
     Some (WEBRTC_VIDEO_CODEC_OK, e') }"

lemma initial_ratesD:
  assumes "initial_rates env g e = Some (r, e')"
  shows "r = WEBRTC_VIDEO_CODEC_OK" "\<exists>parameters. SetRates g parameters e = Some e'"
  using assms by (auto simp: initial_rates_def Let_def split: bind_splits)

definition begin_streams ::
  "nat \<Rightarrow> VideoCodec \<Rightarrow> nat \<Rightarrow> int \<Rightarrow> int option \<Rightarrow> H264EncoderImpl \<Rightarrow> H264EncoderImpl" where
  "begin_streams n inst max_payload_size number_of_cores encoder_thread_limit e =
     (resize_members n e)
       \<lparr>m_max_payload_size := max_payload_size, m_number_of_cores := number_of_cores,
        m_encoder_thread_limit := encoder_thread_limit, m_codec := fill_stream_size inst\<rparr>"

definition InitEncode ::
  "encoder_env \<Rightarrow> rtc_settings \<Rightarrow> VideoCodec option \<Rightarrow> nat \<Rightarrow> int \<Rightarrow> int option \<Rightarrow> H264EncoderImpl \<Rightarrow>
   (int \<times> H264EncoderImpl) option" where
  "InitEncode env g inst_ptr max_payload_size number_of_cores encoder_thread_limit e0 =
     (let e = ReportInit e0
      in case inst_ptr of
        None \<Rightarrow> Some (WEBRTC_VIDEO_CODEC_ERR_PARAMETER, ReportError e)
      | Some inst \<Rightarrow>
          if vc_codecType inst \<noteq> kVideoCodecH264 then Some (WEBRTC_VIDEO_CODEC_ERR_PARAMETER, ReportError e)
          else if vc_maxFramerate inst = 0 then Some (WEBRTC_VIDEO_CODEC_ERR_PARAMETER, ReportError e)
          else if vc_width inst < 1 \<or> vc_height inst < 1 then Some (WEBRTC_VIDEO_CODEC_ERR_PARAMETER, ReportError e)
          else do {
            let e1 = Release e;
            number_of_streams \<leftarrow> NumberOfSimulcastStreams inst;
            valid \<leftarrow> (if number_of_streams > 1 then ValidSimulcastParameters inst number_of_streams else Some True);
            if \<not> valid then Some (WEBRTC_VIDEO_CODEC_ERR_SIMULCAST_PARAMETERS_NOT_SUPPORTED, e1)
            else do {
              let e2 = begin_streams number_of_streams inst max_payload_size number_of_cores encoder_thread_limit e1;
              r \<leftarrow> init_streams env g inst number_of_streams [0 ..< number_of_streams] e2;
              case r of
                Inl x \<Rightarrow> Some x
              | Inr e3 \<Rightarrow> initial_rates env g e3 } })"

text \<open>The ways in which \<open>InitEncode\<close> returns.\<close>

lemma InitEncode_cases:
  assumes "InitEncode env g inst_ptr payload cores limit e = Some (r, e')"
  obtains (bad_parameter) "r = WEBRTC_VIDEO_CODEC_ERR_PARAMETER" "e' = ReportError (ReportInit e)"
  | (bad_simulcast) "r = WEBRTC_VIDEO_CODEC_ERR_SIMULCAST_PARAMETERS_NOT_SUPPORTED" "e' = Release (ReportInit e)"
  | (stream_error) inst n where "inst_ptr = Some inst" "vc_codecType inst = kVideoCodecH264"
      "NumberOfSimulcastStreams inst = Some n"
      "init_streams env g inst n [0 ..< n] (begin_streams n inst payload cores limit (Release (ReportInit e))) =
         Some (Inl (r, e'))"
  | (started) inst n e3 parameters where "r = WEBRTC_VIDEO_CODEC_OK" "inst_ptr = Some inst"
      "vc_codecType inst = kVideoCodecH264" "NumberOfSimulcastStreams inst = Some n"
      "init_streams env g inst n [0 ..< n] (begin_streams n inst payload cores limit (Release (ReportInit e))) =
         Some (Inr e3)"
      "SetRates g parameters e3 = Some e'"
proof -
  show thesis
  proof (cases inst_ptr)
    case None
    then show thesis using assms bad_parameter by (simp add: InitEncode_def Let_def)
  next
    case (Some inst)
    show thesis
    proof (cases "vc_codecType inst \<noteq> kVideoCodecH264 \<or> vc_maxFramerate inst = 0 \<or> vc_width inst < 1 \<or> vc_height inst < 1")
      case True
      then show thesis using assms Some bad_parameter by (auto simp: InitEncode_def Let_def split: if_splits)
    next
      case False
      then obtain n where n: "NumberOfSimulcastStreams inst = Some n"
        using assms Some by (auto simp: InitEncode_def Let_def split: bind_splits)
      obtain valid where v: "(if n > 1 then ValidSimulcastParameters inst n else Some True) = Some valid"
        using assms Some False n
        by (cases "if n > 1 then ValidSimulcastParameters inst n else Some True") (auto simp: InitEncode_def Let_def)
      show thesis
      proof (cases valid)
        case False': False
        then show thesis using assms Some False n v bad_simulcast
          by (simp add: InitEncode_def Let_def del: One_nat_def)
      next
        case True
        let ?r = "init_streams env g inst n [0 ..< n] (begin_streams n inst payload cores limit (Release (ReportInit e)))"
        have eq: "InitEncode env g inst_ptr payload cores limit e =
            (?r \<bind> (\<lambda>r. case r of Inl x \<Rightarrow> Some x | Inr e3 \<Rightarrow> initial_rates env g e3))"
          using Some False n v True by (simp add: InitEncode_def Let_def del: One_nat_def)
        have c: "vc_codecType inst = kVideoCodecH264" using False by simp
        obtain x where x: "?r = Some x" using assms unfolding eq by (cases ?r) auto
        show thesis
        proof (cases x)
          case (Inl y)
          then show thesis using assms x stream_error [OF Some c n] unfolding eq by simp
        next
          case (Inr e3)
          then have "initial_rates env g e3 = Some (r, e')" using assms x unfolding eq by simp
          from initial_ratesD [OF this] obtain parameters where
            "r = WEBRTC_VIDEO_CODEC_OK" "SetRates g parameters e3 = Some e'" by blast
          then show thesis using started [OF _ Some c n] x Inr by blast
        qed
      qed
    qed
  qed
qed

section \<open>Encode\<close>

datatype FrameBufferType = kNative | kI420 | kI420A | kI422 | kI444 | kI010 | kI210 | kI410 | kNV12

record VideoFrame =
  vf_timestamp :: uint32_t
  vf_color_space :: "ColorSpace option"
  vf_ToI420 :: "(FrameBufferType \<times> I420Buffer) option"

definition frame_type_at :: "VideoFrameType list option \<Rightarrow> int \<Rightarrow> VideoFrameType option" where
  "frame_type_at frame_types i = (case frame_types of None \<Rightarrow> None
     | Some fts \<Rightarrow> if 0 \<le> i \<and> nat i < length fts then Some (fts ! nat i) else None)"

text \<open>Temporal layer bookkeeping of a produced frame; \<^term>\<open>None\<close> drops the frame.\<close>

definition temporal_info ::
  "LayerConfig \<Rightarrow> LayerFrameConfig option \<Rightarrow> uint8_t \<Rightarrow> EncodedImage \<Rightarrow> CodecSpecificInfo \<Rightarrow>
   (uint8_t \<times> EncodedImage \<times> CodecSpecificInfo) option" where
  "temporal_info cfg layer_frame limit img csi =
     (if num_temporal_layers cfg > 1 then
        (let csi1 = csi\<lparr>csi_temporal_idx := 0, csi_base_layer_sync := False\<rparr>;
             limit1 = word_of_int (num_temporal_layers cfg)
         in case layer_frame of
              None \<Rightarrow> Some (limit1, img, csi1)
            | Some lf \<Rightarrow> if TemporalId lf \<noteq> 0 then None
                         else Some (limit1, img\<lparr>ei_temporal_index := Some 0\<rparr>, csi1))
      else Some (limit, img, csi))"

definition dependency_info ::
  "encoder_env \<Rightarrow> bool \<Rightarrow> svc_controller option \<Rightarrow> LayerFrameConfig option \<Rightarrow> ScalabilityMode option \<Rightarrow>
   CodecSpecificInfo \<Rightarrow> svc_controller option \<times> CodecSpecificInfo" where
  "dependency_info env send_key_frame svc layer_frame mode csi =
     (case (svc, layer_frame) of
        (Some c, Some lf) \<Rightarrow>
          (let info = svc_on_encode_done env (svc_mode c) (svc_calls c) lf;
               c' = c\<lparr>svc_calls := OnEncodeDone lf # svc_calls c\<rparr>
           in (Some c', csi\<lparr>csi_generic_frame_info := info,
                 csi_template_structure := (if send_key_frame \<and> info \<noteq> None
                   then Some (svc_dependency_structure env (svc_mode c') (svc_calls c'))
                   else csi_template_structure csi),
                 csi_scalability_mode := mode\<rparr>))
      | _ \<Rightarrow> (svc, csi))"

text \<open>After a successful \<open>x264_encoder_encode\<close>: fill the image and deliver it.\<close>

definition deliver_frame ::
  "encoder_env \<Rightarrow> VideoFrame \<Rightarrow> bool \<Rightarrow> LayerConfig \<Rightarrow> LayerFrameConfig option \<Rightarrow> x264_nal list \<Rightarrow>
   H264EncoderImpl \<Rightarrow> H264EncoderImpl option" where
  "deliver_frame env frame send_key_frame cfg layer_frame nals e =
     (case (m_encoded_images e, m_svc_controllers e, m_scalability_modes e, m_tl0sync_limit e) of
        (img0 # imgs, svc # svcs, mode # _, limit # limits) \<Rightarrow> do {
          img1 \<leftarrow> RtpFragmentize img0 nals;
          let img2 = img1\<lparr>ei_encodedWidth := cfg_width cfg, ei_encodedHeight := cfg_height cfg,
                          ei_timestamp := vf_timestamp frame, ei_color_space := vf_color_space frame,
                          ei_frameType := kVideoFrameDelta, ei_simulcast_index := Some (simulcast_idx cfg)\<rparr>;
          let e1 = e\<lparr>m_encoded_images := img2 # imgs\<rparr>;
          if ei_size img2 = 0 then Some e1
          else do {
            let bytes = take (ei_size img2) (ei_buffer img2);
            let img3 = img2\<lparr>ei_qp := (case last_slice_qp env (bytes # parsed e1) of None \<Rightarrow> - 1 | Some qp \<Rightarrow> qp)\<rparr>;
            let e2 = e1\<lparr>parsed := bytes # parsed e1, m_encoded_images := img3 # imgs\<rparr>;
            let csi = \<lparr>csi_codecType = kVideoCodecH264, csi_packetization_mode = m_packetization_mode e2,
                       csi_temporal_idx = kNoTemporalIdx, csi_idr_frame = send_key_frame,
                       csi_base_layer_sync = False, csi_generic_frame_info = None,
                       csi_template_structure = None, csi_scalability_mode = None\<rparr>;
            Some (case temporal_info cfg layer_frame limit img3 csi of
                None \<Rightarrow> e2
              | Some (limit', img4, csi1) \<Rightarrow>
                  let (svc', csi2) = dependency_info env send_key_frame svc layer_frame mode csi1
                  in e2\<lparr>m_encoded_images := img4 # imgs, m_svc_controllers := svc' # svcs,
                        m_tl0sync_limit := limit' # limits, delivered := (img4, csi2) # delivered e2\<rparr>) } }
      | _ \<Rightarrow> None)"

definition next_layer_frame ::
  "encoder_env \<Rightarrow> bool \<Rightarrow> H264EncoderImpl \<Rightarrow> (LayerFrameConfig option \<times> H264EncoderImpl) option" where
  "next_layer_frame env send_key_frame e =
     (case m_svc_controllers e of
        [] \<Rightarrow> None
      | None # svcs \<Rightarrow> Some (None, e)
      | Some c # svcs \<Rightarrow>
          (case svc_next_frame_config env (svc_mode c) (svc_calls c) send_key_frame of
             [lf] \<Rightarrow> Some (Some lf, e\<lparr>m_svc_controllers :=
                       Some (c\<lparr>svc_calls := NextFrameConfig send_key_frame # svc_calls c\<rparr>) # svcs\<rparr>)
           | _ \<Rightarrow> None))"

definition run_x264 ::
  "encoder_env \<Rightarrow> VideoFrame \<Rightarrow> bool \<Rightarrow> LayerConfig \<Rightarrow> LayerFrameConfig option \<Rightarrow> H264EncoderImpl \<Rightarrow>
   (int \<times> H264EncoderImpl) option" where
  "run_x264 env frame send_key_frame cfg layer_frame e =
     (let pic = (m_pic e)\<lparr>i_pts := i_pts (m_pic e) + 1\<rparr>;
          (i_frame_size, nals) = x264_encoder_encode env (calls e) (m_encoder e) pic;
          e1 = e\<lparr>m_pic := pic, calls := X264_encoder_encode (m_encoder e) pic # calls e\<rparr>
      in if i_frame_size < 0
         then Some (WEBRTC_VIDEO_CODEC_ERROR,
                ReportError (e1\<lparr>calls := X264_picture_clean # X264_encoder_close (m_encoder e1) # calls e1,
                                m_encoder := None\<rparr>))
         else map_option (Pair WEBRTC_VIDEO_CODEC_OK)
                (deliver_frame env frame send_key_frame cfg layer_frame nals e1))"

definition encode_layer ::
  "encoder_env \<Rightarrow> VideoFrame \<Rightarrow> bool \<Rightarrow> LayerConfig \<Rightarrow> H264EncoderImpl \<Rightarrow> (int \<times> H264EncoderImpl) option" where
  "encode_layer env frame send_key_frame cfg e = do {
     let e1 = (if send_key_frame then e\<lparr>m_pic := (m_pic e)\<lparr>b_keyframe := True\<rparr>\<rparr> else e);
     (layer_frame, e2) \<leftarrow> next_layer_frame env send_key_frame e1;
     run_x264 env frame send_key_frame cfg layer_frame e2 }"

definition Encode ::
  "encoder_env \<Rightarrow> VideoFrame \<Rightarrow> VideoFrameType list option \<Rightarrow> H264EncoderImpl \<Rightarrow> (int \<times> H264EncoderImpl) option" where
  "Encode env frame frame_types e =
     (if \<not> m_inited e then Some (WEBRTC_VIDEO_CODEC_UNINITIALIZED, e)
      else if \<not> m_encoded_image_callback e then Some (WEBRTC_VIDEO_CODEC_UNINITIALIZED, ReportError e)
      else case vf_ToI420 frame of
        None \<Rightarrow> Some (WEBRTC_VIDEO_CODEC_ENCODER_FAILURE, e)
      | Some (buffer_type, frame_buffer) \<Rightarrow>
          if \<not> (buffer_type = kI420 \<or> buffer_type = kI420A) then None
          else
            let is_keyframe_needed = list_ex (\<lambda>cfg. key_frame_request cfg \<and> sending cfg) (m_configurations e);
                e1 = e\<lparr>m_pic := (m_pic e)\<lparr>img_i_csp := X264_CSP_I420, img_i_plane := 3, i_type := X264_TYPE_AUTO,
                                 img_plane := frame_buffer\<rparr>\<rparr>
            in case m_configurations e1 of
                 [] \<Rightarrow> None
               | cfg # _ \<Rightarrow>
                   if \<not> sending cfg then Some (WEBRTC_VIDEO_CODEC_OK, e1)
                   else if frame_type_at frame_types 0 = Some kEmptyFrame then Some (WEBRTC_VIDEO_CODEC_OK, e1)
                   else encode_layer env frame
                          (is_keyframe_needed \<or> frame_type_at frame_types (simulcast_idx cfg) = Some kVideoFrameKey)
                          cfg e1)"

section \<open>The VBV buffer size\<close>

lemma half_exact: "f64 (5/10) = 1/2"
  using double.rnd_exact [OF representable_half [OF representable_1]] by simp

lemma ratio_bounds: "1/25 \<le> f64 (4/100)" "f64 (4/100) \<le> 1/25 + 1 / 2 ^ 50"
proof -
  have c: "f64 (4/100) = 5764607523034235 / 2 ^ 57" by code_simp
  show "1/25 \<le> f64 (4/100)" "f64 (4/100) \<le> 1/25 + 1 / 2 ^ 50" unfolding c by (simp_all add: field_simps)
qed

lemma representable_64th:
  assumes "0 \<le> q" "q < 2 ^ 40"
  shows "representable 53 (rat_of_int q + 63/64)"
proof -
  have "representable 53 (rat_of_int (64 * q + 63))" using assms by (intro representable_of_int) auto
  then have "representable 53 (rat_of_int (64 * q + 63) / 2 / 2 / 2 / 2 / 2 / 2)" by (intro representable_half)
  then show ?thesis by (simp add: add_divide_distrib)
qed

lemma vbv_tight:
  assumes "0 \<le> k" "k < 2 ^ 32"
  shows "trunc (dmul (of_int k) (f64 (4/100))) = k div 25"
proof -
  let ?c = "f64 (4/100)" and ?q = "k div 25"
  have k: "rat_of_int k = 25 * rat_of_int ?q + rat_of_int (k mod 25)"
    by (metis mult_div_mod_eq of_int_add of_int_mult of_int_numeral)
  have m: "0 \<le> k mod 25" "k mod 25 \<le> 24" by simp_all
  have q: "0 \<le> ?q" "?q < 2 ^ 40" using assms by auto
  have "rat_of_int ?q \<le> rat_of_int k * ?c"
  proof -
    have "rat_of_int ?q \<le> rat_of_int k * (1/25)" using k m by simp
    also have "\<dots> \<le> rat_of_int k * ?c" using assms ratio_bounds by (intro mult_left_mono) auto
    finally show ?thesis .
  qed
  then have lo: "rat_of_int ?q \<le> dmul (of_int k) ?c"
    unfolding dmul_def using q by (intro double.rnd_ge representable_of_int) auto
  have "rat_of_int k * ?c \<le> rat_of_int ?q + 63/64"
  proof -
    have "rat_of_int k * ?c \<le> rat_of_int k * (1/25 + 1 / 2 ^ 50)"
      using assms ratio_bounds by (intro mult_left_mono) auto
    also have "\<dots> = rat_of_int k / 25 + rat_of_int k / 2 ^ 50" by (simp add: field_simps)
    also have "rat_of_int k / 2 ^ 50 \<le> 1/100" using assms by (simp add: field_simps)
    also have "rat_of_int k / 25 \<le> rat_of_int ?q + 24/25" using k m by simp
    finally show ?thesis by simp
  qed
  then have "dmul (of_int k) ?c \<le> rat_of_int ?q + 63/64"
    unfolding dmul_def using representable_64th [OF q] by (rule double.rnd_le [rotated])
  then have "\<lfloor>dmul (of_int k) ?c\<rfloor> = ?q" using lo by linarith
  moreover have "0 \<le> dmul (of_int k) ?c" using lo q by simp
  ultimately show ?thesis by (simp add: trunc_nonneg)
qed

lemma vbv_half:
  assumes "0 \<le> k" "k < 2 ^ 32"
  shows "trunc (dmul (of_int k) (f64 (5/10))) = k div 2"
proof -
  have "representable 53 (rat_of_int k / 2)"
    using assms by (intro representable_half representable_of_int) auto
  then have d: "dmul (of_int k) (f64 (5/10)) = rat_of_int k / 2"
    unfolding dmul_def half_exact by (simp add: double.rnd_exact)
  have "\<lfloor>rat_of_int k / 2\<rfloor> = k div 2"
    using floor_divide_of_int_eq [of k 2, where 'a = rat] by simp
  then show ?thesis unfolding d using assms by (simp add: trunc_nonneg)
qed

definition vbv_buffer :: "rtc_settings \<Rightarrow> rat \<Rightarrow> int \<Rightarrow> int" where
  "vbv_buffer g overuse k =
     (if 4 \<le> g_codec_choose g \<and> 2 < overuse \<or> g_codec_choose g = 3 then k div 25 else k div 2)"

lemma vbv_ratio_buffer:
  assumes "0 \<le> k" "k < 2 ^ 32"
  shows "trunc (dmul (of_int k) (vbv_ratio g parameters)) = vbv_buffer g (rc_is_overused_for_encoder parameters) k"
  using vbv_tight [OF assms] vbv_half [OF assms]
  by (auto simp: vbv_ratio_def vbv_buffer_def Let_def)

section \<open>Fragmentation\<close>

text \<open>What the loop asserts of x264's output: no NAL unit is shorter than a start code.\<close>

definition nals_ok :: "x264_nal list \<Rightarrow> bool" where
  "nals_ok nals \<longleftrightarrow> (\<forall>nal \<in> set nals. 4 \<le> i_payload nal \<and> nat (i_payload nal) \<le> length (p_payload nal)) \<and>
     sum_list (map i_payload nals) \<le> kMaxSizeT"

definition nal_bytes :: "x264_nal \<Rightarrow> uint8_t list" where
  "nal_bytes nal = take (nat (i_payload nal)) (p_payload nal)"

lemma nal_capacity_sum:
  assumes "\<forall>nal \<in> set nals. 0 \<le> i_payload nal" "c + sum_list (map i_payload nals) \<le> kMaxSizeT"
  shows "nal_capacity c nals = Some (c + sum_list (map i_payload nals))"
  using assms
proof (induction nals arbitrary: c)
  case (Cons nal nals)
  have "0 \<le> sum_list (map i_payload nals)" using Cons.prems by (intro sum_list_nonneg) auto
  then show ?case using Cons by (simp add: algebra_simps)
qed simp

lemma length_concat_nal_bytes:
  assumes "\<forall>nal \<in> set nals. 4 \<le> i_payload nal \<and> nat (i_payload nal) \<le> length (p_payload nal)"
  shows "int (length (concat (map nal_bytes nals))) = sum_list (map i_payload nals)"
  using assms by (induction nals) (auto simp: nal_bytes_def)

lemma copy_nals_concat:
  assumes "\<forall>nal \<in> set nals. 4 \<le> i_payload nal \<and> nat (i_payload nal) \<le> length (p_payload nal)"
    "ei_size img + length (concat (map nal_bytes nals)) \<le> length (ei_buffer img)"
  shows "copy_nals nals img = Some (img\<lparr>
    ei_buffer := take (ei_size img) (ei_buffer img) @ concat (map nal_bytes nals) @
      drop (ei_size img + length (concat (map nal_bytes nals))) (ei_buffer img),
    ei_size := ei_size img + length (concat (map nal_bytes nals))\<rparr>)"
  using assms
proof (induction nals arbitrary: img)
  case (Cons nal nals)
  have n: "length (nal_bytes nal) = nat (i_payload nal)" using Cons.prems(1) by (simp add: nal_bytes_def)
  define img1 where "img1 = img\<lparr>ei_buffer := take (ei_size img) (ei_buffer img) @ nal_bytes nal @
      drop (ei_size img + nat (i_payload nal)) (ei_buffer img), ei_size := ei_size img + nat (i_payload nal)\<rparr>"
  have "copy_nal nal img = Some img1"
    using Cons.prems n by (auto simp: copy_nal_def Let_def img1_def nal_bytes_def)
  moreover have "copy_nals nals img1 = Some (img1\<lparr>
    ei_buffer := take (ei_size img1) (ei_buffer img1) @ concat (map nal_bytes nals) @
      drop (ei_size img1 + length (concat (map nal_bytes nals))) (ei_buffer img1),
    ei_size := ei_size img1 + length (concat (map nal_bytes nals))\<rparr>)"
    using Cons.prems n by (intro Cons.IH) (auto simp: img1_def)
  moreover have "min (length (ei_buffer img)) (ei_size img) = ei_size img" using Cons.prems(2) by simp
  ultimately show ?case
    using n by (simp add: img1_def ac_simps)
qed simp

section \<open>Properties\<close>



text \<open>
  C8. \<open>SetRates\<close> programs x264 with the rate of spatial layer 0: bit rate and VBV rate are that rate
  in whole kbps, and the VBV buffer holds, exactly and through the \<open>double\<close> product, 1/25 of a second
  of it in Salsify mode and in the adaptive modes under over-use, and half a second otherwise. The
  stream is marked as sending and the handle is reconfigured with these parameters.
\<close>

theorem SetRates_programs_vbv:
  assumes "m_encoder e = Some h" "1 \<le> rc_framerate_fps parameters" "get_sum_bps (rc_bitrate parameters) \<noteq> 0"
    "m_configurations e \<noteq> []" "GetSpatialLayerSum (rc_bitrate parameters) 0 = Some target" "target \<noteq> 0"
  shows "\<exists>e'. SetRates g parameters e = Some e' \<and>
    (let kbps = uint target div 1000; p = m_param e' in
      i_bitrate p = kbps \<and> i_vbv_max_bitrate p = kbps \<and>
      i_vbv_buffer_size p = vbv_buffer g (rc_is_overused_for_encoder parameters) kbps \<and>
      i_qp_min p = i_qp_min (m_param e) \<and> i_qp_max p = i_qp_max (m_param e) \<and>
      calls e' = X264_encoder_reconfig (Some h) p # calls e \<and>
      sending (hd (m_configurations e')) \<and> target_bps (hd (m_configurations e')) = target \<and>
      tl (m_configurations e') = tl (m_configurations e))"
proof -
  obtain cfg cfgs where c: "m_configurations e = cfg # cfgs" using assms(4) by (cases "m_configurations e") auto
  have u: "uint (target div 1000) = uint target div 1000" by (simp add: uint_div_distrib)
  have "uint target < 4294967296" using uint_lt2p [of target] by simp
  then have k: "0 \<le> uint target div 1000" "uint target div 1000 < 2 ^ 32"
    by (auto simp: pos_imp_zdiv_nonneg_iff)
  show ?thesis
    using assms c by (simp add: SetRates_def u vbv_ratio_buffer [OF k] Let_def SetStreamState_def)
qed

definition sample_param :: x264_param where
  "sample_param = \<lparr>b_sliced_threads = 0, i_bitdepth = 8, i_threads = 0, i_width = 0, i_height = 0, i_frame_total = 0,
     i_keyint_max = 250, i_rc_method = X264_RC_CRF, i_bitrate = 0, i_vbv_max_bitrate = 0, i_vbv_buffer_size = 0,
     b_filler = 0, i_qp_min = 0, i_qp_max = 69, i_log_level = X264_LOG_INFO, i_fps_den = 1, i_fps_num = 25,
     b_annexb = 1, i_csp = X264_CSP_I420, b_vfr_input = 1, b_repeat_headers = 1\<rparr>"

definition sample_picture :: x264_picture where
  "sample_picture = \<lparr>img_i_csp = X264_CSP_I420, img_i_plane = 3, img_plane = \<lparr>DataY = [], DataU = [], DataV = []\<rparr>,
     i_type = X264_TYPE_AUTO, b_keyframe = False, i_pts = 0\<rparr>"

definition sample_encoder :: H264EncoderImpl where
  "sample_encoder = (H264EncoderImpl_init True sample_picture (Some 7) sample_param (Some ''1''))
     \<lparr>m_configurations := [LayerConfig_init], calls := [X264_encoder_open sample_param (Some 7)]\<rparr>"

definition overuse_parameters :: "rat \<Rightarrow> RateControlParameters" where
  "overuse_parameters overuse = RateControlParameters_full two_streams 30 2000000 50 overuse"

theorem SetRates_programs_vbv_witness:
  "\<exists>e'. SetRates (SetCodecChoose 4 rtc_settings_init) (overuse_parameters (5/2)) sample_encoder = Some e' \<and>
     i_bitrate (m_param e') = 600 \<and> i_vbv_buffer_size (m_param e') = 24"
proof -
  have t: "GetSpatialLayerSum two_streams 0 = Some 600500" by code_simp
  have "\<exists>e'. SetRates (SetCodecChoose 4 rtc_settings_init) (overuse_parameters (5/2)) sample_encoder = Some e' \<and>
    (let kbps = uint (600500 :: uint32_t) div 1000; p = m_param e' in
      i_bitrate p = kbps \<and> i_vbv_max_bitrate p = kbps \<and>
      i_vbv_buffer_size p = vbv_buffer (SetCodecChoose 4 rtc_settings_init)
        (rc_is_overused_for_encoder (overuse_parameters (5/2))) kbps \<and>
      i_qp_min p = i_qp_min (m_param sample_encoder) \<and> i_qp_max p = i_qp_max (m_param sample_encoder) \<and>
      calls e' = X264_encoder_reconfig (Some 7) p # calls sample_encoder \<and>
      sending (hd (m_configurations e')) \<and> target_bps (hd (m_configurations e')) = 600500 \<and>
      tl (m_configurations e') = tl (m_configurations sample_encoder))"
    using t by (intro SetRates_programs_vbv)
      (simp_all add: sample_encoder_def H264EncoderImpl_init_def overuse_parameters_def
        RateControlParameters_full_def get_sum_bps_def two_streams_def)
  then show ?thesis
    by (auto simp: Let_def vbv_buffer_def SetCodecChoose_def rtc_settings_init_def overuse_parameters_def
        RateControlParameters_full_def)
qed

end
