(* ===== verification/EncoderProtocol.thy ===== *)
theory EncoderProtocol
  imports H264Encoder
begin

text \<open>
  The x264 wrapper as a state machine: its public operations as a step relation, the states that
  are reachable from construction, and what holds in all of them about the x264 handle, the vectors
  of per-stream state and key frames.
\<close>

section \<open>Operations as steps\<close>

inductive enc_step :: "encoder_env \<Rightarrow> H264EncoderImpl \<Rightarrow> H264EncoderImpl \<Rightarrow> bool" for env where
  init: "enc_step env e e'" if "InitEncode env g inst payload cores limit e = Some (r, e')"
| set_rates: "enc_step env e e'" if "SetRates g parameters e = Some e'"
| encode: "enc_step env e e'" if "Encode env frame frame_types e = Some (r, e')"
| release: "enc_step env e (Release e)"
| register: "enc_step env e e'" if "RegisterEncodeCompleteCallback e callback = (r, e')"

inductive enc_reachable :: "encoder_env \<Rightarrow> H264EncoderImpl \<Rightarrow> H264EncoderImpl \<Rightarrow> bool" for env e0 where
  start: "enc_reachable env e0 e0"
| step: "enc_reachable env e0 e''" if "enc_reachable env e0 e'" "enc_step env e' e''"

inductive_cases enc_stepE: "enc_step env e e'"

text \<open>What it takes to be an invariant of the wrapper: every operation keeps it.\<close>

locale enc_invariant =
  fixes env :: encoder_env and P :: "H264EncoderImpl \<Rightarrow> bool"
  assumes init_keeps: "P e \<Longrightarrow> InitEncode env g inst payload cores limit e = Some (r, e') \<Longrightarrow> P e'"
    and set_rates_keeps: "P e \<Longrightarrow> SetRates g parameters e = Some e' \<Longrightarrow> P e'"
    and encode_keeps: "P e \<Longrightarrow> Encode env frame frame_types e = Some (r, e') \<Longrightarrow> P e'"
    and release_keeps: "P e \<Longrightarrow> P (Release e)"
    and register_keeps: "P e \<Longrightarrow> P (e\<lparr>m_encoded_image_callback := callback\<rparr>)"
begin

lemma step_keeps: "enc_step env e e' \<Longrightarrow> P e \<Longrightarrow> P e'"
  by (erule enc_stepE)
    (auto intro: init_keeps set_rates_keeps encode_keeps release_keeps register_keeps
      simp: RegisterEncodeCompleteCallback_def)

lemma reachable_keeps: "enc_reachable env e0 e \<Longrightarrow> P e0 \<Longrightarrow> P e"
  by (induction rule: enc_reachable.induct) (auto intro: step_keeps)

end

section \<open>Use of the x264 handle\<close>

text \<open>A handle is open after a call log when it was opened and not closed since (newest call first).\<close>

fun handle_open :: "x264_call list \<Rightarrow> nat \<Rightarrow> bool" where
  "handle_open [] h = False"
| "handle_open (X264_encoder_open p r # cs) h = (r = Some h \<or> handle_open cs h)"
| "handle_open (X264_encoder_close r # cs) h = (r \<noteq> Some h \<and> handle_open cs h)"
| "handle_open (_ # cs) h = handle_open cs h"

text \<open>Every call is made on an open handle; encoding and closing may also be tried on the null handle.\<close>

fun well_used :: "x264_call list \<Rightarrow> bool" where
  "well_used [] = True"
| "well_used (X264_encoder_reconfig r p # cs) = ((\<exists>h. r = Some h \<and> handle_open cs h) \<and> well_used cs)"
| "well_used (X264_encoder_encode r pic # cs) = ((\<forall>h. r = Some h \<longrightarrow> handle_open cs h) \<and> well_used cs)"
| "well_used (X264_encoder_close r # cs) = ((\<forall>h. r = Some h \<longrightarrow> handle_open cs h) \<and> well_used cs)"
| "well_used (_ # cs) = well_used cs"

definition protocol_ok :: "H264EncoderImpl \<Rightarrow> bool" where
  "protocol_ok e \<longleftrightarrow> well_used (calls e) \<and> (\<forall>h. m_encoder e = Some h \<longrightarrow> handle_open (calls e) h)"

lemma report_fields [simp]:
  "calls (ReportInit e) = calls e" "m_encoder (ReportInit e) = m_encoder e"
  "calls (ReportError e) = calls e" "m_encoder (ReportError e) = m_encoder e"
  "m_configurations (ReportError e) = m_configurations e" "delivered (ReportError e) = delivered e"
  "m_configurations (ReportInit e) = m_configurations e" "delivered (ReportInit e) = delivered e"
  "m_inited (ReportError e) = m_inited e" "m_encoded_images (ReportError e) = m_encoded_images e"
  "m_svc_controllers (ReportError e) = m_svc_controllers e"
  "m_scalability_modes (ReportError e) = m_scalability_modes e" "m_tl0sync_limit (ReportError e) = m_tl0sync_limit e"
  "m_encoded_images (ReportInit e) = m_encoded_images e" "m_svc_controllers (ReportInit e) = m_svc_controllers e"
  "m_scalability_modes (ReportInit e) = m_scalability_modes e" "m_tl0sync_limit (ReportInit e) = m_tl0sync_limit e"
  by (auto simp: ReportInit_def ReportError_def)

lemma protocol_ok_cong: "calls e' = calls e \<Longrightarrow> m_encoder e' = m_encoder e \<Longrightarrow> protocol_ok e' = protocol_ok e"
  by (simp add: protocol_ok_def)

lemma protocol_Release: "protocol_ok e \<Longrightarrow> protocol_ok (Release e)"
  by (simp add: protocol_ok_def Release_def)

lemma protocol_init_x264: "protocol_ok e \<Longrightarrow> protocol_ok (snd (init_x264 env g inst e))"
  by (auto simp: protocol_ok_def init_x264_def Let_def fail_x264_def split: prod.splits)

lemma init_stream_step:
  assumes "protocol_ok e" "init_stream env g inst n i e = Some r"
  shows "case r of Inl (_, e') \<Rightarrow> protocol_ok e' | Inr e' \<Rightarrow> protocol_ok e'"
proof -
  obtain ok e1 where x: "init_x264 env g inst e = (ok, e1)" by fastforce
  then have "protocol_ok e1" using protocol_init_x264 [OF assms(1), of env g inst] by simp
  then show ?thesis
    using assms(2) x
    by (auto simp: init_stream_def Let_def protocol_ok_def Release_def
        split: if_splits option.splits bind_splits)
qed

lemma init_streams_step:
  assumes "protocol_ok e" "init_streams env g inst n is e = Some r"
  shows "case r of Inl (_, e') \<Rightarrow> protocol_ok e' | Inr e' \<Rightarrow> protocol_ok e'"
  using assms
proof (induction "is" arbitrary: e)
  case (Cons i "is")
  then show ?case
    using init_stream_step [OF Cons.prems(1)] by (fastforce split: sum.splits bind_splits)
qed auto

lemma protocol_SetRates:
  assumes "protocol_ok e" "SetRates g parameters e = Some e'"
  shows "protocol_ok e'"
  using assms
  by (auto simp: SetRates_def Let_def protocol_ok_def split: if_splits list.splits bind_splits)

lemma protocol_begin_streams:
  "protocol_ok e \<Longrightarrow> protocol_ok (begin_streams n inst payload cores limit (Release (ReportInit e)))"
  using protocol_Release [of "ReportInit e"]
  by (simp add: protocol_ok_def begin_streams_def resize_members_def)

lemma protocol_InitEncode:
  assumes "protocol_ok e" "InitEncode env g inst payload cores limit e = Some (r, e')"
  shows "protocol_ok e'"
  using assms(2)
proof (cases rule: InitEncode_cases)
  case bad_parameter
  then show ?thesis using assms(1) by (simp add: protocol_ok_def)
next
  case bad_simulcast
  then show ?thesis using assms(1) by (simp add: protocol_ok_def Release_def)
next
  case (stream_error inst n)
  then show ?thesis using init_streams_step [OF protocol_begin_streams [OF assms(1)]] by fastforce
next
  case (started inst n e3 parameters)
  then have "protocol_ok e3" using init_streams_step [OF protocol_begin_streams [OF assms(1)]] by fastforce
  then show ?thesis using started by (blast intro: protocol_SetRates)
qed

section \<open>What a call of Encode changes\<close>

definition frame_of :: "H264EncoderImpl \<Rightarrow> H264EncoderImpl \<Rightarrow> bool" where
  "frame_of e e' \<longleftrightarrow> m_configurations e' = m_configurations e \<and> m_inited e' = m_inited e \<and>
     length (m_encoded_images e') = length (m_encoded_images e) \<and>
     length (m_svc_controllers e') = length (m_svc_controllers e) \<and>
     length (m_scalability_modes e') = length (m_scalability_modes e) \<and>
     length (m_tl0sync_limit e') = length (m_tl0sync_limit e)"

lemma temporal_info_keeps:
  "temporal_info cfg lf limit img csi = Some (limit', img', csi') \<Longrightarrow>
     csi_idr_frame csi' = csi_idr_frame csi \<and> ei_frameType img' = ei_frameType img"
  by (auto simp: temporal_info_def Let_def split: if_splits option.splits)

lemma dependency_info_keeps:
  "dependency_info env key svc lf mode csi = (svc', csi') \<Longrightarrow> csi_idr_frame csi' = csi_idr_frame csi"
  by (auto simp: dependency_info_def Let_def split: option.splits)

lemma deliver_frame_effect:
  assumes "deliver_frame env frame key cfg lf nals e = Some e'"
  shows "frame_of e e'" "calls e' = calls e" "m_encoder e' = m_encoder e"
    "delivered e' = delivered e \<or> (\<exists>img csi. delivered e' = (img, csi) # delivered e \<and>
       csi_idr_frame csi = key \<and> ei_frameType img = kVideoFrameDelta)"
proof -
  obtain img imgs svc svcs mode modes limit limits where l: "m_encoded_images e = img # imgs"
    "m_svc_controllers e = svc # svcs" "m_scalability_modes e = mode # modes" "m_tl0sync_limit e = limit # limits"
    using assms by (auto simp: deliver_frame_def split: list.splits)
  obtain img1 where img1: "RtpFragmentize img nals = Some img1"
    using assms l by (cases "RtpFragmentize img nals") (auto simp: deliver_frame_def)
  note d = assms [unfolded deliver_frame_def l prod.case list.case img1 bind.bind_lunit Let_def]
  show "frame_of e e'" "calls e' = calls e" "m_encoder e' = m_encoder e"
    using d by (auto simp: frame_of_def l split: if_splits option.splits prod.splits)
  show "delivered e' = delivered e \<or> (\<exists>img csi. delivered e' = (img, csi) # delivered e \<and>
       csi_idr_frame csi = key \<and> ei_frameType img = kVideoFrameDelta)"
    using d by (auto split: if_splits option.splits prod.splits dest!: temporal_info_keeps dependency_info_keeps)
qed

lemma next_layer_frame_effect:
  assumes "next_layer_frame env key e = Some (lf, e')"
  shows "frame_of e e' \<and> m_encoder e' = m_encoder e \<and> calls e' = calls e \<and> delivered e' = delivered e"
  using assms unfolding next_layer_frame_def
  by (auto simp: frame_of_def split: list.splits option.splits)

lemma encode_layer_cases:
  assumes "encode_layer env frame key cfg e = Some (r, e')"
  obtains (failed) pic where "r = WEBRTC_VIDEO_CODEC_ERROR" "frame_of e e'" "m_encoder e' = None"
      "calls e' = X264_picture_clean # X264_encoder_close (m_encoder e) # X264_encoder_encode (m_encoder e) pic # calls e"
      "delivered e' = delivered e"
  | (encoded) e2 pic lf nals where "r = WEBRTC_VIDEO_CODEC_OK" "frame_of e e2" "m_encoder e2 = m_encoder e"
      "calls e2 = X264_encoder_encode (m_encoder e) pic # calls e" "delivered e2 = delivered e"
      "0 \<le> fst (x264_encoder_encode env (calls e) (m_encoder e) pic)"
      "deliver_frame env frame key cfg lf nals e2 = Some e'"
proof -
  let ?e = "if key then e\<lparr>m_pic := (m_pic e)\<lparr>b_keyframe := True\<rparr>\<rparr> else e"
  obtain lf e1 where lf: "next_layer_frame env key ?e = Some (lf, e1)"
    and run: "run_x264 env frame key cfg lf e1 = Some (r, e')"
    using assms by (auto simp: encode_layer_def Let_def split: bind_splits)
  have e1: "frame_of e e1" "m_encoder e1 = m_encoder e" "calls e1 = calls e" "delivered e1 = delivered e"
    using next_layer_frame_effect [OF lf] by (cases key; simp add: frame_of_def)+
  define pic where "pic = (m_pic e1)\<lparr>i_pts := i_pts (m_pic e1) + 1\<rparr>"
  obtain sz nals where x: "x264_encoder_encode env (calls e) (m_encoder e) pic = (sz, nals)" by fastforce
  let ?e2 = "e1\<lparr>m_pic := pic, calls := X264_encoder_encode (m_encoder e1) pic # calls e1\<rparr>"
  note run' = run [unfolded run_x264_def pic_def [symmetric] Let_def e1(2,3) x prod.case]
  show thesis
  proof (cases "sz < 0")
    case True
    then show thesis using run' e1 x
      by (intro failed [of pic]) (auto simp: frame_of_def)
  next
    case False
    then have "deliver_frame env frame key cfg lf nals ?e2 = Some e'" "r = WEBRTC_VIDEO_CODEC_OK"
      using run' e1(2,3) by auto
    then show thesis using e1 x False by (intro encoded [of ?e2 pic]) (auto simp: frame_of_def)
  qed
qed

lemma Encode_cases:
  assumes "Encode env frame frame_types e = Some (r, e')"
  obtains (untouched) "frame_of e e'" "calls e' = calls e" "m_encoder e' = m_encoder e" "delivered e' = delivered e"
  | (layer) cfg cfgs e1 key where "m_configurations e = cfg # cfgs" "sending cfg" "frame_of e e1"
      "m_encoder e1 = m_encoder e" "calls e1 = calls e" "delivered e1 = delivered e"
      "list_ex (\<lambda>cfg. key_frame_request cfg \<and> sending cfg) (m_configurations e) \<Longrightarrow> key"
      "encode_layer env frame key cfg e1 = Some (r, e')"
proof (cases "\<exists>t b cfg cfgs. vf_ToI420 frame = Some (t, b) \<and> m_configurations e = cfg # cfgs \<and> m_inited e \<and>
    m_encoded_image_callback e \<and> (t = kI420 \<or> t = kI420A) \<and> sending cfg \<and>
    frame_type_at frame_types 0 \<noteq> Some kEmptyFrame")
  case True
  then obtain t b cfg cfgs where c: "vf_ToI420 frame = Some (t, b)" "m_configurations e = cfg # cfgs" "m_inited e"
    "m_encoded_image_callback e" "t = kI420 \<or> t = kI420A" "sending cfg"
    "frame_type_at frame_types 0 \<noteq> Some kEmptyFrame" by blast
  let ?e1 = "e\<lparr>m_pic := (m_pic e)\<lparr>img_i_csp := X264_CSP_I420, img_i_plane := 3, i_type := X264_TYPE_AUTO,
                                 img_plane := b\<rparr>\<rparr>"
  define key where "key \<longleftrightarrow> list_ex (\<lambda>cfg. key_frame_request cfg \<and> sending cfg) (m_configurations e) \<or>
    frame_type_at frame_types (simulcast_idx cfg) = Some kVideoFrameKey"
  have "encode_layer env frame key cfg ?e1 = Some (r, e')"
    using c(5) assms c(1-4,6,7) unfolding key_def by (elim disjE) (simp_all add: Encode_def Let_def)
  then show ?thesis using c by (intro layer [of cfg cfgs ?e1 key]) (simp_all add: key_def frame_of_def)
next
  case False
  then show ?thesis using assms
    by (intro untouched)
      (auto simp: Encode_def Let_def frame_of_def split: if_splits option.splits list.splits)
qed

lemma protocol_Encode:
  assumes "protocol_ok e" "Encode env frame frame_types e = Some (r, e')"
  shows "protocol_ok e'"
  using assms(2)
proof (cases rule: Encode_cases)
  case untouched
  then show ?thesis using assms(1) by (simp add: protocol_ok_def)
next
  case (layer cfg cfgs e1 key)
  have e1: "protocol_ok e1" using assms(1) layer by (simp add: protocol_ok_def)
  from layer(8) show ?thesis
  proof (cases rule: encode_layer_cases)
    case (failed pic)
    then show ?thesis using e1 by (simp add: protocol_ok_def)
  next
    case (encoded e2 pic lf nals)
    then show ?thesis using e1 deliver_frame_effect(2,3) [OF encoded(7)] by (simp add: protocol_ok_def)
  qed
qed

lemma protocol_register: "protocol_ok (e\<lparr>m_encoded_image_callback := callback\<rparr>) = protocol_ok e"
  by (simp add: protocol_ok_def)

interpretation protocol: enc_invariant env protocol_ok for env
  by unfold_locales
    (auto intro: protocol_InitEncode protocol_SetRates protocol_Encode protocol_Release simp: protocol_register)

text \<open>
  C9. The handle protocol: from a wrapper constructed with a null handle, no sequence of operations,
  failing ones included, ever reconfigures a handle that is not open, encodes or closes a closed
  handle, or closes one twice; and the handle the wrapper holds is always an open one.
\<close>

theorem x264_handle_protocol:
  assumes "enc_reachable env (H264EncoderImpl_init junk_inited junk_pic None junk_param mode) e"
  shows "well_used (calls e) \<and> (\<forall>h. m_encoder e = Some h \<longrightarrow> handle_open (calls e) h)"
  using protocol.reachable_keeps [OF assms] by (simp add: protocol_ok_def H264EncoderImpl_init_def)

section \<open>Per-stream vectors and key frames\<close>

definition shape_ok :: "H264EncoderImpl \<Rightarrow> bool" where
  "shape_ok e \<longleftrightarrow> length (m_encoded_images e) = length (m_configurations e) \<and>
     length (m_svc_controllers e) = length (m_configurations e) \<and>
     length (m_scalability_modes e) = length (m_configurations e) \<and>
     length (m_tl0sync_limit e) = length (m_configurations e)"

lemma shape_frame_of: "frame_of e e' \<Longrightarrow> shape_ok e' = shape_ok e"
  by (simp add: shape_ok_def frame_of_def)

lemma init_x264_effect:
  assumes "init_x264 env g inst e = (ok, e')"
  shows "m_configurations e' = m_configurations e" "m_encoded_images e' = m_encoded_images e"
    "m_svc_controllers e' = m_svc_controllers e" "m_scalability_modes e' = m_scalability_modes e"
    "m_tl0sync_limit e' = m_tl0sync_limit e" "delivered e' = delivered e" "ok \<or> m_encoder e' = None"
    "set (calls e) \<subseteq> set (calls e')"
  using assms by (auto simp: init_x264_def Let_def fail_x264_def split: prod.splits if_splits)

lemma init_layer_config_idle [simp]: "\<not> sending (init_layer_config c stream h264 idx cfg)"
  by (simp add: init_layer_config_def)

lemma idle_update: "\<not> sending c \<Longrightarrow> \<exists>cfg. \<not> sending cfg \<and> xs[i := c] = xs[i := cfg]"
  by blast

lemma init_stream_effect:
  assumes "init_stream env g inst n i e = Some res"
  shows "case res of
      Inl (_, e') \<Rightarrow> m_encoder e' = None \<and> (shape_ok e \<longrightarrow> shape_ok e') \<and> delivered e' = delivered e \<and>
        set (calls e) \<subseteq> set (calls e')
    | Inr e' \<Rightarrow> (shape_ok e \<longrightarrow> shape_ok e') \<and> delivered e' = delivered e \<and> set (calls e) \<subseteq> set (calls e') \<and>
        (\<exists>cfg. \<not> sending cfg \<and> m_configurations e' = (m_configurations e)[i := cfg])"
proof -
  obtain ok e1 where x: "init_x264 env g inst e = (ok, e1)" by fastforce
  note eff = init_x264_effect [OF x]
  show ?thesis
    using assms x eff
    by (auto simp: init_stream_def Let_def shape_ok_def Release_def intro!: idle_update
        split: if_splits option.splits bind_splits)
qed

lemma init_streams_effect:
  assumes "init_streams env g inst n is e = Some res"
  shows "case res of
      Inl (_, e') \<Rightarrow> m_encoder e' = None \<and> (shape_ok e \<longrightarrow> shape_ok e') \<and> delivered e' = delivered e \<and>
        set (calls e) \<subseteq> set (calls e')
    | Inr e' \<Rightarrow> (shape_ok e \<longrightarrow> shape_ok e') \<and> delivered e' = delivered e \<and> set (calls e) \<subseteq> set (calls e') \<and>
        length (m_configurations e') = length (m_configurations e) \<and>
        (\<forall>k < length (m_configurations e). sending (m_configurations e' ! k) \<longrightarrow>
           k \<notin> set is \<and> m_configurations e' ! k = m_configurations e ! k)"
  using assms
proof (induction "is" arbitrary: e)
  case (Cons i "is")
  obtain r1 where r1: "init_stream env g inst n i e = Some r1"
    and rest: "(case r1 of Inl x \<Rightarrow> Some (Inl x) | Inr e' \<Rightarrow> init_streams env g inst n is e') = Some res"
    using Cons.prems by (auto split: bind_splits)
  note eff = init_stream_effect [OF r1]
  show ?case
  proof (cases r1)
    case (Inl x)
    then show ?thesis using rest eff by (auto split: prod.splits)
  next
    case (Inr e1)
    then obtain cfg where e1: "shape_ok e \<longrightarrow> shape_ok e1" "delivered e1 = delivered e" "\<not> sending cfg"
      "m_configurations e1 = (m_configurations e)[i := cfg]" "set (calls e) \<subseteq> set (calls e1)" using eff by auto
    have "init_streams env g inst n is e1 = Some res" using rest Inr by simp
    note ih = Cons.IH [OF this]
    show ?thesis
    proof (cases res)
      case (Inl x)
      then show ?thesis using ih e1 by (cases x) auto
    next
      case (Inr e')
      have "k \<notin> set (i # is) \<and> m_configurations e' ! k = m_configurations e ! k"
        if k: "k < length (m_configurations e)" "sending (m_configurations e' ! k)" for k
      proof -
        have "k \<notin> set is" "m_configurations e' ! k = (m_configurations e)[i := cfg] ! k"
          using ih Inr e1(4) k by auto
        then show ?thesis using k e1(3) by (cases "k = i") auto
      qed
      moreover have "set (calls e) \<subseteq> set (calls e')" using ih e1(5) Inr by auto
      ultimately show ?thesis using ih e1 Inr by simp
    qed
  qed
qed (auto)

lemma begin_streams_shape: "shape_ok (begin_streams n inst payload cores limit e)"
  and begin_streams_fields: "length (m_configurations (begin_streams n inst payload cores limit e)) = n"
    "delivered (begin_streams n inst payload cores limit e) = delivered e"
    "calls (begin_streams n inst payload cores limit e) = calls e"
  by (simp_all add: shape_ok_def begin_streams_def resize_members_def)

lemma logs_Release [simp]: "delivered (Release e) = delivered e" "calls (Release e) = calls e"
  by (simp_all add: Release_def)

lemma SetRates_effect:
  assumes "SetRates g parameters e = Some e'"
  shows "shape_ok e' = shape_ok e" "delivered e' = delivered e" "m_encoder e' = m_encoder e"
    "set (calls e) \<subseteq> set (calls e')"
    "\<forall>cfg \<in> set (m_configurations e). sending cfg \<longrightarrow> key_frame_request cfg \<Longrightarrow>
     \<forall>cfg \<in> set (m_configurations e'). sending cfg \<longrightarrow> key_frame_request cfg"
  using assms
  by (auto simp: SetRates_def Let_def shape_ok_def SetStreamState_def split: if_splits list.splits bind_splits)

text \<open>
  Whether every frame so far was encoded on a handle. The wrapper can pass the null handle to x264:
  a failed \<^const>\<open>InitEncode\<close> drops the handle and leaves streams that count as sending without a key
  frame request, and \<^const>\<open>Encode\<close> does not test the handle.
\<close>

fun on_handle :: "x264_call \<Rightarrow> bool" where
  "on_handle (X264_encoder_encode r pic) \<longleftrightarrow> r \<noteq> None"
| "on_handle _ \<longleftrightarrow> True"

definition encodes_on_handle :: "H264EncoderImpl \<Rightarrow> bool" where
  "encodes_on_handle e \<longleftrightarrow> list_all on_handle (calls e)"

lemma encodes_on_handle_before:
  "encodes_on_handle e' \<Longrightarrow> set (calls e) \<subseteq> set (calls e') \<Longrightarrow> encodes_on_handle e"
  by (auto simp: encodes_on_handle_def list_all_iff)

definition keys_requested :: "H264EncoderImpl \<Rightarrow> bool" where
  "keys_requested e \<longleftrightarrow> m_encoder e \<noteq> None \<longrightarrow>
     (\<forall>cfg \<in> set (m_configurations e). sending cfg \<longrightarrow> key_frame_request cfg)"

definition all_idr :: "H264EncoderImpl \<Rightarrow> bool" where
  "all_idr e \<longleftrightarrow> (\<forall>(img, csi) \<in> set (delivered e). csi_idr_frame csi \<and> ei_frameType img = kVideoFrameDelta)"

definition key_inv :: "H264EncoderImpl \<Rightarrow> bool" where
  "key_inv e \<longleftrightarrow> shape_ok e \<and> (encodes_on_handle e \<longrightarrow> keys_requested e \<and> all_idr e)"

lemma key_InitEncode:
  assumes "key_inv e" "InitEncode env g inst payload cores limit e = Some (r, e')"
  shows "key_inv e'"
  using assms(2)
proof (cases rule: InitEncode_cases)
  case bad_parameter
  then show ?thesis using assms(1)
    by (simp add: key_inv_def shape_ok_def keys_requested_def all_idr_def encodes_on_handle_def)
next
  case bad_simulcast
  then show ?thesis using assms(1)
    by (simp add: key_inv_def shape_ok_def keys_requested_def all_idr_def encodes_on_handle_def Release_def)
next
  case (stream_error inst n)
  then show ?thesis
    using init_streams_effect [OF stream_error(4)] assms(1) encodes_on_handle_before [of e' e]
    by (simp add: key_inv_def keys_requested_def all_idr_def begin_streams_shape begin_streams_fields)
next
  case (started inst n e3 parameters)
  have e3: "shape_ok e3" "delivered e3 = delivered e" "\<forall>cfg \<in> set (m_configurations e3). \<not> sending cfg"
    "set (calls e) \<subseteq> set (calls e3)"
    using init_streams_effect [OF started(5)]
    by (auto simp: begin_streams_shape begin_streams_fields in_set_conv_nth)
  then show ?thesis
    using SetRates_effect [OF started(6)] assms(1) encodes_on_handle_before [of e' e]
    by (auto simp: key_inv_def keys_requested_def all_idr_def)
qed

lemma key_SetRates:
  assumes "key_inv e" "SetRates g parameters e = Some e'"
  shows "key_inv e'"
  using SetRates_effect [OF assms(2)] assms(1) encodes_on_handle_before [of e' e]
  by (simp add: key_inv_def keys_requested_def all_idr_def)

lemma key_Encode:
  assumes "key_inv e" "Encode env frame frame_types e = Some (r, e')"
  shows "key_inv e'"
  using assms(2)
proof (cases rule: Encode_cases)
  case untouched
  then show ?thesis using assms(1) shape_frame_of [OF untouched(1)]
    by (simp add: key_inv_def keys_requested_def all_idr_def encodes_on_handle_def frame_of_def)
next
  case (layer cfg cfgs e1 key)
  have e1: "key_inv e1" "shape_ok e1"
    using assms(1) layer shape_frame_of [OF layer(3)]
    by (auto simp: key_inv_def keys_requested_def all_idr_def encodes_on_handle_def frame_of_def)
  from layer(8) show ?thesis
  proof (cases rule: encode_layer_cases)
    case (failed pic)
    then show ?thesis using e1 shape_frame_of [OF failed(2)]
      by (simp add: key_inv_def keys_requested_def all_idr_def encodes_on_handle_def)
  next
    case (encoded e2 pic lf nals)
    note eff = deliver_frame_effect [OF encoded(7)]
    have shape: "shape_ok e'" using e1(2) shape_frame_of [OF encoded(2)] shape_frame_of [OF eff(1)] by simp
    have "keys_requested e' \<and> all_idr e'" if n': "encodes_on_handle e'"
    proof -
      have n: "encodes_on_handle e" "encodes_on_handle e1" "m_encoder e \<noteq> None"
        using n' eff(2) encoded(4) layer(4,5) by (simp_all add: encodes_on_handle_def)
      then have "key_frame_request cfg" using assms(1) n layer(1,2) by (auto simp: key_inv_def keys_requested_def)
      then have key using layer(1,2,7) by simp
      then show ?thesis
        using e1 n eff encoded(2-5) by (auto simp: key_inv_def keys_requested_def all_idr_def frame_of_def)
    qed
    then show ?thesis using shape by (simp add: key_inv_def)
  qed
qed

interpretation keys: enc_invariant env key_inv for env
proof unfold_locales
  show "key_inv (Release e)" if "key_inv e" for e
    using that by (auto simp: key_inv_def shape_ok_def keys_requested_def all_idr_def encodes_on_handle_def Release_def)
  show "key_inv (e\<lparr>m_encoded_image_callback := callback\<rparr>)" if "key_inv e" for e callback
    using that by (simp add: key_inv_def shape_ok_def keys_requested_def all_idr_def encodes_on_handle_def)
qed (fact key_InitEncode key_SetRates key_Encode)+

text \<open>
  C19. A key frame request is never cleared: in every state reachable from construction, whatever the
  uninitialised members held, every frame the wrapper has delivered carries the IDR flag, while its
  frame type says delta frame. The only exception is what x264 makes of a null handle, which the
  wrapper passes to it when \<open>Encode\<close> is called after a failed initialisation: the property is about
  runs in which no frame was encoded on the null handle.
\<close>

theorem every_frame_flagged_idr:
  assumes "enc_reachable env (H264EncoderImpl_init junk_inited junk_pic junk_encoder junk_param mode) e"
    and "encodes_on_handle e" and "(img, csi) \<in> set (delivered e)"
  shows "csi_idr_frame csi \<and> ei_frameType img = kVideoFrameDelta"
proof -
  have "key_inv (H264EncoderImpl_init junk_inited junk_pic junk_encoder junk_param mode)"
    by (simp add: key_inv_def shape_ok_def keys_requested_def all_idr_def H264EncoderImpl_init_def)
  then have "key_inv e" by (rule keys.reachable_keeps [OF assms(1)])
  then show ?thesis using assms(2,3) by (auto simp: key_inv_def all_idr_def)
qed

section \<open>A concrete run\<close>

definition sample_env :: encoder_env where
  "sample_env = \<lparr>x264_param_default = sample_param, x264_param_default_preset = Pair 0,
     x264_param_apply_profile = Pair 0, x264_picture_alloc = (\<lambda>_ _ _. (0, sample_picture)),
     x264_encoder_open = (\<lambda>_ _. Some 7),
     x264_encoder_encode = (\<lambda>_ h _. case h of None \<Rightarrow> (- 1, [])
       | Some _ \<Rightarrow> (5, [\<lparr>i_payload = 5, p_payload = [0, 0, 0, 1, 0x65]\<rparr>])),
     svc_available = (\<lambda>_. True), svc_next_frame_config = (\<lambda>_ _ _. [\<lparr>TemporalId = 0\<rparr>]),
     svc_on_encode_done = (\<lambda>_ _ _. None), svc_dependency_structure = (\<lambda>_ _. undefined),
     last_slice_qp = (\<lambda>_. Some 30), env_stable_rate_enabled = False, env_video_hysteresis = 1,
     env_screenshare_hysteresis = 1, env_base_heavy_tl3 = False, junk_rtt = 0, junk_overuse = 0\<rparr>"

definition single_codec :: VideoCodec where
  "single_codec = VideoCodec_init\<lparr>vc_codecType := kVideoCodecH264, vc_width := 2, vc_height := 2,
     vc_startBitrate := 1000, vc_maxBitrate := 2500, vc_maxFramerate := 30,
     vc_codec_specific := H264_specific 3000 1\<rparr>"

definition fresh_encoder :: H264EncoderImpl where
  "fresh_encoder = H264EncoderImpl_init False sample_picture None sample_param (Some ''1'')"

definition sample_frame :: VideoFrame where
  "sample_frame = \<lparr>vf_timestamp = 90000, vf_color_space = None,
     vf_ToI420 = Some (kI420, \<lparr>DataY = [], DataU = [], DataV = []\<rparr>)\<rparr>"

definition sample_started :: "H264EncoderImpl option" where
  "sample_started = map_option (\<lambda>(r, e). snd (RegisterEncodeCompleteCallback e True))
     (InitEncode sample_env (SetCodecChoose 4 rtc_settings_init) (Some single_codec) 1200 4 None fresh_encoder)"

definition sample_run :: "H264EncoderImpl option" where
  "sample_run = sample_started \<bind> (\<lambda>e. map_option snd (Encode sample_env sample_frame None e))"

lemma sample_run_reachable:
  assumes "sample_run = Some e"
  shows "enc_reachable sample_env fresh_encoder e"
proof -
  obtain r e1 e2 r' where e1: "InitEncode sample_env (SetCodecChoose 4 rtc_settings_init)
        (Some single_codec) 1200 4 None fresh_encoder = Some (r, e1)"
    and e2: "e2 = snd (RegisterEncodeCompleteCallback e1 True)"
    and e: "Encode sample_env sample_frame None e2 = Some (r', e)"
    using assms unfolding sample_run_def sample_started_def
    by (clarsimp simp only: bind_eq_Some_conv map_option_eq_Some split_paired_all prod.case snd_conv)
  have "enc_reachable sample_env fresh_encoder e1"
    by (rule enc_reachable.step [OF enc_reachable.start enc_step.init [OF e1]])
  moreover have "enc_step sample_env e1 e2"
    unfolding e2 by (rule enc_step.register [OF prod.collapse [symmetric]])
  ultimately show ?thesis
    using enc_step.encode [OF e] by (blast intro: enc_reachable.step)
qed

lemma sample_run_delivers:
  "map_option (\<lambda>e. (m_encoder e, map (\<lambda>(i, c). (ei_frameType i, csi_idr_frame c)) (delivered e))) sample_run
   = Some (Some 7, [(kVideoFrameDelta, True)])"
  by code_simp

lemma sample_run_on_handle: "map_option encodes_on_handle sample_run = Some True"
  by code_simp

theorem x264_handle_protocol_witness:
  "\<exists>e. sample_run = Some e \<and> m_encoder e = Some 7 \<and> well_used (calls e) \<and> handle_open (calls e) 7"
proof -
  obtain e where e: "sample_run = Some e" "m_encoder e = Some 7"
    using sample_run_delivers by auto
  have "well_used (calls e) \<and> (\<forall>h. m_encoder e = Some h \<longrightarrow> handle_open (calls e) h)"
    by (rule x264_handle_protocol [OF sample_run_reachable [OF e(1), unfolded fresh_encoder_def]])
  then show ?thesis using e by blast
qed

theorem every_frame_flagged_idr_witness:
  "\<exists>e img csi. sample_run = Some e \<and> delivered e = [(img, csi)] \<and> csi_idr_frame csi \<and>
     ei_frameType img = kVideoFrameDelta"
proof -
  obtain e img csi where e: "sample_run = Some e" "delivered e = [(img, csi)]"
    using sample_run_delivers by (auto simp: map_eq_Cons_conv)
  have "encodes_on_handle e" using sample_run_on_handle unfolding e(1) by simp
  then have "csi_idr_frame csi \<and> ei_frameType img = kVideoFrameDelta"
    by (rule every_frame_flagged_idr [OF sample_run_reachable [OF e(1), unfolded fresh_encoder_def]]) (simp add: e(2))
  then show ?thesis using e by blast
qed

end
