(* ===== verification/H264Nal.thy ===== *)
theory H264Nal
  imports Prelude "HOL-Library.Sublist"
begin

text \<open>
  \<open>common_video/h264/h264_common.cc\<close>: locating NAL units in an Annex B byte stream and the
  escaping of raw byte sequence payloads. The scanner skips ahead three bytes at a time; it is
  shown equal to a scan of every position, and to invert the concatenation of NAL units behind
  start codes.
\<close>

section \<open>The source\<close>

type_synonym bytes = "uint8_t list"

definition kNaluShortStartSequenceSize :: nat where "kNaluShortStartSequenceSize = 3"
definition kNaluTypeSize :: nat where "kNaluTypeSize = 1"
definition kNaluTypeMask :: uint8_t where "kNaluTypeMask = 0x1F"

text \<open>The members of the enumeration \<open>NaluType : uint8_t\<close> that the media path tests for.\<close>

definition kSlice :: uint8_t where "kSlice = 1"
definition kIdr :: uint8_t where "kIdr = 5"
definition kSei :: uint8_t where "kSei = 6"
definition kSps :: uint8_t where "kSps = 7"
definition kPps :: uint8_t where "kPps = 8"
definition kAud :: uint8_t where "kAud = 9"
definition kEndOfSequence :: uint8_t where "kEndOfSequence = 10"
definition kEndOfStream :: uint8_t where "kEndOfStream = 11"
definition kFiller :: uint8_t where "kFiller = 12"
definition kPrefix :: uint8_t where "kPrefix = 14"
definition kStapA :: uint8_t where "kStapA = 24"
definition kFuA :: uint8_t where "kFuA = 28"

lemmas nalu_type_defs = kSlice_def kIdr_def kSei_def kSps_def kPps_def kAud_def kEndOfSequence_def
  kEndOfStream_def kFiller_def kPrefix_def kStapA_def kFuA_def

record NaluIndex =
  start_offset :: nat
  payload_start_offset :: nat
  payload_size :: nat

text \<open>Assignment to the \<open>payload_size\<close> of the last entry, if there is one.\<close>

definition close_last :: "nat \<Rightarrow> NaluIndex list \<Rightarrow> NaluIndex list" where
  "close_last stop sequences =
     (if sequences = [] then []
      else butlast sequences @
        [(last sequences)\<lparr>payload_size := stop - payload_start_offset (last sequences)\<rparr>])"

text \<open>The index of a start sequence found at \<open>i\<close>, which has four bytes if a zero precedes it.\<close>

definition index_at :: "bytes \<Rightarrow> nat \<Rightarrow> NaluIndex" where
  "index_at buffer i =
     \<lparr>start_offset = (if i > 0 \<and> buffer ! (i - 1) = 0 then i - 1 else i),
      payload_start_offset = i + 3, payload_size = 0\<rparr>"

function find_nalus :: "bytes \<Rightarrow> nat \<Rightarrow> nat \<Rightarrow> NaluIndex list \<Rightarrow> NaluIndex list" where
  "find_nalus buffer stop i sequences =
     (if i < stop then
        if buffer ! (i + 2) > 1 then find_nalus buffer stop (i + 3) sequences
        else if buffer ! (i + 2) = 1 then
          (if buffer ! (i + 1) = 0 \<and> buffer ! i = 0
           then find_nalus buffer stop (i + 3)
                  (close_last (start_offset (index_at buffer i)) sequences @ [index_at buffer i])
           else find_nalus buffer stop (i + 3) sequences)
        else find_nalus buffer stop (i + 1) sequences
      else sequences)"
  by pat_completeness auto
termination by (relation "measure (\<lambda>(_, stop, i, _). stop - i)") auto

declare find_nalus.simps [simp del]

definition FindNaluIndices :: "bytes \<Rightarrow> NaluIndex list" where
  "FindNaluIndices buffer =
     (if length buffer < kNaluShortStartSequenceSize then []
      else close_last (length buffer)
        (find_nalus buffer (length buffer - kNaluShortStartSequenceSize) 0 []))"

definition ParseNaluType :: "uint8_t \<Rightarrow> uint8_t" where
  "ParseNaluType data = data AND kNaluTypeMask"

fun ParseRbsp :: "bytes \<Rightarrow> bytes" where
  "ParseRbsp (a # b # c # data) =
     (if a = 0 \<and> b = 0 \<and> c = 3 then a # b # ParseRbsp data else a # ParseRbsp (b # c # data))"
| "ParseRbsp (a # data) = a # ParseRbsp data"
| "ParseRbsp [] = []"

fun write_rbsp :: "nat \<Rightarrow> bytes \<Rightarrow> bytes" where
  "write_rbsp num_consecutive_zeros [] = []"
| "write_rbsp num_consecutive_zeros (byte # rest) =
     (let escape = byte \<le> 3 \<and> num_consecutive_zeros \<ge> 2;
          zeros = (if escape then 0 else num_consecutive_zeros)
      in (if escape then [3] else []) @
         byte # write_rbsp (if byte = 0 then zeros + 1 else 0) rest)"

definition WriteRbsp :: "bytes \<Rightarrow> bytes \<Rightarrow> bytes" where
  "WriteRbsp data destination = destination @ write_rbsp 0 data"

section \<open>Escaping\<close>

lemma parse_nonzero: "b \<noteq> 0 \<Longrightarrow> ParseRbsp (b # xs) = b # ParseRbsp xs"
  by (cases xs; cases "tl xs") (auto simp: neq_Nil_conv)

lemma parse_zero_nonzero: "b \<noteq> 0 \<Longrightarrow> ParseRbsp (a # b # xs) = a # ParseRbsp (b # xs)"
  by (cases xs) auto

lemma parse_zeros_other: "c \<noteq> 3 \<Longrightarrow> ParseRbsp (a # b # c # xs) = a # ParseRbsp (b # c # xs)"
  by simp

lemma write_step:
  "z < 2 \<Longrightarrow> write_rbsp z (b # bs) = b # write_rbsp (if b = 0 then z + 1 else 0) bs"
  "b > 3 \<Longrightarrow> write_rbsp 2 (b # bs) = b # write_rbsp 0 bs"
  "b \<le> 3 \<Longrightarrow> write_rbsp 2 (b # bs) = 3 # b # write_rbsp (if b = 0 then 1 else 0) bs"
  by (auto simp: Let_def)

declare write_rbsp.simps(2) [simp del]

lemma parse_write:
  "z \<le> 2 \<Longrightarrow> ParseRbsp (replicate z 0 @ write_rbsp z bs) = replicate z 0 @ bs"
proof (induction bs arbitrary: z)
  case Nil
  then have "z = 0 \<or> z = 1 \<or> z = 2" by auto
  then show ?case by (auto simp: numeral_2_eq_2)
next
  case (Cons b bs)
  have zero: "ParseRbsp (0 # write_rbsp 1 bs) = 0 # bs" using Cons.IH [of 1] by simp
  have two: "ParseRbsp (0 # 0 # write_rbsp 2 bs) = 0 # 0 # bs" using Cons.IH [of 2] by (simp add: numeral_2_eq_2)
  have none: "ParseRbsp (write_rbsp 0 bs) = bs" using Cons.IH [of 0] by simp
  consider "z = 0" | "z = 1" | "z = 2" using Cons.prems by linarith
  then show ?case
  proof cases
    case 1
    then show ?thesis using zero none by (cases "b = 0") (simp_all add: write_step parse_nonzero)
  next
    case 2
    then show ?thesis using two none
      by (cases "b = 0") (simp_all add: write_step parse_nonzero parse_zero_nonzero numeral_2_eq_2)
  next
    case 3
    have r: "replicate z 0 @ xs = 0 # 0 # xs" for xs :: bytes using 3 by (simp add: numeral_2_eq_2)
    show ?thesis
    proof (cases "b \<le> 3")
      case True
      then show ?thesis unfolding r using zero none
        by (cases "b = 0") (simp_all add: 3 write_step parse_nonzero)
    next
      case False
      then have "b \<noteq> 0" "b \<noteq> 3" by auto
      then show ?thesis unfolding r using none False
        by (simp add: 3 write_step parse_nonzero parse_zero_nonzero parse_zeros_other del: ParseRbsp.simps)
    qed
  qed
qed

text \<open>No three bytes of a list are two zeros and a byte of at most two.\<close>

fun start_free :: "bytes \<Rightarrow> bool" where
  "start_free (a # b # c # data) = (\<not> (a = 0 \<and> b = 0 \<and> c \<le> 2) \<and> start_free (b # c # data))"
| "start_free _ = True"

lemma start_free_nonzero: "b \<noteq> 0 \<Longrightarrow> start_free (b # xs) = start_free xs"
  by (cases xs; cases "tl xs") (auto simp: neq_Nil_conv)

lemma start_free_zero_nonzero: "b \<noteq> 0 \<Longrightarrow> start_free (a # b # xs) = start_free (b # xs)"
  by (cases xs) auto

lemma start_free_zeros_big: "c > 2 \<Longrightarrow> start_free (0 # 0 # c # xs) = start_free xs"
  using start_free_nonzero [of c xs] start_free_zero_nonzero [of c 0 xs]
  by (cases "c = 0") (auto simp: not_le)

lemma write_start_free: "z \<le> 2 \<Longrightarrow> start_free (replicate z 0 @ write_rbsp z bs)"
proof (induction bs arbitrary: z)
  case Nil
  then have "z = 0 \<or> z = 1 \<or> z = 2" by auto
  then show ?case by (auto simp: numeral_2_eq_2)
next
  case (Cons b bs)
  have zero: "start_free (0 # write_rbsp 1 bs)" using Cons.IH [of 1] by simp
  have two: "start_free (0 # 0 # write_rbsp 2 bs)" using Cons.IH [of 2] by (simp add: numeral_2_eq_2)
  have none: "start_free (write_rbsp 0 bs)" using Cons.IH [of 0] by simp
  consider "z = 0" | "z = 1" | "z = 2" using Cons.prems by linarith
  then show ?case
  proof cases
    case 1
    then show ?thesis using zero none by (cases "b = 0") (simp_all add: write_step start_free_nonzero)
  next
    case 2
    then show ?thesis using two none
      by (cases "b = 0") (simp_all add: write_step start_free_nonzero start_free_zero_nonzero numeral_2_eq_2)
  next
    case 3
    have r: "replicate z 0 @ xs = 0 # 0 # xs" for xs :: bytes using 3 by (simp add: numeral_2_eq_2)
    have b: "b > 2" if "\<not> b \<le> 3" using that by (simp add: not_le word_less_nat_alt)
    show ?thesis
    proof (cases "b \<le> 3")
      case True
      then show ?thesis unfolding r using zero none
        by (cases "b = 0") (simp_all add: 3 write_step start_free_zeros_big start_free_nonzero)
    next
      case False
      then show ?thesis unfolding r using none b
        by (simp add: 3 write_step start_free_zeros_big del: start_free.simps)
    qed
  qed
qed

text \<open>
  C27. Escaping and unescaping of a raw byte sequence payload round trip: what \<open>WriteRbsp\<close> appends is
  parsed back to the original bytes, and contains neither a start code nor anything that could
  be taken for the beginning of one.
\<close>

theorem rbsp_roundtrip:
  "\<exists>escaped. WriteRbsp data destination = destination @ escaped \<and>
     ParseRbsp escaped = data \<and> start_free escaped"
  using parse_write [of 0 data] write_start_free [of 0 data] by (auto simp: WriteRbsp_def)

section \<open>Locating NAL units\<close>

text \<open>The reference: look for a start code at every position, then cut at the positions found.\<close>

definition start_code_at :: "bytes \<Rightarrow> nat \<Rightarrow> bool" where
  "start_code_at buffer i \<longleftrightarrow> buffer ! i = 0 \<and> buffer ! (i + 1) = 0 \<and> buffer ! (i + 2) = 1"

fun nalu_spans :: "bytes \<Rightarrow> nat list \<Rightarrow> NaluIndex list" where
  "nalu_spans buffer [] = []"
| "nalu_spans buffer [i] = [(index_at buffer i)\<lparr>payload_size := length buffer - (i + 3)\<rparr>]"
| "nalu_spans buffer (i # j # is) =
     (index_at buffer i)\<lparr>payload_size := start_offset (index_at buffer j) - (i + 3)\<rparr> # nalu_spans buffer (j # is)"

definition push_index :: "bytes \<Rightarrow> NaluIndex list \<Rightarrow> nat \<Rightarrow> NaluIndex list" where
  "push_index buffer sequences i =
     close_last (start_offset (index_at buffer i)) sequences @ [index_at buffer i]"

lemma filter_skip3:
  assumes "\<not> P (Suc i)" "\<not> P (Suc (Suc i))" "i < n"
  shows "filter P [i..<n] = (if P i then [i] else []) @ filter P [i + 3..<n]"
  using assms by (auto simp: upt_rec [of i] upt_rec [of "Suc i"] upt_rec [of "Suc (Suc i)"] numeral_3_eq_3)

lemma find_nalus_scan:
  "find_nalus buffer stop i sequences =
     foldl (push_index buffer) sequences (filter (start_code_at buffer) [i..<stop])"
proof (induction buffer stop i sequences rule: find_nalus.induct)
  case (1 buffer stop i sequences)
  show ?case
  proof (cases "i < stop")
    case False
    then show ?thesis by (subst find_nalus.simps) simp
  next
    case True
    let ?c = "buffer ! (i + 2)"
    have skip: "filter (start_code_at buffer) [i..<stop] =
        (if start_code_at buffer i then [i] else []) @ filter (start_code_at buffer) [i + 3..<stop]"
      if "?c \<noteq> 0"
      using that True by (intro filter_skip3) (auto simp: start_code_at_def)
    consider "?c > 1" | "?c = 1" "start_code_at buffer i" | "?c = 1" "\<not> start_code_at buffer i" | "?c = 0"
      by (metis word_less_1 not_less_iff_gr_or_eq)
    then show ?thesis
    proof cases
      case 1
      then have "?c \<noteq> 0" "?c \<noteq> 1" by auto
      then have "\<not> start_code_at buffer i" by (simp add: start_code_at_def)
      then show ?thesis using "1.IH"(1) True 1 skip \<open>?c \<noteq> 0\<close> by (subst find_nalus.simps) simp
    next
      case 2
      then have "buffer ! (i + 1) = 0 \<and> buffer ! i = 0" by (simp add: start_code_at_def)
      then show ?thesis using "1.IH"(2) True skip 2
        by (subst find_nalus.simps) (simp add: push_index_def [of buffer sequences i])
    next
      case 3
      then have "\<not> (buffer ! (i + 1) = 0 \<and> buffer ! i = 0)" by (auto simp: start_code_at_def)
      then show ?thesis using "1.IH"(3) True skip 3
        by (subst find_nalus.simps) (simp only: if_True if_False, simp)
    next
      case 4
      then have "filter (start_code_at buffer) [i..<stop] = filter (start_code_at buffer) [i + 1..<stop]"
        using True by (simp add: upt_conv_Cons start_code_at_def)
      then show ?thesis using "1.IH"(4) True 4 by (subst find_nalus.simps) simp
    qed
  qed
qed

lemma close_last_snoc [simp]:
  "close_last stop (xs @ [a]) = xs @ [a\<lparr>payload_size := stop - payload_start_offset a\<rparr>]"
  by (simp add: close_last_def)

lemma push_index_spans:
  "close_last (length buffer) (foldl (push_index buffer) (xs @ [index_at buffer i]) is) =
     xs @ nalu_spans buffer (i # is)"
proof (induction "is" arbitrary: xs i)
  case Nil
  then show ?case by (simp add: index_at_def)
next
  case (Cons j js)
  let ?a = "(index_at buffer i)\<lparr>payload_size := start_offset (index_at buffer j) - (i + 3)\<rparr>"
  have "push_index buffer (xs @ [index_at buffer i]) j = (xs @ [?a]) @ [index_at buffer j]"
    by (simp add: push_index_def) (simp add: index_at_def)
  then show ?case using Cons.IH [of "xs @ [?a]" j] by simp
qed

lemma FindNaluIndices_spans:
  "FindNaluIndices buffer =
     nalu_spans buffer (filter (start_code_at buffer) [0..<length buffer - 3])"
proof -
  let ?is = "filter (start_code_at buffer) [0..<length buffer - 3]"
  have "close_last (length buffer) (foldl (push_index buffer) [] ?is) = nalu_spans buffer ?is"
    using push_index_spans [of buffer "[]"]
    by (cases ?is) (simp_all add: close_last_def [of _ "[]"] push_index_def [of _ "[]"])
  then show ?thesis
    by (simp add: FindNaluIndices_def find_nalus_scan kNaluShortStartSequenceSize_def)
qed


text \<open>The byte stream of NAL units, each behind a start code of four or three bytes.\<close>

definition start_code :: "bool \<Rightarrow> bytes" where
  "start_code long = (if long then [0, 0, 0, 1] else [0, 0, 1])"

definition annexb :: "(bool \<times> bytes) list \<Rightarrow> bytes" where
  "annexb nals = concat (map (\<lambda>(long, nal). start_code long @ nal) nals)"

lemma annexb_simps [simp]:
  "annexb [] = []" "annexb ((long, nal) # nals) = start_code long @ nal @ annexb nals"
  by (simp_all add: annexb_def)

text \<open>A NAL unit as it leaves the encoder: escaped, not empty and without trailing zero bytes.\<close>

definition nal_ok :: "bytes \<Rightarrow> bool" where
  "nal_ok nal \<longleftrightarrow> nal \<noteq> [] \<and> start_free nal \<and> last nal \<noteq> 0"

definition nalu_payload :: "bytes \<Rightarrow> NaluIndex \<Rightarrow> bytes" where
  "nalu_payload buffer index = take (payload_size index) (drop (payload_start_offset index) buffer)"

fun scan :: "nat \<Rightarrow> bytes \<Rightarrow> nat list" where
  "scan i (a # b # c # d # xs) = (if a = 0 \<and> b = 0 \<and> c = 1 then [i] else []) @ scan (Suc i) (b # c # d # xs)"
| "scan i _ = []"

lemma filter_scan:
  "filter (start_code_at (pre @ xs)) [length pre..<length pre + length xs - 3] = scan (length pre) xs"
proof (induction "length pre" xs arbitrary: pre rule: scan.induct)
  case (1 a b c d xs)
  have "filter (start_code_at ((pre @ [a]) @ b # c # d # xs))
      [length (pre @ [a])..<length (pre @ [a]) + length (b # c # d # xs) - 3] = scan (length (pre @ [a])) (b # c # d # xs)"
    by (rule 1) simp
  moreover have "start_code_at (pre @ a # b # c # d # xs) (length pre) \<longleftrightarrow> a = 0 \<and> b = 0 \<and> c = 1"
    by (simp add: start_code_at_def nth_append)
  moreover have "[length pre..<length pre + length (a # b # c # d # xs) - 3] =
      length pre # [length (pre @ [a])..<length (pre @ [a]) + length (b # c # d # xs) - 3]"
    by (subst upt_conv_Cons) simp_all
  ultimately show ?case by (cases "a = 0 \<and> b = 0 \<and> c = 1") (simp_all del: upt_Suc)
qed simp_all

lemma scan_nonzero: "a \<noteq> 0 \<Longrightarrow> scan i (a # xs) = scan (Suc i) xs"
  by (cases xs; cases "tl xs"; cases "tl (tl xs)") (auto simp: neq_Nil_conv)

lemma scan_zero_nonzero: "b \<noteq> 0 \<Longrightarrow> scan i (a # b # xs) = scan (Suc i) (b # xs)"
  by (cases xs; cases "tl xs") (auto simp: neq_Nil_conv)

lemma scan_zeros_other: "c \<noteq> 1 \<Longrightarrow> scan i (a # b # c # xs) = scan (Suc i) (b # c # xs)"
  by (cases xs) auto

lemma scan_start_free: "start_free xs \<Longrightarrow> scan i xs = []"
  by (induction i xs rule: scan.induct) auto

lemma scan_start_code:
  "xs \<noteq> [] \<Longrightarrow> scan i (start_code long @ xs) =
     (i + of_bool long) # scan (i + length (start_code long)) xs"
  by (cases xs) (auto simp: start_code_def scan_zero_nonzero scan_nonzero)

lemma annexb_head:
  "nals \<noteq> [] \<Longrightarrow> \<exists>xs. annexb nals = 0 # 0 # xs"
  by (cases nals; cases "fst (hd nals)") (auto simp: start_code_def)

lemma scan_past_nal:
  "nal \<noteq> [] \<Longrightarrow> start_free nal \<Longrightarrow> last nal \<noteq> 0 \<Longrightarrow>
     scan i (nal @ annexb nals) = scan (i + length nal) (annexb nals)"
proof (induction nal arbitrary: i)
  case (Cons a nal)
  show ?case
  proof (cases nal)
    case Nil
    then show ?thesis using Cons.prems by (simp add: scan_nonzero)
  next
    case (Cons b nal')
    have "start_free nal" using Cons.prems Cons by (cases nal') auto
    then have IH: "scan (Suc i) (nal @ annexb nals) = scan (i + length (a # nal)) (annexb nals)"
      using Cons.IH Cons.prems Cons by simp
    have "scan i (a # nal @ annexb nals) = scan (Suc i) (nal @ annexb nals)"
    proof (cases nal')
      case Nil
      have "b \<noteq> 0" using Cons.prems Cons Nil by simp
      then show ?thesis using Cons by (simp add: scan_zero_nonzero)
    next
      case (Cons c nal'')
      then show ?thesis using Cons.prems \<open>nal = b # nal'\<close>
        by (cases "c = 1"; cases "a = 0") (auto simp: scan_zero_nonzero scan_zeros_other scan_nonzero)
    qed
    then show ?thesis using IH by simp
  qed
qed simp

lemma index_at_start:
  assumes "pre = [] \<or> last pre \<noteq> 0" "xs \<noteq> []"
  shows "start_offset (index_at (pre @ start_code long @ xs) (length pre + of_bool long)) = length pre"
  using assms by (cases pre rule: rev_cases) (auto simp: index_at_def start_code_def nth_append)

lemma spans_payloads:
  "pre = [] \<or> last pre \<noteq> 0 \<Longrightarrow> \<forall>(long, nal) \<in> set nals. nal_ok nal \<Longrightarrow>
   map (nalu_payload (pre @ annexb nals))
     (nalu_spans (pre @ annexb nals) (scan (length pre) (annexb nals))) = map snd nals"
proof (induction nals arbitrary: pre)
  case (Cons p nals)
  obtain long nal where p: "p = (long, nal)" by (cases p)
  let ?buf = "pre @ annexb (p # nals)" and ?i = "length pre + of_bool long"
  let ?pre = "pre @ start_code long @ nal"
  have nal: "nal \<noteq> []" "start_free nal" "last nal \<noteq> 0"
    using Cons.prems p by (auto simp: nal_ok_def)
  have buf: "?buf = ?pre @ annexb nals" by (simp add: p)
  have pre: "?pre = [] \<or> last ?pre \<noteq> 0" using nal by simp
  have IH: "map (nalu_payload ?buf) (nalu_spans ?buf (scan (length ?pre) (annexb nals))) = map snd nals"
    unfolding buf using Cons.IH [OF pre] Cons.prems by simp
  have scan: "scan (length pre) (annexb (p # nals)) = ?i # scan (length ?pre) (annexb nals)"
    using nal scan_past_nal [OF nal] by (simp add: p scan_start_code add.assoc)
  have start: "?i + 3 = length (pre @ start_code long)" by (simp add: start_code_def)
  have view: "nalu_payload ?buf ((index_at ?buf ?i)\<lparr>payload_size := length nal\<rparr>) = nal"
    using start by (simp add: nalu_payload_def index_at_def p)
  show ?case
  proof (cases nals)
    case Nil
    then have "length ?buf - (?i + 3) = length nal" using start by (simp add: p)
    then show ?thesis using view unfolding scan by (simp add: Nil p)
  next
    case (Cons q rest)
    obtain long' nal' where q: "q = (long', nal')" by (cases q)
    have nal': "nal' \<noteq> []" using Cons.prems Cons q by (auto simp: nal_ok_def)
    have hd: "scan (length ?pre) (annexb nals) =
        (length ?pre + of_bool long') # scan (length ?pre + length (start_code long')) (nal' @ annexb rest)"
      using nal' by (simp add: Cons q scan_start_code)
    have "start_offset (index_at ?buf (length ?pre + of_bool long')) = length ?pre"
      using index_at_start [OF pre, of "nal' @ annexb rest" long'] nal' by (simp add: Cons q p)
    then show ?thesis using IH view start unfolding scan hd
      by (simp add: snd_conv [of long nal, folded p])
  qed
qed simp

lemma annexb_payloads:
  assumes "\<forall>(long, nal) \<in> set nals. nal_ok nal"
  shows "map (nalu_payload (annexb nals)) (FindNaluIndices (annexb nals)) = map snd nals"
proof -
  have "FindNaluIndices (annexb nals) = nalu_spans (annexb nals) (scan 0 (annexb nals))"
    using filter_scan [of "[]" "annexb nals"] by (simp add: FindNaluIndices_spans)
  then show ?thesis using spans_payloads [of "[]"] assms by simp
qed

text \<open>
  C26. NAL units that are escaped, not empty and do not end in a zero byte are recovered, in order
  and byte for byte, from their Annex B byte stream, whatever mixture of three and four byte
  start codes separates them.
\<close>

theorem annexb_roundtrip:
  assumes "\<forall>(long, nal) \<in> set nals. nal_ok nal"
  shows "map (nalu_payload (annexb nals)) (FindNaluIndices (annexb nals)) = map snd nals"
  by (rule annexb_payloads [OF assms])

theorem annexb_roundtrip_witness:
  "map (nalu_payload (annexb [(True, [0x67, 0, 3]), (False, [0x68, 0, 0, 3, 1])]))
     (FindNaluIndices (annexb [(True, [0x67, 0, 3]), (False, [0x68, 0, 0, 3, 1])])) =
   [[0x67, 0, 3], [0x68, 0, 0, 3, 1]]"
  using annexb_roundtrip [of "[(True, [0x67, 0, 3]), (False, [0x68, 0, 0, 3, 1])]"]
  by (simp add: nal_ok_def)

end
