(* ===== verification/RtpFormat.thy ===== *)
theory RtpFormat
  imports Units
begin

text \<open>
  \<open>modules/rtp_rtcp/source/rtp_format.cc\<close>: the payload size limits of a frame's RTP packets and the
  split of a payload into about equally sized packets. Sizes are at most a few megabytes, so
  the \<open>int\<close> arithmetic is modelled without overflow. The splitting loop ends when no data
  remains; a run that never ends would be \<^term>\<open>None\<close>, as is a division by zero.
\<close>

section \<open>The source\<close>

record PayloadSizeLimits =
  max_payload_len :: int
  first_packet_reduction_len :: int
  last_packet_reduction_len :: int
  single_packet_reduction_len :: int

definition PayloadSizeLimits_init :: PayloadSizeLimits where
  "PayloadSizeLimits_init = \<lparr>max_payload_len = 1200, first_packet_reduction_len = 0,
     last_packet_reduction_len = 0, single_packet_reduction_len = 0\<rparr>"

text \<open>The size of the packet written when \<open>num_packets_left\<close> packets are left.\<close>

definition current_packet_size :: "PayloadSizeLimits \<Rightarrow> bool \<Rightarrow> int \<Rightarrow> int \<Rightarrow> int \<Rightarrow> int" where
  "current_packet_size limits first_packet num_packets_left bytes_per_packet remaining_data =
     (let c0 = (if first_packet
                then if bytes_per_packet > first_packet_reduction_len limits + 1
                     then bytes_per_packet - first_packet_reduction_len limits
                     else 1
                else bytes_per_packet);
          c1 = (if c0 > remaining_data then remaining_data else c0)
      in if num_packets_left = 2 \<and> c1 = remaining_data then c1 - 1 else c1)"

partial_function (option) split_loop ::
  "PayloadSizeLimits \<Rightarrow> int \<Rightarrow> bool \<Rightarrow> int \<Rightarrow> int \<Rightarrow> int \<Rightarrow> int list \<Rightarrow> int list option" where
  "split_loop limits num_larger_packets first_packet num_packets_left bytes_per_packet remaining_data result =
     (if remaining_data > 0 then
        let bytes = (if num_packets_left = num_larger_packets then bytes_per_packet + 1 else bytes_per_packet);
            current = current_packet_size limits first_packet num_packets_left bytes remaining_data
        in split_loop limits num_larger_packets False (num_packets_left - 1) bytes
             (remaining_data - current) (result @ [current])
      else Some result)"

declare split_loop.simps [code]

definition SplitAboutEqually :: "int \<Rightarrow> PayloadSizeLimits \<Rightarrow> int list option" where
  "SplitAboutEqually payload_len limits =
     (if max_payload_len limits \<ge> single_packet_reduction_len limits + payload_len then Some [payload_len]
      else if max_payload_len limits - first_packet_reduction_len limits < 1 \<or>
              max_payload_len limits - last_packet_reduction_len limits < 1 then Some []
      else if max_payload_len limits = 0 then None
      else let total_bytes = payload_len + first_packet_reduction_len limits + last_packet_reduction_len limits;
               num = (total_bytes + max_payload_len limits - 1) sdiv max_payload_len limits;
               num_packets_left = (if num = 1 then 2 else num)
           in if payload_len < num_packets_left then Some []
              else if num_packets_left = 0 then None
              else split_loop limits (total_bytes smod num_packets_left) True num_packets_left
                     (total_bytes sdiv num_packets_left) payload_len [])"

section \<open>The split respects the limits\<close>

definition limits_ok :: "PayloadSizeLimits \<Rightarrow> bool" where
  "limits_ok limits \<longleftrightarrow> 0 \<le> first_packet_reduction_len limits \<and> 0 \<le> last_packet_reduction_len limits \<and>
     0 \<le> single_packet_reduction_len limits \<and> 0 < max_payload_len limits"

text \<open>The capacity of the packet at position \<open>i\<close> of \<open>n\<close>, when there are at least two.\<close>

definition split_capacity :: "PayloadSizeLimits \<Rightarrow> nat \<Rightarrow> nat \<Rightarrow> int" where
  "split_capacity limits n i =
     max_payload_len limits - (if i = 0 then first_packet_reduction_len limits
       else if i = n - 1 then last_packet_reduction_len limits else 0)"

text \<open>The bytes planned for the last \<open>m\<close> packets, when the last \<open>g\<close> are one byte wider than \<open>b\<close>.\<close>

definition planned :: "int \<Rightarrow> int \<Rightarrow> int \<Rightarrow> int" where
  "planned b g m = m * b + min m g"

text \<open>
  The plan leaves enough for the last two packets even when the first packet takes the single
  byte it is guaranteed: the arithmetic at the heart of the split.
\<close>

lemma plan_enough:
  fixes n b g M :: int
  assumes "n \<ge> 3" "0 \<le> g" "g < n" "n * b + g > (n - 1) * M" "n * b + g \<le> n * M"
  shows "2 * M \<le> 3 * b - 1 + min 2 g"
proof -
  have bM: "b \<le> M" 
  proof (rule ccontr)
    assume "\<not> b \<le> M"
    then have "n * (M + 1) \<le> n * b" using assms(1) by (intro mult_left_mono) auto
    then show False using assms by (simp add: algebra_simps)
  qed
  have mono: "2 * k \<le> (n - 1) * k" if "0 \<le> k" for k :: int
    using that assms(1) by (intro mult_right_mono) auto
  consider "g = 0" | "g = 1" | "g \<ge> 2" using assms(2) by linarith
  then show ?thesis
  proof cases
    case 1
    have "(n - 1) * (M - b) \<le> b - 1" using assms(4) 1 by (simp add: algebra_simps)
    then show ?thesis using mono [of "M - b"] bM 1 by simp
  next
    case 2
    have "(n - 1) * (M - b) \<le> b" using assms(4) 2 by (simp add: algebra_simps)
    then show ?thesis using mono [of "M - b"] bM 2 by simp
  next
    case 3
    have "b < M"
    proof (rule ccontr)
      assume "\<not> b < M"
      then have "b = M" using bM by simp
      then show False using assms(5) 3 by simp
    qed
    moreover have "(n - 1) * (M - b - 1) \<le> b - 1" using assms(3,4) by (simp add: algebra_simps)
    ultimately show ?thesis using mono [of "M - b - 1"] 3 by simp
  qed
qed

text \<open>What a run of the loop over the last \<open>m\<close> packets must produce.\<close>

definition good_tail :: "int \<Rightarrow> int \<Rightarrow> int \<Rightarrow> int \<Rightarrow> int list \<Rightarrow> bool" where
  "good_tail M l m R sizes \<longleftrightarrow> int (length sizes) = m \<and> sum_list sizes = R \<and>
     (\<forall>x \<in> set sizes. 0 < x \<and> x \<le> M) \<and> sizes \<noteq> [] \<and> last sizes \<le> M - l"

lemma good_tail_Cons:
  "good_tail M l m R sizes \<Longrightarrow> 0 < c \<Longrightarrow> c \<le> M \<Longrightarrow> good_tail M l (m + 1) (R + c) (c # sizes)"
  by (auto simp: good_tail_def)

lemma split_step:
  assumes "R > 0"
    and "bytes = (if m = g then w + 1 else w)"
    and "c = current_packet_size limits fst_packet m bytes R"
  shows "split_loop limits g fst_packet m w R acc = split_loop limits g False (m - 1) bytes (R - c) (acc @ [c])"
  using assms by (subst split_loop.simps) (simp add: Let_def)

lemma split_done: "R = 0 \<Longrightarrow> split_loop limits g fst_packet m w R acc = Some acc"
  by (subst split_loop.simps) simp

text \<open>The packets after the first: \<open>e\<close> bytes more than planned have been sent already.\<close>

lemma split_tail:
  fixes b g M l e :: int
  assumes b: "1 \<le> b" "b \<le> M" "g > 0 \<longrightarrow> b + 1 \<le> M" and g: "0 \<le> g"
    and l: "0 \<le> l" "l \<le> M - 1" and e: "0 \<le> e" "l + e \<le> 2 * (b - 1) + min 2 g"
    and R: "k = 0 \<longrightarrow> 1 \<le> R \<and> R \<le> max 1 (planned b g 1 - l)"
      "k > 0 \<longrightarrow> R = planned b g (1 + int k) - l - e"
  shows "\<exists>sizes. split_loop limits g False (1 + int k) (if 1 + int k < g then b + 1 else b) R acc = Some (acc @ sizes) \<and>
     good_tail M l (1 + int k) R sizes"
  using R
proof (induction k arbitrary: R acc)
  case 0
  let ?w = "planned b g 1"
  have w: "1 \<le> ?w" "?w \<le> M" using b g by (auto simp: planned_def)
  have R: "1 \<le> R" "R \<le> ?w" "R \<le> M - l" using 0 w l by auto
  have c: "current_packet_size limits False 1 ?w R = R" using R by (simp add: current_packet_size_def Let_def)
  have "split_loop limits g False 1 (if 1 < g then b + 1 else b) R acc = Some (acc @ [R])"
    using R c g by (subst split_step [where c = R and bytes = ?w]) (auto simp: planned_def split_done)
  moreover have "good_tail M l 1 R [R]" using R l by (simp add: good_tail_def)
  ultimately show ?case by auto
next
  case (Suc k)
  define m where "m = 1 + int (Suc k)"
  define w where "w = planned b g m - planned b g (m - 1)"
  have m: "m \<ge> 2" by (simp add: m_def)
  have w: "w = (if m \<le> g then b + 1 else b)" using g by (simp add: w_def planned_def algebra_simps)
  have wM: "1 \<le> w" "w \<le> M" using b g m by (auto simp: w)
  have R: "R = planned b g m - l - e" using Suc.prems by (simp add: m_def)
  have enough: "planned b g j - l - e \<ge> j" if "j \<ge> 2" for j
  proof -
    have "0 \<le> (j - 2) * (b - 1)" using that b(1) by simp
    then show ?thesis using e(2) that by (simp add: planned_def algebra_simps)
  qed
  define c where "c = current_packet_size limits False m w R"
  have step: "split_loop limits g False m (if m < g then b + 1 else b) R acc =
      split_loop limits g False (m - 1) w (R - c) (acc @ [c])"
    using enough [OF m] m by (intro split_step) (auto simp: R c_def w)
  have c: "0 < c \<and> c \<le> M \<and> (k = 0 \<longrightarrow> 1 \<le> R - c \<and> R - c \<le> max 1 (planned b g 1 - l)) \<and>
      (k > 0 \<longrightarrow> R - c = planned b g (1 + int k) - l - e)"
  proof (cases k)
    case 0
    then have "m = 2" by (simp add: m_def)
    then show ?thesis using enough [of 2] R wM w_def e(1) 0
      by (auto simp: c_def current_packet_size_def Let_def)
  next
    case (Suc k')
    then have m3: "m \<ge> 3" by (simp add: m_def)
    have "R - w = planned b g (m - 1) - l - e" by (simp add: R w_def)
    moreover have "c = w" using enough [of "m - 1"] m3 calculation by (simp add: c_def current_packet_size_def Let_def)
    ultimately show ?thesis using wM Suc by (simp add: m_def add.commute)
  qed
  have "w = (if m - 1 < g then b + 1 else b)" by (auto simp: w)
  then obtain sizes where "split_loop limits g False (m - 1) w (R - c) (acc @ [c]) = Some ((acc @ [c]) @ sizes)"
    "good_tail M l (m - 1) (R - c) sizes"
    using Suc.IH [of "R - c" "acc @ [c]"] c by (auto simp: m_def)
  then show ?case using step good_tail_Cons [of M l "m - 1" "R - c" sizes c] c
    by (intro exI [of _ "c # sizes"]) (simp add: m_def)
qed

text \<open>A whole split of \<open>p\<close> bytes into \<open>n\<close> packets.\<close>

definition good_split :: "PayloadSizeLimits \<Rightarrow> int \<Rightarrow> int list \<Rightarrow> bool" where
  "good_split limits p sizes \<longleftrightarrow> length sizes \<ge> 2 \<and> sum_list sizes = p \<and>
     (\<forall>i < length sizes. 0 < sizes ! i \<and> sizes ! i \<le> split_capacity limits (length sizes) i)"

lemma good_split_intro:
  assumes "good_tail M l m R sizes" "0 < c" "c \<le> M - f"
    and "max_payload_len limits = M" "first_packet_reduction_len limits = f" "last_packet_reduction_len limits = l"
  shows "good_split limits (R + c) (c # sizes)"
proof -
  have t: "sizes \<noteq> []" "\<forall>x \<in> set sizes. 0 < x \<and> x \<le> M" "last sizes \<le> M - l" "sum_list sizes = R"
    using assms(1) by (auto simp: good_tail_def)
  have "0 < (c # sizes) ! i \<and> (c # sizes) ! i \<le> split_capacity limits (length (c # sizes)) i"
    if "i < length (c # sizes)" for i
  proof (cases i)
    case 0
    then show ?thesis using assms by (simp add: split_capacity_def)
  next
    case (Suc j)
    then have j: "j < length sizes" using that by simp
    have "sizes ! j = last sizes" if "Suc j = length sizes"
      using t(1) that by (metis diff_Suc_1 last_conv_nth)
    then show ?thesis using Suc j t assms(4-6) by (auto simp: split_capacity_def)
  qed
  then show ?thesis using t by (cases sizes) (auto simp: good_split_def)
qed

lemma split_first:
  fixes b g M f l n p :: int
  assumes lim: "max_payload_len limits = M" "first_packet_reduction_len limits = f" "last_packet_reduction_len limits = l"
    and fl: "0 \<le> f" "f \<le> M - 1" "0 \<le> l" "l \<le> M - 1"
    and n: "n \<ge> 2" "p \<ge> n" and t: "p + f + l = n * b + g" "0 \<le> g" "g < n"
    and cap: "p + f + l \<le> n * M" "n \<ge> 3 \<longrightarrow> p + f + l > (n - 1) * M"
  shows "\<exists>sizes. split_loop limits g True n b p [] = Some sizes \<and> good_split limits p sizes \<and> int (length sizes) = n"
proof -
  have b1: "1 \<le> b"
  proof (rule ccontr)
    assume "\<not> 1 \<le> b"
    then have "n * b \<le> n * 0" using n by (intro mult_left_mono) auto
    then show False using t n fl by simp
  qed
  have bM: "b \<le> M" and bM': "g > 0 \<longrightarrow> b + 1 \<le> M"
  proof -
    have "n * b \<le> n * M" using t cap by linarith
    then show bM: "b \<le> M" using n by simp
    show "g > 0 \<longrightarrow> b + 1 \<le> M" using t cap bM by (cases "b = M") auto
  qed
  define c where "c = current_packet_size limits True n b p"
  define c0 where "c0 = (if b > f + 1 then b - f else 1)"
  define e where "e = (if b > f + 1 then 0 else f + 1 - b)"
  have c0: "1 \<le> c0" "c0 \<le> M - f" "c0 = b - f + e" "0 \<le> e" using fl bM by (auto simp: c0_def e_def)
  have c_cases: "c = (if n = 2 \<and> min c0 p = p then p - 1 else min c0 p)"
    by (auto simp: c_def c0_def current_packet_size_def lim Let_def min_def)
  have step: "split_loop limits g True n b p [] = split_loop limits g False (n - 1) b (p - c) [c]"
    using n t by (subst split_step [where c = c and bytes = b]) (auto simp: c_def)
  let ?k = "nat (n - 2)"
  have k: "1 + int ?k = n - 1" using n by simp
  have w: "(if n - 1 < g then b + 1 else b) = b" using t by simp
  have plan: "planned b g (n - 1) = n * b + g - b" using t n by (simp add: planned_def algebra_simps min_def)
  have Re: "p - c0 = planned b g (n - 1) - l - e" using t by (simp add: plan c0(3))
  have "1 \<le> c \<and> c \<le> M - f \<and>
      (\<exists>sizes. split_loop limits g False (1 + int ?k) (if 1 + int ?k < g then b + 1 else b) (p - c) [c] =
         Some ([c] @ sizes) \<and> good_tail M l (1 + int ?k) (p - c) sizes)"
  proof (cases "n = 2")
    case True
    have c: "1 \<le> c" "c \<le> c0" "1 \<le> p - c" "p - c \<le> max 1 (p - c0)" using n c0 True by (auto simp: c_cases)
    have "planned b g 1 - l - e = p - c0" using Re True by simp
    then show ?thesis
      using c c0 True by (intro conjI split_tail [where e = 0])  (use b1 bM bM' fl t in auto)
  next
    case False
    then have n3: "n \<ge> 3" using n by simp
    have "2 * M \<le> 3 * b - 1 + min 2 g" using plan_enough [OF n3 t(2,3)] cap t n3 by auto
    then have le: "l + e \<le> 2 * (b - 1) + min 2 g" using fl bM by (auto simp: e_def)
    have "0 \<le> (n - 1 - 2) * (b - 1)" using n3 b1 by simp
    then have "planned b g (n - 1) - l - e \<ge> n - 1"
      using le n3 by (simp add: planned_def algebra_simps)
    then have c: "c = c0" using Re n3 False by (simp add: c_cases)
    show ?thesis unfolding c
      using c0 n3 Re k by (intro conjI split_tail [where e = e]) (use b1 bM bM' fl t le in auto)
  qed
  then obtain sizes where c: "1 \<le> c" "c \<le> M - f"
    and sizes: "split_loop limits g False (n - 1) b (p - c) [c] = Some (c # sizes)" "good_tail M l (n - 1) (p - c) sizes"
    unfolding k w by auto
  have "good_split limits p (c # sizes)"
    using good_split_intro [OF sizes(2) _ c(2) lim] c by simp
  moreover have "int (length (c # sizes)) = n" using sizes(2) by (simp add: good_tail_def)
  ultimately show ?thesis using step sizes(1) by auto
qed

lemma ceil_div:
  fixes t M :: int
  assumes "0 < M" "0 < t"
  shows "t \<le> ((t + M - 1) div M) * M" "((t + M - 1) div M - 1) * M < t" "1 \<le> (t + M - 1) div M"
proof -
  have "(t + M - 1) div M * M + (t + M - 1) mod M = t + M - 1" by simp
  moreover have "0 \<le> (t + M - 1) mod M" "(t + M - 1) mod M < M" using assms by simp_all
  ultimately show "t \<le> ((t + M - 1) div M) * M" "((t + M - 1) div M - 1) * M < t"
    unfolding left_diff_distrib by linarith+
  have "1 = M div M" using assms by simp
  also have "\<dots> \<le> (t + M - 1) div M" using assms by (intro zdiv_mono1) auto
  finally show "1 \<le> (t + M - 1) div M" .
qed

text \<open>The least number of packets, but two, whose capacity is enough for \<open>p\<close> bytes.\<close>

definition packets_needed :: "PayloadSizeLimits \<Rightarrow> int \<Rightarrow> int" where
  "packets_needed limits p =
     max 2 ((p + first_packet_reduction_len limits + last_packet_reduction_len limits +
             max_payload_len limits - 1) div max_payload_len limits)"

lemma SplitAboutEqually_eq:
  assumes "limits_ok limits" "0 < p"
  shows "SplitAboutEqually p limits =
    (if max_payload_len limits \<ge> single_packet_reduction_len limits + p then Some [p]
     else if max_payload_len limits - first_packet_reduction_len limits < 1 \<or>
             max_payload_len limits - last_packet_reduction_len limits < 1 \<or> p < packets_needed limits p then Some []
     else let t = p + first_packet_reduction_len limits + last_packet_reduction_len limits; n = packets_needed limits p
          in split_loop limits (t mod n) True n (t div n) p [])"
proof -
  have n: "1 \<le> (p + first_packet_reduction_len limits + last_packet_reduction_len limits +
      max_payload_len limits - 1) div max_payload_len limits"
    using assms by (intro ceil_div(3)) (auto simp: limits_ok_def)
  then show ?thesis using assms
    by (auto simp: SplitAboutEqually_def Let_def packets_needed_def limits_ok_def sdiv_nonneg smod_nonneg max_def)
qed

lemma split_all:
  assumes "limits_ok limits" "0 < p"
    and "max_payload_len limits < single_packet_reduction_len limits + p"
    and "first_packet_reduction_len limits < max_payload_len limits"
    and "last_packet_reduction_len limits < max_payload_len limits" "packets_needed limits p \<le> p"
  shows "\<exists>sizes. SplitAboutEqually p limits = Some sizes \<and> good_split limits p sizes \<and>
    int (length sizes) = packets_needed limits p"
proof -
  let ?M = "max_payload_len limits" and ?f = "first_packet_reduction_len limits"
    and ?l = "last_packet_reduction_len limits" and ?n = "packets_needed limits p"
  let ?t = "p + ?f + ?l"
  have M: "0 < ?M" "0 < ?t" "0 \<le> ?f" "0 \<le> ?l" using assms(1,2) by (auto simp: limits_ok_def)
  have n: "2 \<le> ?n" by (simp add: packets_needed_def)
  have cap: "?t \<le> ?n * ?M"
  proof -
    have "?t \<le> (?t + ?M - 1) div ?M * ?M" by (rule ceil_div) (use M in auto)
    also have "\<dots> \<le> ?n * ?M" using M by (intro mult_right_mono) (auto simp: packets_needed_def)
    finally show ?thesis .
  qed
  have tight: "?n \<ge> 3 \<longrightarrow> ?t > (?n - 1) * ?M"
    using ceil_div(2) [OF M(1,2)] by (auto simp: packets_needed_def max_def)
  have "\<exists>sizes. split_loop limits (?t mod ?n) True ?n (?t div ?n) p [] = Some sizes \<and>
      good_split limits p sizes \<and> int (length sizes) = ?n"
    using n M assms cap tight by (intro split_first [OF refl refl refl]) auto
  then show ?thesis using assms by (simp add: SplitAboutEqually_eq Let_def)
qed

text \<open>
  C15. The split of a payload always terminates. It gives the whole payload as one packet when that
  fits; otherwise sizes that add up to the payload, each positive and within the capacity of its
  position (the first and the last packet carry less), using the fewest packets possible; and it
  gives up exactly when the first or the last packet cannot take a byte, or when there are fewer
  bytes than packets needed.
\<close>

theorem SplitAboutEqually_correct:
  assumes "limits_ok limits" "0 < payload_len"
  shows "\<exists>sizes. SplitAboutEqually payload_len limits = Some sizes \<and>
    (if single_packet_reduction_len limits + payload_len \<le> max_payload_len limits then sizes = [payload_len]
     else if max_payload_len limits \<le> first_packet_reduction_len limits \<or>
             max_payload_len limits \<le> last_packet_reduction_len limits \<or>
             payload_len < packets_needed limits payload_len then sizes = []
     else good_split limits payload_len sizes \<and> int (length sizes) = packets_needed limits payload_len)"
  using split_all [OF assms] assms by (auto simp: SplitAboutEqually_eq Let_def)

lemma split_total:
  assumes "limits_ok limits" "0 < p" "max_payload_len limits < single_packet_reduction_len limits + p"
  shows "\<exists>sizes. SplitAboutEqually p limits = Some sizes \<and> (sizes = [] \<or> good_split limits p sizes)"
  using split_all [OF assms(1-3)] assms by (auto simp: SplitAboutEqually_eq Let_def)

definition sample_limits :: PayloadSizeLimits where
  "sample_limits = \<lparr>max_payload_len = 10, first_packet_reduction_len = 4,
     last_packet_reduction_len = 3, single_packet_reduction_len = 7\<rparr>"

theorem SplitAboutEqually_correct_witness:
  "limits_ok sample_limits \<and> packets_needed sample_limits 20 = 3 \<and>
   (\<exists>sizes. SplitAboutEqually 20 sample_limits = Some sizes \<and> good_split sample_limits 20 sizes)"
proof -
  have "limits_ok sample_limits" "packets_needed sample_limits 20 = 3"
    by (simp_all add: limits_ok_def sample_limits_def packets_needed_def)
  then show ?thesis using SplitAboutEqually_correct [of sample_limits 20]
    by (auto simp: sample_limits_def)
qed

end
