(* ===== verification/ByteIO.thy ===== *)
theory ByteIO
  imports Prelude
begin

text \<open>
  \<open>modules/rtp_rtcp/source/byte_io.h\<close>: integers in network and little endian byte order. The readers
  and writers are templates over the integer type and the number of bytes; here they are
  polymorphic in the word type and take the number of bytes as an argument. Specialisations for
  1, 2, 4 and 8 bytes replace the loops in the source and are modelled next to them.
\<close>

section \<open>The source\<close>

definition ReadBigEndian :: "nat \<Rightarrow> uint8_t list \<Rightarrow> 'a::len word" where
  "ReadBigEndian B data =
     fold (\<lambda>i val. val OR push_bit ((B - 1 - i) * 8) (ucast (data ! i))) [0..<B] 0"

definition ReadLittleEndian :: "nat \<Rightarrow> uint8_t list \<Rightarrow> 'a::len word" where
  "ReadLittleEndian B data = fold (\<lambda>i val. val OR push_bit (i * 8) (ucast (data ! i))) [0..<B] 0"

definition WriteBigEndian :: "nat \<Rightarrow> 'a::len word \<Rightarrow> uint8_t list" where
  "WriteBigEndian B val = map (\<lambda>i. ucast (drop_bit ((B - 1 - i) * 8) val)) [0..<B]"

definition WriteLittleEndian :: "nat \<Rightarrow> 'a::len word \<Rightarrow> uint8_t list" where
  "WriteLittleEndian B val = map (\<lambda>i. ucast (drop_bit (i * 8) val)) [0..<B]"

text \<open>
  Signed integers are read as the unsigned type of the same size, sign extended when fewer bytes
  than the type has were read. The mask is computed in \<open>int\<close>, whose shift is undefined from 32 on.
\<close>

definition SignExtend :: "nat \<Rightarrow> 'a::len word \<Rightarrow> 'a word option" where
  "SignExtend B val =
     (let kMsb = (ucast (drop_bit ((B - 1) * 8) val) :: uint8_t)
      in if kMsb AND 0x80 \<noteq> 0 then
           let shift = (B mod (LENGTH('a) div 8)) * 8
           in if shift < 32 then Some (NOT (word_of_int (2 ^ shift - 1)) OR val) else None
         else Some val)"

definition ReinterpretAsSigned :: "'a::len word \<Rightarrow> int" where
  "ReinterpretAsSigned unsigned_val =
     (let kUnsignedHighestBitMask = push_bit (LENGTH('a) - 1) 1
      in if unsigned_val AND kUnsignedHighestBitMask \<noteq> 0
         then uint (unsigned_val AND NOT kUnsignedHighestBitMask) - 2 ^ (LENGTH('a) - 1)
         else uint unsigned_val)"

definition ReadBigEndianSigned :: "'a::len itself \<Rightarrow> nat \<Rightarrow> uint8_t list \<Rightarrow> int option" where
  "ReadBigEndianSigned T B data =
     (let unsigned_val = (ReadBigEndian B data :: 'a word)
      in map_option ReinterpretAsSigned
           (if B < LENGTH('a) div 8 then SignExtend B unsigned_val else Some unsigned_val))"

definition WriteBigEndianSigned :: "'a::len itself \<Rightarrow> nat \<Rightarrow> int \<Rightarrow> uint8_t list" where
  "WriteBigEndianSigned T B val = WriteBigEndian B (word_of_int val :: 'a word)"

text \<open>The specialisations.\<close>

definition ReadBigEndian2 :: "uint8_t list \<Rightarrow> 'a::len word" where
  "ReadBigEndian2 data = push_bit 8 (ucast (data ! 0)) OR ucast (data ! 1)"

definition WriteBigEndian2 :: "'a::len word \<Rightarrow> uint8_t list" where
  "WriteBigEndian2 val = [ucast (drop_bit 8 val), ucast val]"

definition ReadBigEndian4 :: "uint8_t list \<Rightarrow> 'a::len word" where
  "ReadBigEndian4 data = push_bit 24 (ucast (data ! 0)) OR push_bit 16 (ucast (data ! 1)) OR
     push_bit 8 (ucast (data ! 2)) OR ucast (data ! 3)"

definition WriteBigEndian4 :: "'a::len word \<Rightarrow> uint8_t list" where
  "WriteBigEndian4 val = [ucast (drop_bit 24 val), ucast (drop_bit 16 val), ucast (drop_bit 8 val), ucast val]"

definition ReadBigEndian8 :: "uint8_t list \<Rightarrow> 'a::len word" where
  "ReadBigEndian8 data = push_bit 56 (ucast (data ! 0)) OR push_bit 48 (ucast (data ! 1)) OR
     push_bit 40 (ucast (data ! 2)) OR push_bit 32 (ucast (data ! 3)) OR
     push_bit 24 (ucast (data ! 4)) OR push_bit 16 (ucast (data ! 5)) OR
     push_bit 8 (ucast (data ! 6)) OR ucast (data ! 7)"

definition WriteBigEndian8 :: "'a::len word \<Rightarrow> uint8_t list" where
  "WriteBigEndian8 val = [ucast (drop_bit 56 val), ucast (drop_bit 48 val), ucast (drop_bit 40 val),
     ucast (drop_bit 32 val), ucast (drop_bit 24 val), ucast (drop_bit 16 val), ucast (drop_bit 8 val), ucast val]"

section \<open>Properties\<close>

lemma bit_fold_or:
  fixes f :: "nat \<Rightarrow> 'a::len word"
  shows "bit (fold (\<lambda>i val. val OR f i) xs v) n \<longleftrightarrow> bit v n \<or> (\<exists>i \<in> set xs. bit (f i) n)"
  by (induction xs arbitrary: v) (auto simp: bit_or_iff)

lemma bit_ReadBigEndian:
  "bit (ReadBigEndian B data :: 'a::len word) n \<longleftrightarrow>
     n < LENGTH('a) \<and> n < 8 * B \<and> bit (data ! (B - 1 - n div 8)) (n mod 8)"
proof -
  have "(\<exists>i<B. (B - 1 - i) * 8 \<le> n \<and> n < LENGTH('a) \<and> bit (data ! i) (n - (B - 1 - i) * 8)) \<longleftrightarrow>
      n < LENGTH('a) \<and> n < 8 * B \<and> bit (data ! (B - 1 - n div 8)) (n mod 8)" (is "?L \<longleftrightarrow> ?R")
  proof
    assume ?L
    then obtain i where i: "i < B" "(B - 1 - i) * 8 \<le> n" "n < LENGTH('a)" "bit (data ! i) (n - (B - 1 - i) * 8)"
      by blast
    define k where "k = B - 1 - i"
    have "n - k * 8 < 8" using bit_imp_le_length [OF i(4)] by (simp add: k_def)
    moreover have "k * 8 \<le> n" using i(2) by (simp add: k_def)
    ultimately have "n div 8 = k" "n mod 8 = n - k * 8" by presburger+
    then show ?R using i by (auto simp: k_def)
  next
    assume R: ?R
    then have "n div 8 < B" by auto
    then have "B - 1 - (B - 1 - n div 8) = n div 8" by simp
    moreover have "n - n div 8 * 8 = n mod 8" by (simp add: minus_div_mult_eq_mod)
    moreover have "n div 8 * 8 \<le> n" by simp
    ultimately show ?L using R \<open>n div 8 < B\<close> by (intro exI [of _ "B - 1 - n div 8"]) auto
  qed
  then show ?thesis
    by (auto simp: ReadBigEndian_def bit_fold_or bit_push_bit_iff bit_unsigned_iff Bex_def dest: bit_imp_le_length)
qed

lemma bit_Read_Write:
  fixes val :: "'a::len word"
  shows "bit (ReadBigEndian B (WriteBigEndian B val) :: 'a word) n \<longleftrightarrow> n < 8 * B \<and> bit val n"
proof -
  have "n div 8 < B \<Longrightarrow> (B - 1 - (B - 1 - n div 8)) * 8 + n mod 8 = n" by simp
  then show ?thesis
    by (auto simp: bit_ReadBigEndian WriteBigEndian_def bit_unsigned_iff bit_drop_bit_eq dest: bit_imp_le_length)
qed

lemma Read_Write_unsigned:
  fixes val :: "'a::len word"
  assumes "uint val < 2 ^ (8 * B)"
  shows "ReadBigEndian B (WriteBigEndian B val) = val"
proof (rule bit_word_eqI)
  fix n
  have "take_bit (8 * B) (uint val) = uint val" using assms by (simp add: take_bit_int_eq_self)
  then have "bit (uint val) n \<Longrightarrow> n < 8 * B" by (metis bit_take_bit_iff)
  then show "bit (ReadBigEndian B (WriteBigEndian B val) :: 'a word) n = bit val n"
    by (auto simp: bit_Read_Write bit_uint_iff dest: bit_imp_le_length)
qed

lemma signed_take_bit_split: "signed_take_bit m k = take_bit m k - of_bool (bit k m) * 2 ^ m" for k :: int
  by (simp add: signed_take_bit_eq_take_bit_minus take_bit_Suc_from_most)

lemma ReinterpretAsSigned_sint: "ReinterpretAsSigned w = sint w" for w :: "'a::len word"
proof -
  let ?L = "LENGTH('a) - 1"
  have msb: "w AND push_bit ?L 1 \<noteq> 0 \<longleftrightarrow> bit w ?L"
  proof -
    have "w AND push_bit ?L 1 = (if bit w ?L then push_bit ?L 1 else 0)"
      by (rule bit_word_eqI) (auto simp: bit_and_iff bit_exp_iff)
    moreover have "push_bit ?L (1 :: 'a word) \<noteq> 0" by simp
    ultimately show ?thesis by simp
  qed
  have low: "uint (w AND NOT (push_bit ?L 1)) = take_bit ?L (uint w)"
  proof (rule bit_eqI)
    fix n
    show "bit (uint (w AND NOT (push_bit ?L 1))) n = bit (take_bit ?L (uint w)) n"
      by (auto simp: bit_uint_iff bit_and_iff bit_not_iff bit_exp_iff bit_take_bit_iff)
  qed
  have "sint w = take_bit ?L (uint w) - of_bool (bit (uint w) ?L) * 2 ^ ?L"
    unfolding sint_uint by (simp add: signed_take_bit_split)
  moreover have "take_bit ?L (uint w) = uint w" if "\<not> bit w ?L"
  proof (rule bit_eqI)
    fix n
    show "bit (take_bit ?L (uint w)) n = bit (uint w) n"
      using that by (cases "n = ?L") (auto simp: bit_take_bit_iff bit_uint_iff)
  qed
  ultimately show ?thesis using msb low
    by (auto simp: ReinterpretAsSigned_def Let_def bit_uint_iff)
qed

lemma SignExtend_Read:
  fixes v :: int
  assumes B: "0 < B" "8 * B < LENGTH('a)" "8 * B < 32" "LENGTH('a) = 8 * sz"
    and v: "- (2 ^ (8 * B - 1)) \<le> v" "v < 2 ^ (8 * B - 1)"
  shows "SignExtend B (ReadBigEndian B (WriteBigEndian B (word_of_int v :: 'a::len word)) :: 'a word) =
    Some (word_of_int v)"
proof -
  let ?u = "ReadBigEndian B (WriteBigEndian B (word_of_int v :: 'a word)) :: 'a word"
  have self: "signed_take_bit (8 * B - 1) v = v" using v by (simp add: signed_take_bit_int_eq_self)
  have high: "bit v n = bit v (8 * B - 1)" if "n \<ge> 8 * B - 1" for n
    using self that by (metis bit_signed_take_bit_iff min.absorb1 possible_bit_int)
  have bit_u: "bit ?u n \<longleftrightarrow> n < 8 * B \<and> bit v n" for n
    using B(2) by (auto simp: bit_Read_Write bit_word_of_int_iff)
  have msb: "(ucast (drop_bit ((B - 1) * 8) ?u) :: uint8_t) AND 0x80 \<noteq> 0 \<longleftrightarrow> bit v (8 * B - 1)"
  proof -
    have "(ucast (drop_bit ((B - 1) * 8) ?u) :: uint8_t) AND 0x80 =
        (if bit v (8 * B - 1) then 0x80 else 0)"
    proof (rule bit_word_eqI)
      fix n assume "n < LENGTH(8)"
      have "0x80 = (2 :: uint8_t) ^ 7" by simp
      then have "bit (0x80 :: uint8_t) n \<longleftrightarrow> n = 7" using \<open>n < LENGTH(8)\<close> by (simp only: bit_exp_iff) auto
      moreover have "(B - 1) * 8 + 7 = 8 * B - 1" using B(1) by simp
      ultimately show "bit ((ucast (drop_bit ((B - 1) * 8) ?u) :: uint8_t) AND 0x80) n =
          bit (if bit v (8 * B - 1) then 0x80 else 0 :: uint8_t) n"
        using B(1) by (auto simp: bit_and_iff bit_unsigned_iff bit_drop_bit_eq bit_u)
    qed
    then show ?thesis by simp
  qed
  have "B mod sz = B" using B by simp
  then have shift: "(B mod (LENGTH('a) div 8)) * 8 = 8 * B" using B(4) by simp
  have "NOT (word_of_int (2 ^ (8 * B) - 1)) OR ?u = (word_of_int v :: 'a word)" if "bit v (8 * B - 1)"
  proof (rule bit_word_eqI)
    fix n assume n: "n < LENGTH('a)"
    have "bit (word_of_int (2 ^ (8 * B) - 1) :: 'a word) n \<longleftrightarrow> n < 8 * B"
      using n by (simp add: bit_word_of_int_iff bit_mask_iff flip: mask_eq_exp_minus_1)
    then show "bit (NOT (word_of_int (2 ^ (8 * B) - 1)) OR ?u) n = bit (word_of_int v :: 'a word) n"
      using n high [of n] that by (auto simp: bit_or_iff bit_not_iff bit_u bit_word_of_int_iff)
  qed
  moreover have "?u = word_of_int v" if "\<not> bit v (8 * B - 1)"
  proof (rule bit_word_eqI)
    fix n assume n: "n < LENGTH('a)"
    show "bit ?u n = bit (word_of_int v :: 'a word) n"
      using n high [of n] that by (cases "n < 8 * B") (auto simp: bit_u bit_word_of_int_iff)
  qed
  ultimately show ?thesis using msb B(3) by (auto simp: SignExtend_def Let_def shift)
qed

text \<open>
  C38. Writing and reading in network byte order round trip for every integer type and number of
  bytes: an unsigned value comes back if it fits the bytes written, and a signed one, sign
  extended if need be, if it is in the two's complement range of the bytes written (for fewer
  bytes than the type has, below the 32 bits of \<open>int\<close>, whose shift builds the extension mask).
\<close>

theorem byte_io_roundtrip:
  fixes val :: "'a::len word" and v :: int
  assumes "LENGTH('a) = 8 * sz" "0 < B" "B = sz \<or> B < sz \<and> B < 4"
  shows "(uint val < 2 ^ (8 * B) \<longrightarrow> ReadBigEndian B (WriteBigEndian B val) = val) \<and>
    (- (2 ^ (8 * B - 1)) \<le> v \<and> v < 2 ^ (8 * B - 1) \<longrightarrow>
      ReadBigEndianSigned TYPE('a) B (WriteBigEndianSigned TYPE('a) B v) = Some v)"
proof (intro conjI impI)
  assume v: "- (2 ^ (8 * B - 1)) \<le> v \<and> v < 2 ^ (8 * B - 1)"
  have "(2 :: int) ^ (8 * B - 1) \<le> 2 ^ (LENGTH('a) - 1)" using assms by (intro power_increasing) auto
  moreover have "sint (word_of_int v :: 'a word) = signed_take_bit (LENGTH('a) - 1) v" by transfer simp
  ultimately have "sint (word_of_int v :: 'a word) = v"
    using v by (simp add: signed_take_bit_int_eq_self del: power_increasing_iff)
  moreover have "SignExtend B (ReadBigEndian B (WriteBigEndian B (word_of_int v :: 'a word)) :: 'a word) =
      Some (word_of_int v)" if "B < sz"
    using assms that v by (intro SignExtend_Read [where sz = sz]) auto
  moreover have "ReadBigEndian B (WriteBigEndian B (word_of_int v :: 'a word)) = (word_of_int v :: 'a word)" if "B = sz"
    using assms that by (intro Read_Write_unsigned) (metis uint_lt_exp)
  ultimately show "ReadBigEndianSigned TYPE('a) B (WriteBigEndianSigned TYPE('a) B v) = Some v"
    using assms by (auto simp: ReadBigEndianSigned_def WriteBigEndianSigned_def ReinterpretAsSigned_sint)
qed (rule Read_Write_unsigned)

theorem byte_io_roundtrip_witness:
  "(ReadBigEndian 3 (WriteBigEndian 3 (0x012345 :: uint32_t)) :: uint32_t) = 0x012345 \<and>
   ReadBigEndianSigned TYPE(32) 3 (WriteBigEndianSigned TYPE(32) 3 (- 5)) = Some (- 5)"
  using byte_io_roundtrip [where 'a = 32, of 4 3 "0x012345" "- 5"] by simp

text \<open>The specialised readers and writers agree with the loops they replace.\<close>

lemma upt_bytes: "[0..<2] = [0, 1]" "[0..<4] = [0, 1, 2, 3]" "[0..<8] = [0, 1, 2, 3, 4, 5, 6, 7]"
  by (simp_all add: upt_rec)

lemma byte_io_specialisations:
  fixes val :: "'a::len word"
  shows "ReadBigEndian2 data = (ReadBigEndian 2 data :: 'a word) \<and> WriteBigEndian2 val = WriteBigEndian 2 val \<and>
    ReadBigEndian4 data = (ReadBigEndian 4 data :: 'a word) \<and> WriteBigEndian4 val = WriteBigEndian 4 val \<and>
    ReadBigEndian8 data = (ReadBigEndian 8 data :: 'a word) \<and> WriteBigEndian8 val = WriteBigEndian 8 val"
  by (simp add: ReadBigEndian2_def ReadBigEndian4_def ReadBigEndian8_def ReadBigEndian_def
    WriteBigEndian2_def WriteBigEndian4_def WriteBigEndian8_def WriteBigEndian_def upt_bytes or.assoc)

end
