(* ===== verification/RtpFormatH264.thy ===== *)
theory RtpFormatH264
  imports H264Nal RtpFormat ByteIO H264Encoder
begin

text \<open>
  \<open>modules/rtp_rtcp/source/rtp_format_h264.cc\<close>: the packetiser of RFC 6184, and the loop of
  \<open>RTPSenderVideo::SendVideo\<close> that draws the packets of a frame from it. The constructor plans the
  packets as a queue of packet units, \<open>NextPacket\<close> renders them. \<^term>\<open>None\<close> is a failed
  \<open>RTC_CHECK\<close> or a read outside a container. The theorems show that no check fails, that every packet
  fits the capacity of its position and what the packets carry.
\<close>

section \<open>The source\<close>

definition kNalHeaderSize :: nat where "kNalHeaderSize = 1"
definition kFuAHeaderSize :: nat where "kFuAHeaderSize = 2"
definition kLengthFieldSize :: nat where "kLengthFieldSize = 2"

definition kH264FBit :: uint8_t where "kH264FBit = 0x80"
definition kH264NriMask :: uint8_t where "kH264NriMask = 0x60"
definition kH264TypeMask :: uint8_t where "kH264TypeMask = 0x1F"
definition kH264SBit :: uint8_t where "kH264SBit = 0x80"
definition kH264EBit :: uint8_t where "kH264EBit = 0x40"

lemmas h264_size_defs = kNalHeaderSize_def kFuAHeaderSize_def kLengthFieldSize_def
lemmas h264_mask_defs = kH264FBit_def kH264NriMask_def kH264TypeMask_def kH264SBit_def kH264EBit_def

record PacketUnit =
  source_fragment :: bytes
  first_fragment :: bool
  last_fragment :: bool
  aggregated :: bool
  unit_header :: uint8_t

record RtpPacketizerH264 =
  rp_limits :: PayloadSizeLimits
  rp_num_packets_left :: int
  rp_input_fragments :: "bytes list"
  rp_packets :: "PacketUnit list"

text \<open>Conversion of an integer to \<open>size_t\<close>.\<close>

definition to_size_t :: "int \<Rightarrow> int" where
  "to_size_t n = n mod 2 ^ 64"

definition NumPackets :: "RtpPacketizerH264 \<Rightarrow> int" where
  "NumPackets st = rp_num_packets_left st"

text \<open>The reduction that applies to a NAL unit sent on its own, by its position in the frame.\<close>

definition position_reduction :: "PayloadSizeLimits \<Rightarrow> nat \<Rightarrow> nat \<Rightarrow> int" where
  "position_reduction limits n i =
     (if n = 1 then single_packet_reduction_len limits
      else if i = 0 then first_packet_reduction_len limits
      else if i + 1 = n then last_packet_reduction_len limits
      else 0)"

definition PacketizeSingleNalu :: "nat \<Rightarrow> RtpPacketizerH264 \<Rightarrow> (bool \<times> RtpPacketizerH264) option" where
  "PacketizeSingleNalu i st =
     (let limits = rp_limits st; frs = rp_input_fragments st; fragment = frs ! i;
          payload_size_left = to_size_t (max_payload_len limits - position_reduction limits (length frs) i)
      in if payload_size_left < int (length fragment) then Some (False, st)
         else if fragment = [] then None
         else Some (True, st\<lparr>rp_packets := rp_packets st @ [\<lparr>source_fragment = fragment, first_fragment = True,
                                 last_fragment = True, aggregated = False, unit_header = hd fragment\<rparr>],
                             rp_num_packets_left := rp_num_packets_left st + 1\<rparr>))"

definition fua_limits :: "PayloadSizeLimits \<Rightarrow> nat \<Rightarrow> nat \<Rightarrow> PayloadSizeLimits" where
  "fua_limits limits0 n i =
     limits0\<lparr>max_payload_len := max_payload_len limits0 - int kFuAHeaderSize,
         single_packet_reduction_len :=
           (if n \<noteq> 1 then if i = n - 1 then last_packet_reduction_len limits0
                          else if i = 0 then first_packet_reduction_len limits0
                          else 0
            else single_packet_reduction_len limits0),
         first_packet_reduction_len := (if i \<noteq> 0 then 0 else first_packet_reduction_len limits0),
         last_packet_reduction_len := (if i \<noteq> n - 1 then 0 else last_packet_reduction_len limits0)\<rparr>"

text \<open>The units of one fragmented NAL unit, and the payload bytes that are left over.\<close>

fun fua_units :: "bytes \<Rightarrow> nat \<Rightarrow> bool \<Rightarrow> int list \<Rightarrow> PacketUnit list option" where
  "fua_units fragment offset first [] = Some []"
| "fua_units fragment offset first (packet_length # payload_sizes) =
     (if packet_length \<le> 0 \<or> fragment = [] then None
      else do {
        units \<leftarrow> fua_units fragment (offset + nat packet_length) False payload_sizes;
        Some (\<lparr>source_fragment = take (nat packet_length) (drop offset fragment), first_fragment = first,
               last_fragment = (payload_sizes = []), aggregated = False, unit_header = hd fragment\<rparr> # units) })"

definition PacketizeFuA :: "nat \<Rightarrow> RtpPacketizerH264 \<Rightarrow> (bool \<times> RtpPacketizerH264) option" where
  "PacketizeFuA i st =
     (let frs = rp_input_fragments st; fragment = frs ! i;
          limits = fua_limits (rp_limits st) (length frs) i;
          payload_left = int (length fragment) - int kNalHeaderSize
      in do {
        payload_sizes \<leftarrow> SplitAboutEqually payload_left limits;
        if payload_sizes = [] then Some (False, st)
        else do {
          units \<leftarrow> fua_units fragment kNalHeaderSize True payload_sizes;
          if sum_list payload_sizes \<noteq> payload_left then None
          else Some (True, st\<lparr>rp_packets := rp_packets st @ units,
                 rp_num_packets_left := rp_num_packets_left st + int (length payload_sizes)\<rparr>) } })"

definition payload_size_needed :: "PayloadSizeLimits \<Rightarrow> bool \<Rightarrow> bool \<Rightarrow> int \<Rightarrow> int" where
  "payload_size_needed limits has_first_fragment has_last_fragment fragment_size =
     to_size_t (fragment_size +
       (if has_first_fragment \<and> has_last_fragment then single_packet_reduction_len limits
        else if has_first_fragment then first_packet_reduction_len limits
        else if has_last_fragment then last_packet_reduction_len limits
        else 0))"

text \<open>
  The aggregation loop over the fragments from the current one on; it stops at the end of the
  frame or when the next fragment does not fit.
\<close>

fun stap_loop :: "PayloadSizeLimits \<Rightarrow> bool \<Rightarrow> int \<Rightarrow> int \<Rightarrow> nat \<Rightarrow> bytes list \<Rightarrow> PacketUnit list option" where
  "stap_loop limits has_first payload_size_left fragment_headers_length aggregated_fragments [] = Some []"
| "stap_loop limits has_first payload_size_left fragment_headers_length aggregated_fragments (fragment # rest) =
     (if payload_size_left \<ge> payload_size_needed limits has_first (rest = [])
           (int (length fragment) + fragment_headers_length)
      then if fragment = [] then None
           else do {
             units \<leftarrow> stap_loop limits has_first
               (to_size_t (payload_size_left - int (length fragment) - fragment_headers_length))
               (int kLengthFieldSize +
                  (if aggregated_fragments = 0 then int kNalHeaderSize + int kLengthFieldSize else 0))
               (aggregated_fragments + 1) rest;
             Some (\<lparr>source_fragment = fragment, first_fragment = (aggregated_fragments = 0),
                    last_fragment = False, aggregated = True, unit_header = hd fragment\<rparr> # units) }
      else Some [])"

definition PacketizeStapA :: "nat \<Rightarrow> RtpPacketizerH264 \<Rightarrow> (nat \<times> RtpPacketizerH264) option" where
  "PacketizeStapA i st =
     (let limits = rp_limits st; frs = rp_input_fragments st;
          payload_size_left = to_size_t (max_payload_len limits)
      in if payload_size_left < int (length (frs ! i)) then None
         else do {
           units \<leftarrow> stap_loop limits (i = 0) payload_size_left 0 0 (drop i frs);
           if units = [] then None
           else Some (i + length units,
             st\<lparr>rp_packets := rp_packets st @ butlast units @ [(last units)\<lparr>last_fragment := True\<rparr>],
                rp_num_packets_left := rp_num_packets_left st + 1\<rparr>) })"

lemma PacketizeStapA_advances:
  "PacketizeStapA i st = Some (j, st') \<Longrightarrow> i < j \<and> rp_input_fragments st' = rp_input_fragments st"
  by (auto simp: PacketizeStapA_def Let_def bind_eq_Some_conv split: if_splits)

lemma PacketizeFuA_fragments:
  "PacketizeFuA i st = Some (ok, st') \<Longrightarrow> rp_input_fragments st' = rp_input_fragments st"
  by (auto simp: PacketizeFuA_def Let_def bind_eq_Some_conv split: if_splits)

lemma PacketizeSingleNalu_fragments:
  "PacketizeSingleNalu i st = Some (ok, st') \<Longrightarrow> rp_input_fragments st' = rp_input_fragments st"
  by (auto simp: PacketizeSingleNalu_def Let_def split: if_splits)

function GeneratePackets ::
  "H264PacketizationMode \<Rightarrow> nat \<Rightarrow> RtpPacketizerH264 \<Rightarrow> (bool \<times> RtpPacketizerH264) option" where
  "GeneratePackets mode i st =
     (let frs = rp_input_fragments st
      in if i < length frs then
           case mode of
             SingleNalUnit \<Rightarrow> do {
               (ok, st') \<leftarrow> PacketizeSingleNalu i st;
               if ok then GeneratePackets mode (i + 1) st' else Some (False, st') }
           | NonInterleaved \<Rightarrow>
               if int (length (frs ! i)) >
                    max_payload_len (rp_limits st) - position_reduction (rp_limits st) (length frs) i
               then do {
                 (ok, st') \<leftarrow> PacketizeFuA i st;
                 if ok then GeneratePackets mode (i + 1) st' else Some (False, st') }
               else do {
                 (j, st') \<leftarrow> PacketizeStapA i st;
                 GeneratePackets mode j st' }
         else Some (True, st))"
  by pat_completeness auto
termination
  by (relation "measure (\<lambda>(_, i, st). length (rp_input_fragments st) - i)")
    (auto dest!: PacketizeStapA_advances PacketizeFuA_fragments PacketizeSingleNalu_fragments)

declare GeneratePackets.simps [simp del]

definition RtpPacketizerH264_init ::
  "bytes \<Rightarrow> PayloadSizeLimits \<Rightarrow> H264PacketizationMode \<Rightarrow> RtpPacketizerH264 option" where
  "RtpPacketizerH264_init payload limits packetization_mode = do {
     (ok, st) \<leftarrow> GeneratePackets packetization_mode 0
       \<lparr>rp_limits = limits, rp_num_packets_left = 0,
        rp_input_fragments = map (nalu_payload payload) (FindNaluIndices payload), rp_packets = []\<rparr>;
     Some (if ok then st else st\<lparr>rp_num_packets_left := 0, rp_packets := []\<rparr>) }"

section \<open>Rendering\<close>

text \<open>The aggregation loop of \<open>NextAggregatePacket\<close>, which also drops the fragments it has copied.\<close>

fun aggregate_loop ::
  "nat \<Rightarrow> nat \<Rightarrow> PacketUnit list \<Rightarrow> bytes list \<Rightarrow> (bytes \<times> PacketUnit list \<times> bytes list) option" where
  "aggregate_loop payload_capacity index [] frs = None"
| "aggregate_loop payload_capacity index (packet # packets) frs =
     (if \<not> aggregated packet then (if last_fragment packet then Some ([], packet # packets, frs) else None)
      else let fragment = source_fragment packet
           in if payload_capacity < index + kLengthFieldSize + length fragment \<or> frs = [] then None
              else if last_fragment packet
              then Some (WriteBigEndian2 (of_nat (length fragment) :: uint16_t) @ fragment, packets, tl frs)
              else do {
                (buffer, packets', frs') \<leftarrow> aggregate_loop payload_capacity
                   (index + kLengthFieldSize + length fragment) packets (tl frs);
                Some (WriteBigEndian2 (of_nat (length fragment) :: uint16_t) @ fragment @ buffer, packets', frs') })"

definition NextAggregatePacket ::
  "nat \<Rightarrow> RtpPacketizerH264 \<Rightarrow> (bytes \<times> RtpPacketizerH264) option" where
  "NextAggregatePacket payload_capacity st =
     (case rp_packets st of
        [] \<Rightarrow> None
      | packet # _ \<Rightarrow>
          if payload_capacity < kNalHeaderSize \<or> \<not> first_fragment packet then None
          else do {
            (buffer, packets, frs) \<leftarrow> aggregate_loop payload_capacity kNalHeaderSize
               (rp_packets st) (rp_input_fragments st);
            Some (((unit_header packet AND (kH264FBit OR kH264NriMask)) OR kStapA) # buffer,
                  st\<lparr>rp_packets := packets, rp_input_fragments := frs\<rparr>) })"

definition NextFragmentPacket :: "RtpPacketizerH264 \<Rightarrow> (bytes \<times> RtpPacketizerH264) option" where
  "NextFragmentPacket st =
     (case rp_packets st of
        [] \<Rightarrow> None
      | packet # packets \<Rightarrow>
          let fu_indicator = (unit_header packet AND (kH264FBit OR kH264NriMask)) OR kFuA;
              fu_header = (if first_fragment packet then kH264SBit else 0) OR
                (if last_fragment packet then kH264EBit else 0) OR (unit_header packet AND kH264TypeMask)
          in if last_fragment packet \<and> rp_input_fragments st = [] then None
             else Some (fu_indicator # fu_header # source_fragment packet,
               st\<lparr>rp_packets := packets,
                  rp_input_fragments := (if last_fragment packet then tl (rp_input_fragments st)
                                         else rp_input_fragments st)\<rparr>))"

record RtpPacketToSend =
  rtp_payload :: bytes
  rtp_marker :: bool

text \<open>\<^term>\<open>Some (None, st)\<close> is the result \<open>false\<close>; otherwise the packet with payload and marker set.\<close>

definition NextPacket ::
  "nat \<Rightarrow> RtpPacketizerH264 \<Rightarrow> (RtpPacketToSend option \<times> RtpPacketizerH264) option" where
  "NextPacket free_capacity st =
     (case rp_packets st of
        [] \<Rightarrow> Some (None, st)
      | packet # packets \<Rightarrow> do {
          (payload, st') \<leftarrow>
            (if first_fragment packet \<and> last_fragment packet
             then if rp_input_fragments st = [] then None
                  else Some (source_fragment packet,
                    st\<lparr>rp_packets := packets, rp_input_fragments := tl (rp_input_fragments st)\<rparr>)
             else if aggregated packet then NextAggregatePacket free_capacity st
             else NextFragmentPacket st);
          Some (Some \<lparr>rtp_payload = payload, rtp_marker = (rp_packets st' = [])\<rparr>,
                st'\<lparr>rp_num_packets_left := to_size_t (rp_num_packets_left st' - 1)\<rparr>) })"

text \<open>The capacity \<open>SendVideo\<close> expects of packet \<open>i\<close> of \<open>num_packets\<close>, by the template it chooses.\<close>

definition expected_payload_capacity :: "PayloadSizeLimits \<Rightarrow> int \<Rightarrow> int \<Rightarrow> int" where
  "expected_payload_capacity limits num_packets i =
     (if num_packets = 1 then max_payload_len limits - single_packet_reduction_len limits
      else if i = 0 then max_payload_len limits - first_packet_reduction_len limits
      else if i = num_packets - 1 then max_payload_len limits - last_packet_reduction_len limits
      else max_payload_len limits)"

text \<open>
  The loop of \<open>SendVideo\<close> from packet \<open>i\<close> on, with \<open>spare\<close> bytes of every template reserved for
  retransmission and error correction headers; an inner \<^term>\<open>None\<close> is the early return.
\<close>

function draw_packets ::
  "nat \<Rightarrow> int \<Rightarrow> int \<Rightarrow> RtpPacketizerH264 \<Rightarrow> RtpPacketToSend list option option" where
  "draw_packets spare num_packets i st =
     (if i < num_packets then do {
        (packet, st') \<leftarrow> NextPacket (nat (expected_payload_capacity (rp_limits st) num_packets i + int spare)) st;
        (case packet of
           None \<Rightarrow> Some None
         | Some p \<Rightarrow> map_option (map_option ((#) p)) (draw_packets spare num_packets (i + 1) st')) }
      else Some (Some []))"
  by pat_completeness auto
termination by (relation "measure (\<lambda>(_, n, i, _). nat (n - i))") auto

declare draw_packets.simps [simp del]

definition packetize_frame ::
  "nat \<Rightarrow> bytes \<Rightarrow> PayloadSizeLimits \<Rightarrow> H264PacketizationMode \<Rightarrow> RtpPacketToSend list option option" where
  "packetize_frame spare payload limits mode = do {
     packetizer \<leftarrow> RtpPacketizerH264_init payload limits mode;
     let num_packets = NumPackets packetizer
     in if num_packets = 0 then Some None else draw_packets spare num_packets 0 packetizer }"

section \<open>Packet plans\<close>

text \<open>
  What one RTP packet carries: a whole NAL unit, several of them aggregated, or a fragment of the
  NAL unit with a given header byte.
\<close>

datatype plan = Whole bool bytes | Stap "bytes list" | Frag uint8_t bool bool bytes

fun stap_tail :: "bytes list \<Rightarrow> PacketUnit list" where
  "stap_tail [] = []"
| "stap_tail (n # ns) = \<lparr>source_fragment = n, first_fragment = False, last_fragment = (ns = []),
     aggregated = True, unit_header = hd n\<rparr> # stap_tail ns"

fun plan_units :: "plan \<Rightarrow> PacketUnit list" where
  "plan_units (Whole agg n) = [\<lparr>source_fragment = n, first_fragment = True, last_fragment = True,
     aggregated = agg, unit_header = hd n\<rparr>]"
| "plan_units (Stap ns) = \<lparr>source_fragment = hd ns, first_fragment = True, last_fragment = False,
     aggregated = True, unit_header = hd (hd ns)\<rparr> # stap_tail (tl ns)"
| "plan_units (Frag h f l c) = [\<lparr>source_fragment = c, first_fragment = f, last_fragment = l,
     aggregated = False, unit_header = h\<rparr>]"

definition stap_entry :: "bytes \<Rightarrow> bytes" where
  "stap_entry n = WriteBigEndian2 (of_nat (length n) :: uint16_t) @ n"

fun plan_payload :: "plan \<Rightarrow> bytes" where
  "plan_payload (Whole agg n) = n"
| "plan_payload (Stap ns) =
     ((hd (hd ns) AND (kH264FBit OR kH264NriMask)) OR kStapA) # concat (map stap_entry ns)"
| "plan_payload (Frag h f l c) =
     ((h AND (kH264FBit OR kH264NriMask)) OR kFuA) #
     ((if f then kH264SBit else 0) OR (if l then kH264EBit else 0) OR (h AND kH264TypeMask)) # c"

fun plan_ok :: "plan \<Rightarrow> bool" where
  "plan_ok (Whole agg n) = (n \<noteq> [])"
| "plan_ok (Stap ns) = (2 \<le> length ns \<and> (\<forall>n \<in> set ns. n \<noteq> []))"
| "plan_ok (Frag h f l c) = (c \<noteq> [] \<and> \<not> (f \<and> l))"

text \<open>The fragments a plan completes, the NAL units it holds whole, the header byte it sends and the byte
  stream it stands for.\<close>

fun plan_fragments :: "plan \<Rightarrow> nat" where
  "plan_fragments (Whole agg n) = 1"
| "plan_fragments (Stap ns) = length ns"
| "plan_fragments (Frag h f l c) = of_bool l"

fun plan_nals :: "plan \<Rightarrow> bytes list" where
  "plan_nals (Whole agg n) = [n]"
| "plan_nals (Stap ns) = ns"
| "plan_nals (Frag h f l c) = []"

fun plan_header :: "plan \<Rightarrow> uint8_t" where
  "plan_header (Whole agg n) = hd n"
| "plan_header (Stap ns) = hd (hd ns)"
| "plan_header (Frag h f l c) = h"

fun plan_bytes :: "plan \<Rightarrow> bytes" where
  "plan_bytes (Whole agg n) = start_code True @ n"
| "plan_bytes (Stap ns) = concat (map (\<lambda>n. start_code True @ n) ns)"
| "plan_bytes (Frag h f l c) = (if f then start_code True @ [h] else []) @ c"

lemma length_stap_entry [simp]: "length (stap_entry n) = length n + 2"
  by (simp add: stap_entry_def WriteBigEndian2_def)

lemma aggregate_tail:
  assumes "ns \<noteq> []" "length ns \<le> length frs"
    and "index + length (concat (map stap_entry ns)) \<le> capacity"
  shows "aggregate_loop capacity index (stap_tail ns @ rest) frs =
    Some (concat (map stap_entry ns), rest, drop (length ns) frs)"
  using assms
proof (induction ns arbitrary: index frs)
  case (Cons n ns)
  then show ?case
    by (cases ns; cases frs)
      (auto simp: Let_def stap_entry_def kLengthFieldSize_def WriteBigEndian2_def)
qed simp

lemma NextPacket_plan:
  assumes "rp_packets st = plan_units p @ rest" "plan_ok p"
    and "plan_fragments p \<le> length (rp_input_fragments st)"
    and "length (plan_payload p) \<le> capacity"
  shows "NextPacket capacity st =
    Some (Some \<lparr>rtp_payload = plan_payload p, rtp_marker = (rest = [])\<rparr>,
      st\<lparr>rp_packets := rest, rp_input_fragments := drop (plan_fragments p) (rp_input_fragments st),
         rp_num_packets_left := to_size_t (rp_num_packets_left st - 1)\<rparr>)"
proof (cases p)
  case (Whole agg n)
  then show ?thesis using assms by (auto simp: NextPacket_def drop_Suc)
next
  case (Frag h f l c)
  then show ?thesis using assms by (auto simp: NextPacket_def NextFragmentPacket_def Let_def drop_Suc)
next
  case (Stap ns)
  then obtain n m ms where ns: "ns = n # m # ms" using assms(2) by (cases ns; cases "tl ns") auto
  obtain fr frs where frs: "rp_input_fragments st = fr # frs"
    using assms(3) Stap ns by (cases "rp_input_fragments st") auto
  have tail: "aggregate_loop capacity (kNalHeaderSize + kLengthFieldSize + length n) (stap_tail (m # ms) @ rest) frs =
      Some (concat (map stap_entry (m # ms)), rest, drop (length (m # ms)) frs)"
    using assms(3,4) Stap ns frs by (intro aggregate_tail) (auto simp: h264_size_defs)
  have cap: "kNalHeaderSize + kLengthFieldSize + length n \<le> capacity" "kNalHeaderSize \<le> capacity"
    using assms(4) Stap ns by (auto simp: h264_size_defs)
  have "aggregate_loop capacity kNalHeaderSize (rp_packets st) (fr # frs) =
      Some (concat (map stap_entry ns), rest, drop (length (m # ms)) frs)"
    using tail cap assms(1) unfolding Stap ns
    by (simp del: stap_tail.simps add: Let_def) (simp add: stap_entry_def)
  then show ?thesis using cap assms(1) unfolding Stap ns NextPacket_def NextAggregatePacket_def frs
    by simp
qed

lemma draw_plans:
  assumes "rp_packets st = concat (map plan_units ps)" "\<forall>p \<in> set ps. plan_ok p"
    and "sum_list (map plan_fragments ps) \<le> length (rp_input_fragments st)"
    and "\<forall>k < length ps. int (length (plan_payload (ps ! k))) \<le> expected_payload_capacity (rp_limits st) n (i + int k)"
    and "n = i + int (length ps)"
  shows "draw_packets spare n i st =
    Some (Some (map (\<lambda>k. \<lparr>rtp_payload = plan_payload (ps ! k), rtp_marker = (k + 1 = length ps)\<rparr>) [0..<length ps]))"
  using assms
proof (induction ps arbitrary: st i)
  case Nil
  then show ?case by (subst draw_packets.simps) simp
next
  case (Cons p ps)
  let ?st = "st\<lparr>rp_packets := concat (map plan_units ps),
    rp_input_fragments := drop (plan_fragments p) (rp_input_fragments st),
    rp_num_packets_left := to_size_t (rp_num_packets_left st - 1)\<rparr>"
  have "int (length (plan_payload p)) \<le> expected_payload_capacity (rp_limits st) n i"
    using Cons.prems(4) by force
  then have nxt: "NextPacket (nat (expected_payload_capacity (rp_limits st) n i + int spare)) st =
      Some (Some \<lparr>rtp_payload = plan_payload p, rtp_marker = (concat (map plan_units ps) = [])\<rparr>, ?st)"
    using Cons.prems by (intro NextPacket_plan) auto
  have units: "plan_units q \<noteq> []" for q by (cases q) auto
  have "int (length (plan_payload (ps ! k))) \<le> expected_payload_capacity (rp_limits st) n (i + 1 + int k)"
    if "k < length ps" for k
    using Cons.prems(4) [rule_format, of "Suc k"] that by (simp add: algebra_simps)
  then have "draw_packets spare n (i + 1) ?st =
      Some (Some (map (\<lambda>k. \<lparr>rtp_payload = plan_payload (ps ! k), rtp_marker = (k + 1 = length ps)\<rparr>) [0..<length ps]))"
    using Cons.prems by (intro Cons.IH) auto
  then show ?case using nxt Cons.prems(5) units
    by (subst draw_packets.simps)
      (auto simp: upt_conv_Cons map_Suc_upt [symmetric] simp del: upt_Suc)
qed

section \<open>Planning\<close>

text \<open>The bytes a packet must leave free, by whether it begins and ends the frame.\<close>

definition reduction :: "PayloadSizeLimits \<Rightarrow> bool \<Rightarrow> bool \<Rightarrow> int" where
  "reduction limits begins ends =
     (if begins \<and> ends then single_packet_reduction_len limits
      else if begins then first_packet_reduction_len limits
      else if ends then last_packet_reduction_len limits
      else 0)"

text \<open>What \<open>SendVideo\<close> asserts of the limits, with room for a fragmentation header.\<close>

definition limits_fit :: "PayloadSizeLimits \<Rightarrow> bool" where
  "limits_fit limits \<longleftrightarrow> 2 < max_payload_len limits \<and> max_payload_len limits < 2 ^ 16 \<and>
     (\<forall>begins ends. 0 \<le> reduction limits begins ends \<and> reduction limits begins ends < max_payload_len limits)"

lemma limits_fit_reductions:
  assumes "limits_fit limits"
  shows "0 \<le> first_packet_reduction_len limits" "first_packet_reduction_len limits < max_payload_len limits"
    "0 \<le> last_packet_reduction_len limits" "last_packet_reduction_len limits < max_payload_len limits"
    "0 \<le> single_packet_reduction_len limits" "single_packet_reduction_len limits < max_payload_len limits"
  using assms unfolding limits_fit_def reduction_def by (metis (full_types))+

lemma to_size_t_id [simp]: "0 \<le> n \<Longrightarrow> n < 2 ^ 64 \<Longrightarrow> to_size_t n = n"
  by (simp add: to_size_t_def)

text \<open>The plans \<open>ps\<close> carry exactly the fragments \<open>frs\<close>, within the capacity of every packet.\<close>

definition carries :: "PayloadSizeLimits \<Rightarrow> bool \<Rightarrow> bool \<Rightarrow> plan list \<Rightarrow> bytes list \<Rightarrow> bool" where
  "carries limits begins ends ps frs \<longleftrightarrow>
     (ps = [] \<longleftrightarrow> frs = []) \<and> (\<forall>p \<in> set ps. plan_ok p \<and> set (plan_nals p) \<subseteq> set frs \<and> plan_header p \<in> hd ` set frs) \<and>
     concat (map plan_bytes ps) = annexb (map (Pair True) frs) \<and>
     sum_list (map plan_fragments ps) = length frs \<and>
     (\<forall>k < length ps. int (length (plan_payload (ps ! k))) +
        reduction limits (begins \<and> k = 0) (ends \<and> k + 1 = length ps) \<le> max_payload_len limits)"

lemma annexb_append [simp]: "annexb (xs @ ys) = annexb xs @ annexb ys"
  by (simp add: annexb_def)

lemma carries_Nil [simp]: "carries limits begins ends [] []"
  by (simp add: carries_def)

lemma carries_append:
  assumes "carries limits begins (frs = []) qs ns" "carries limits False True ps frs" "ns \<noteq> []"
  shows "carries limits begins True (qs @ ps) (ns @ frs)"
proof -
  have qs: "qs \<noteq> []" using assms by (auto simp: carries_def)
  have "int (length (plan_payload ((qs @ ps) ! k))) +
        reduction limits (begins \<and> k = 0) (True \<and> k + 1 = length (qs @ ps)) \<le> max_payload_len limits"
    if "k < length (qs @ ps)" for k
  proof (cases "k < length qs")
    case True
    then have "int (length (plan_payload (qs ! k))) +
        reduction limits (begins \<and> k = 0) (frs = [] \<and> k + 1 = length qs) \<le> max_payload_len limits"
      using assms(1) by (simp add: carries_def)
    moreover have "frs = [] \<longleftrightarrow> ps = []" using assms(2) by (auto simp: carries_def)
    then have "k + 1 = length (qs @ ps) \<longleftrightarrow> frs = [] \<and> k + 1 = length qs" using True by (cases ps) auto
    ultimately show ?thesis using True by (simp add: nth_append)
  next
    case False
    then have "int (length (plan_payload (ps ! (k - length qs)))) +
        reduction limits (False \<and> k - length qs = 0) (True \<and> k - length qs + 1 = length ps) \<le> max_payload_len limits"
      using that assms(2) unfolding carries_def by (metis add_diff_inverse_nat length_append nat_add_left_cancel_less)
    moreover have "k \<noteq> 0" using False qs by (cases qs) auto
    moreover have "k - length qs + 1 = length ps \<longleftrightarrow> k + 1 = length (qs @ ps)" using False by auto
    ultimately show ?thesis using False by (simp add: nth_append)
  qed
  then show ?thesis using assms by (auto simp: carries_def)
qed

text \<open>Aggregation.\<close>

definition raw_unit :: "bool \<Rightarrow> bytes \<Rightarrow> PacketUnit" where
  "raw_unit first n = \<lparr>source_fragment = n, first_fragment = first, last_fragment = False,
     aggregated = True, unit_header = hd n\<rparr>"

definition total_length :: "bytes list \<Rightarrow> int" where
  "total_length ns = int (length (concat ns))"

lemma total_length_simps [simp]:
  "total_length [] = 0" "total_length (n # ns) = int (length n) + total_length ns" "0 \<le> total_length ns"
  by (simp_all add: total_length_def)

lemma payload_size_needed_eq:
  assumes "limits_fit limits" "length n < 2 ^ 31" "0 \<le> hdr" "hdr < 2 ^ 31"
  shows "payload_size_needed limits begins ends (int (length n) + hdr) =
    int (length n) + hdr + reduction limits begins ends"
proof -
  have "0 \<le> reduction limits begins ends" "reduction limits begins ends < 2 ^ 16"
    using assms(1) by (auto simp: limits_fit_def) (meson order.strict_trans)
  moreover have "int (length n) < 2 ^ 31" using assms(2) by (metis of_nat_less_iff of_nat_numeral of_nat_power)
  ultimately show ?thesis using assms(3,4)
    by (simp add: payload_size_needed_def flip: reduction_def)
qed

lemma stap_loop_tail:
  assumes "limits_fit limits" "\<forall>n \<in> set frs. n \<noteq> [] \<and> length n < 2 ^ 31" "0 < agg"
    and "0 \<le> room" "room < 2 ^ 31" "0 \<le> hdr" "hdr < 2 ^ 31"
  shows "\<exists>k \<le> length frs. stap_loop limits begins room hdr agg frs = Some (map (raw_unit False) (take k frs)) \<and>
    (0 < k \<longrightarrow> total_length (take k frs) + hdr + 2 * (int k - 1) + reduction limits begins (k = length frs) \<le> room)"
  using assms
proof (induction frs arbitrary: agg room hdr)
  case (Cons n frs)
  have need: "payload_size_needed limits begins (frs = []) (int (length n) + hdr) =
      int (length n) + hdr + reduction limits begins (frs = [])"
    using Cons.prems by (intro payload_size_needed_eq) auto
  show ?case
  proof (cases "int (length n) + hdr + reduction limits begins (frs = []) \<le> room")
    case False
    then show ?thesis by (intro exI [of _ 0]) (simp add: need)
  next
    case True
    let ?left = "room - int (length n) - hdr"
    have nonneg: "0 \<le> reduction limits begins e" for e using Cons.prems(1) by (auto simp: limits_fit_def)
    have left: "0 \<le> ?left" "?left < 2 ^ 31" "to_size_t ?left = ?left"
      using True nonneg [of "frs = []"] Cons.prems by auto
    obtain k where k: "k \<le> length frs"
      "stap_loop limits begins ?left 2 (agg + 1) frs = Some (map (raw_unit False) (take k frs))"
      "0 < k \<longrightarrow> total_length (take k frs) + 2 + 2 * (int k - 1) + reduction limits begins (k = length frs) \<le> ?left"
      using Cons.IH [of "agg + 1" ?left 2] Cons.prems left by auto
    have "stap_loop limits begins room hdr agg (n # frs) = Some (map (raw_unit False) (take (Suc k) (n # frs)))"
      using True k(2) left(3) Cons.prems(2,3) by (simp add: need kLengthFieldSize_def raw_unit_def)
    moreover have "reduction limits begins (frs = []) = reduction limits begins (0 = length frs)" by auto
    ultimately show ?thesis using k(1,3) True
      by (intro exI [of _ "Suc k"]) (cases "k = 0", auto simp: algebra_simps)
  qed
qed simp

lemma close_units:
  "ns \<noteq> [] \<Longrightarrow> butlast (map (raw_unit False) ns) @ [(last (map (raw_unit False) ns))\<lparr>last_fragment := True\<rparr>] = stap_tail ns"
  by (induction ns) (auto simp: raw_unit_def)

lemma length_stap_entries: "int (length (concat (map stap_entry ns))) = total_length ns + 2 * int (length ns)"
  by (induction ns) auto

lemma plan_bytes_Stap: "plan_bytes (Stap ns) = annexb (map (Pair True) ns)"
  by (induction ns) auto

definition fragments_ok :: "bytes list \<Rightarrow> bool" where
  "fragments_ok frs \<longleftrightarrow> (\<forall>n \<in> set frs. n \<noteq> [] \<and> length n < 2 ^ 31)"

lemma position_reduction_eq:
  "i < n \<Longrightarrow> position_reduction limits n i = reduction limits (i = 0) (i + 1 = n)"
  by (auto simp: position_reduction_def reduction_def)

lemma stap_plan:
  assumes "limits_fit limits" "fragments_ok (n # rest)"
    and "int (length n) + reduction limits begins (rest = []) \<le> max_payload_len limits"
  shows "\<exists>k p. k \<le> length rest \<and>
    (\<exists>units. stap_loop limits begins (max_payload_len limits) 0 0 (n # rest) = Some units \<and> units \<noteq> [] \<and>
      length units = Suc k \<and> butlast units @ [(last units)\<lparr>last_fragment := True\<rparr>] = plan_units p) \<and>
    carries limits begins (k = length rest) [p] (n # take k rest)"
proof -
  let ?M = "max_payload_len limits"
  have n: "n \<noteq> []" "length n < 2 ^ 31" and rest: "\<forall>m \<in> set rest. m \<noteq> [] \<and> length m < 2 ^ 31"
    using assms(2) by (auto simp: fragments_ok_def)
  have nonneg: "0 \<le> reduction limits b e" for b e using assms(1) by (auto simp: limits_fit_def)
  have M: "?M < 2 ^ 31" using assms(1) by (simp add: limits_fit_def)
  have M': "int (length n) \<le> ?M" using assms(3) nonneg [of begins "rest = []"] by linarith
  have need: "payload_size_needed limits begins (rest = []) (int (length n) + 0) =
      int (length n) + 0 + reduction limits begins (rest = [])"
    using assms(1) n by (intro payload_size_needed_eq) auto
  have size_t: "to_size_t (?M - int (length n)) = ?M - int (length n)" using M M' by simp
  obtain k where k: "k \<le> length rest"
    "stap_loop limits begins (?M - int (length n)) 5 1 rest = Some (map (raw_unit False) (take k rest))"
    "0 < k \<longrightarrow> total_length (take k rest) + 5 + 2 * (int k - 1) + reduction limits begins (k = length rest) \<le> ?M - int (length n)"
    using stap_loop_tail [OF assms(1) rest, of 1 "?M - int (length n)" 5 begins] M M' by auto
  let ?units = "raw_unit True n # map (raw_unit False) (take k rest)"
  have loop: "stap_loop limits begins ?M 0 0 (n # rest) = Some ?units"
    using n(1) k(2) assms(3) need size_t by (simp add: h264_size_defs raw_unit_def)
  have length: "length ?units = Suc k" using k(1) by simp
  show ?thesis
  proof (cases "k = 0")
    case True
    have "carries limits begins (rest = []) [Whole True n] [n]"
      using assms(3) n by (simp add: carries_def add.commute)
    moreover have "butlast ?units @ [(last ?units)\<lparr>last_fragment := True\<rparr>] = plan_units (Whole True n)"
      using True by (simp add: raw_unit_def)
    ultimately show ?thesis using loop length True
      by (intro exI [of _ k] exI [of _ "Whole True n"]) (auto intro!: exI [of _ ?units])
  next
    case False
    let ?ns = "n # take k rest"
    have ne: "take k rest \<noteq> []" using False k(1) by auto
    have units: "butlast ?units @ [(last ?units)\<lparr>last_fragment := True\<rparr>] = plan_units (Stap ?ns)"
      using ne close_units [OF ne] by (simp add: raw_unit_def)
    have "int (length (plan_payload (Stap ?ns))) + reduction limits begins (k = length rest) \<le> ?M"
      using k False length_stap_entries [of ?ns] by simp
    moreover have "plan_ok (Stap ?ns)" using n rest ne by (auto dest: in_set_takeD simp: Suc_le_eq)
    ultimately have "carries limits begins (k = length rest) [Stap ?ns] ?ns"
      using plan_bytes_Stap [of ?ns] by (simp add: carries_def del: plan_bytes.simps plan_payload.simps)
    then show ?thesis using loop length units k(1)
      by (intro exI [of _ k] exI [of _ "Stap ?ns"]) (auto intro!: exI [of _ ?units])
  qed
qed

lemma PacketizeStapA_plans:
  assumes "limits_fit limits" "fragments_ok frs" "i < length frs" "rp_limits st = limits" "rp_input_fragments st = frs"
    and "int (length (frs ! i)) \<le> max_payload_len limits - position_reduction limits (length frs) i"
  shows "\<exists>j p. i < j \<and> j \<le> length frs \<and>
    PacketizeStapA i st = Some (j, st\<lparr>rp_packets := rp_packets st @ plan_units p,
      rp_num_packets_left := rp_num_packets_left st + 1\<rparr>) \<and>
    carries limits (i = 0) (j = length frs) [p] (take (j - i) (drop i frs))"
proof -
  define rest where "rest = drop (Suc i) frs"
  have drop: "drop i frs = frs ! i # rest" using assms(3) by (simp add: rest_def Cons_nth_drop_Suc)
  have last: "rest = [] \<longleftrightarrow> i + 1 = length frs" using assms(3) by (auto simp: rest_def)
  have ok: "fragments_ok (frs ! i # rest)"
    using assms(2) by (auto simp: fragments_ok_def drop [symmetric] dest: in_set_dropD)
  have fits: "int (length (frs ! i)) + reduction limits (i = 0) (rest = []) \<le> max_payload_len limits"
    using assms(3,6) last by (simp add: position_reduction_eq)
  obtain k p units where k: "k \<le> length rest"
    "stap_loop limits (i = 0) (max_payload_len limits) 0 0 (frs ! i # rest) = Some units" "units \<noteq> []"
    "length units = Suc k" "butlast units @ [(last units)\<lparr>last_fragment := True\<rparr>] = plan_units p"
    "carries limits (i = 0) (k = length rest) [p] (frs ! i # take k rest)"
    using stap_plan [OF assms(1) ok fits] by auto
  have "0 \<le> reduction limits (i = 0) (rest = [])" using assms(1) by (simp add: limits_fit_def)
  then have "int (length (frs ! i)) \<le> max_payload_len limits" using fits by linarith
  moreover have "to_size_t (max_payload_len limits) = max_payload_len limits"
    using assms(1) by (simp add: limits_fit_def)
  ultimately have "PacketizeStapA i st = Some (i + Suc k, st\<lparr>rp_packets := rp_packets st @ plan_units p,
      rp_num_packets_left := rp_num_packets_left st + 1\<rparr>)"
    using k(2-4) assms(4,5) by (simp add: PacketizeStapA_def Let_def drop flip: k(5))
  moreover have "k = length rest \<longleftrightarrow> i + Suc k = length frs" using assms(3) by (auto simp: rest_def)
  ultimately show ?thesis using k(1,6) assms(3)
    by (intro exI [of _ "i + Suc k"] exI [of _ p]) (auto simp: drop rest_def)
qed

text \<open>Fragmentation.\<close>

fun frag_plans :: "uint8_t \<Rightarrow> bool \<Rightarrow> bytes \<Rightarrow> int list \<Rightarrow> plan list" where
  "frag_plans h first body [] = []"
| "frag_plans h first body (s # sizes) =
     Frag h first (sizes = []) (take (nat s) body) # frag_plans h False (drop (nat s) body) sizes"

lemma fua_units_plans:
  "\<forall>s \<in> set sizes. 0 < s \<Longrightarrow> fua_units (h # body) (Suc offset) first sizes =
     Some (concat (map plan_units (frag_plans h first (drop offset body) sizes)))"
  by (induction sizes arbitrary: offset first) (auto simp: add.commute)

lemma frag_plans_simps [simp]:
  "length (frag_plans h first body sizes) = length sizes"
  "p \<in> set (frag_plans h first body sizes) \<Longrightarrow> plan_nals p = []"
  "p \<in> set (frag_plans h first body sizes) \<Longrightarrow> plan_header p = h"
  "sizes \<noteq> [] \<Longrightarrow> sum_list (map plan_fragments (frag_plans h first body sizes)) = 1"
  by (induction sizes arbitrary: first body) auto

lemma frag_plans_bytes:
  "\<forall>s \<in> set sizes. 0 < s \<Longrightarrow> sum_list sizes = int (length body) \<Longrightarrow>
   concat (map plan_bytes (frag_plans h first body sizes)) =
     (if first \<and> sizes \<noteq> [] then start_code True @ [h] else []) @ body"
proof (induction sizes arbitrary: first body)
  case (Cons s sizes)
  have "0 \<le> sum_list sizes" using Cons.prems(1) by (intro sum_list_nonneg) (auto simp: less_imp_le)
  then have "sum_list sizes = int (length (drop (nat s) body))" using Cons.prems by auto
  then show ?case using Cons.IH [of "drop (nat s) body" False] Cons.prems(1) by simp
qed simp

lemma frag_plans_nth:
  "\<forall>s \<in> set sizes. 0 < s \<Longrightarrow> sum_list sizes = int (length body) \<Longrightarrow> k < length sizes \<Longrightarrow>
   \<exists>c. frag_plans h first body sizes ! k = Frag h (first \<and> k = 0) (k + 1 = length sizes) c \<and> int (length c) = sizes ! k"
proof (induction sizes arbitrary: first body k)
  case (Cons s sizes)
  have "0 \<le> sum_list sizes" using Cons.prems(1) by (intro sum_list_nonneg) (auto simp: less_imp_le)
  then have "sum_list sizes = int (length (drop (nat s) body))" "s \<le> int (length body)" using Cons.prems by auto
  then show ?case using Cons.IH [of "drop (nat s) body" "k - 1" False] Cons.prems
    by (cases k) auto
qed simp

lemma fua_limits_simps [simp]:
  "max_payload_len (fua_limits limits n i) = max_payload_len limits - 2"
  "first_packet_reduction_len (fua_limits limits n i) = (if i = 0 then first_packet_reduction_len limits else 0)"
  "last_packet_reduction_len (fua_limits limits n i) = (if i = n - 1 then last_packet_reduction_len limits else 0)"
  by (simp_all add: fua_limits_def kFuAHeaderSize_def)

lemma fua_capacity:
  assumes "i < n" "2 \<le> m" "k < m"
  shows "split_capacity (fua_limits limits n i) m k + 2 + reduction limits (i = 0 \<and> k = 0) (i + 1 = n \<and> k + 1 = m) =
    max_payload_len limits"
  using assms by (cases "k = 0"; cases "k + 1 = m") (auto simp: split_capacity_def reduction_def)

lemma PacketizeFuA_plans:
  assumes "limits_fit limits" "fragments_ok frs" "i < length frs" "rp_limits st = limits" "rp_input_fragments st = frs"
    and "int (length (frs ! i)) > max_payload_len limits - position_reduction limits (length frs) i"
  shows "\<exists>ok st'. PacketizeFuA i st = Some (ok, st') \<and>
    (ok \<longrightarrow> (\<exists>ps. st' = st\<lparr>rp_packets := rp_packets st @ concat (map plan_units ps),
       rp_num_packets_left := rp_num_packets_left st + int (length ps)\<rparr> \<and>
       carries limits (i = 0) (i + 1 = length frs) ps [frs ! i]))"
proof -
  let ?M = "max_payload_len limits" and ?n = "length frs"
  let ?lim = "fua_limits limits ?n i"
  have red: "0 \<le> reduction limits b e" "reduction limits b e < ?M" for b e using assms(1) by (auto simp: limits_fit_def)
  have "2 \<le> length (frs ! i)"
    using assms(3,6) red [of "i = 0" "i + 1 = ?n"] by (simp add: position_reduction_eq)
  then obtain h body where fr: "frs ! i = h # body" "body \<noteq> []" by (cases "frs ! i"; cases "tl (frs ! i)") auto
  let ?p = "int (length body)"
  have single: "single_packet_reduction_len ?lim = reduction limits (i = 0) (i + 1 = ?n)"
    using assms(3) by (auto simp: fua_limits_def reduction_def)
  have ok: "limits_ok ?lim"
    using assms(1) limits_fit_reductions [OF assms(1)] red
    by (auto simp: limits_ok_def single limits_fit_def)
  have big: "max_payload_len ?lim < single_packet_reduction_len ?lim + ?p"
    using assms(3,6) fr by (simp add: single position_reduction_eq)
  have "0 < ?p" using fr(2) by simp
  then obtain sizes where sizes: "SplitAboutEqually ?p ?lim = Some sizes" "sizes = [] \<or> good_split ?lim ?p sizes"
    using split_total [OF ok, of ?p] big by auto
  show ?thesis
  proof (cases "sizes = []")
    case True
    then have "PacketizeFuA i st = Some (False, st)"
      using sizes(1) assms(4,5) fr by (simp add: PacketizeFuA_def Let_def kNalHeaderSize_def)
    then show ?thesis by blast
  next
    case False
    then have good: "good_split ?lim ?p sizes" using sizes(2) by simp
    then have s: "\<forall>s \<in> set sizes. 0 < s" "sum_list sizes = ?p" "2 \<le> length sizes"
      by (auto simp: good_split_def in_set_conv_nth)
    let ?ps = "frag_plans h True body sizes"
    have "PacketizeFuA i st = Some (True, st\<lparr>rp_packets := rp_packets st @ concat (map plan_units ?ps),
        rp_num_packets_left := rp_num_packets_left st + int (length ?ps)\<rparr>)"
      using sizes(1) False assms(4,5) fr s fua_units_plans [OF s(1), of h body 0 True]
      by (simp add: PacketizeFuA_def Let_def kNalHeaderSize_def)
    moreover have "carries limits (i = 0) (i + 1 = ?n) ?ps [frs ! i]"
    proof -
      have fits: "plan_ok (?ps ! k) \<and> int (length (plan_payload (?ps ! k))) +
          reduction limits (i = 0 \<and> k = 0) (i + 1 = ?n \<and> k + 1 = length sizes) \<le> ?M" if lt: "k < length sizes" for k
      proof -
        obtain c where c: "?ps ! k = Frag h (k = 0) (k + 1 = length sizes) c" "int (length c) = sizes ! k"
          using frag_plans_nth [OF s(1,2) lt, of h True] by auto
        have "0 < sizes ! k" "sizes ! k \<le> split_capacity ?lim (length sizes) k"
          using good lt by (auto simp: good_split_def)
        then show ?thesis using c s(3) lt fua_capacity [OF assms(3) s(3) lt, of limits] by auto
      qed
      then have "plan_ok p" if "p \<in> set ?ps" for p
        using that by (metis frag_plans_simps(1) in_set_conv_nth)
      then show ?thesis using fits False frag_plans_bytes [OF s(1,2), of h True]
        by (auto simp: carries_def fr)
    qed
    ultimately show ?thesis by blast
  qed
qed

text \<open>The whole frame.\<close>

lemma PacketizeSingleNalu_plans:
  assumes "limits_fit limits" "fragments_ok frs" "i < length frs" "rp_limits st = limits" "rp_input_fragments st = frs"
  shows "\<exists>ok st'. PacketizeSingleNalu i st = Some (ok, st') \<and>
    (ok \<longrightarrow> (\<exists>p. st' = st\<lparr>rp_packets := rp_packets st @ plan_units p,
       rp_num_packets_left := rp_num_packets_left st + 1\<rparr> \<and>
       carries limits (i = 0) (i + 1 = length frs) [p] [frs ! i]))"
proof -
  let ?red = "reduction limits (i = 0) (i + 1 = length frs)"
  have "0 \<le> ?red" "?red < max_payload_len limits" "max_payload_len limits < 2 ^ 16"
    using assms(1) by (auto simp: limits_fit_def)
  then have left: "to_size_t (max_payload_len limits - position_reduction limits (length frs) i) =
      max_payload_len limits - ?red"
    using assms(3) by (subst to_size_t_id) (auto simp: position_reduction_eq)
  have "frs ! i \<noteq> []" using assms(2,3) by (auto simp: fragments_ok_def)
  show ?thesis
  proof (cases "int (length (frs ! i)) \<le> max_payload_len limits - ?red")
    case True
    then have "carries limits (i = 0) (i + 1 = length frs) [Whole False (frs ! i)] [frs ! i]"
      using \<open>frs ! i \<noteq> []\<close> by (simp add: carries_def)
    moreover have "PacketizeSingleNalu i st = Some (True, st\<lparr>rp_packets := rp_packets st @ plan_units (Whole False (frs ! i)),
        rp_num_packets_left := rp_num_packets_left st + 1\<rparr>)"
      using True \<open>frs ! i \<noteq> []\<close> assms(4,5) by (simp add: PacketizeSingleNalu_def Let_def left)
    ultimately show ?thesis by blast
  next
    case False
    then have "PacketizeSingleNalu i st = Some (False, st)"
      using assms(4,5) by (simp add: PacketizeSingleNalu_def Let_def left)
    then show ?thesis by blast
  qed
qed

definition planned_frame ::
  "PayloadSizeLimits \<Rightarrow> nat \<Rightarrow> RtpPacketizerH264 \<Rightarrow> bytes list \<Rightarrow> bool \<Rightarrow> RtpPacketizerH264 \<Rightarrow> bool" where
  "planned_frame limits i st frs ok st' \<longleftrightarrow> rp_limits st' = limits \<and> rp_input_fragments st' = frs \<and>
     (ok \<longrightarrow> (\<exists>ps. rp_packets st' = rp_packets st @ concat (map plan_units ps) \<and>
        rp_num_packets_left st' = rp_num_packets_left st + int (length ps) \<and>
        carries limits (i = 0) True ps (drop i frs)))"

lemma planned_frame_step:
  assumes "planned_frame limits j (st\<lparr>rp_packets := rp_packets st @ concat (map plan_units qs),
      rp_num_packets_left := rp_num_packets_left st + int (length qs)\<rparr>) frs ok st'"
    and "carries limits (i = 0) (j = length frs) qs (take (j - i) (drop i frs))" "i < j" "j \<le> length frs"
  shows "planned_frame limits i st frs ok st'"
proof -
  have drop: "take (j - i) (drop i frs) @ drop j frs = drop i frs"
    using assms(3) by (metis add_diff_inverse_nat append_take_drop_id drop_drop le_add_diff_inverse2 less_imp_le_nat)
  have "carries limits (i = 0) True (qs @ ps) (drop i frs)" if "carries limits (j = 0) True ps (drop j frs)" for ps
    using carries_append [of limits "i = 0" "drop j frs" qs "take (j - i) (drop i frs)" ps] that assms(2-4)
    by (simp add: drop eq_commute [of "length frs" j])
  then have "\<exists>rs. rp_packets st' = rp_packets st @ concat (map plan_units rs) \<and>
      rp_num_packets_left st' = rp_num_packets_left st + int (length rs) \<and> carries limits (i = 0) True rs (drop i frs)"
    if "rp_packets st' = rp_packets st @ concat (map plan_units qs) @ concat (map plan_units ps)"
      "rp_num_packets_left st' = rp_num_packets_left st + int (length qs) + int (length ps)"
      "carries limits (j = 0) True ps (drop j frs)" for ps
    using that by (intro exI [of _ "qs @ ps"]) simp
  then show ?thesis using assms(1) unfolding planned_frame_def by auto
qed

lemma GeneratePackets_plans:
  assumes "limits_fit limits" "fragments_ok frs" "i \<le> length frs" "rp_limits st = limits" "rp_input_fragments st = frs"
  shows "\<exists>ok st'. GeneratePackets mode i st = Some (ok, st') \<and> planned_frame limits i st frs ok st'"
  using assms(3-5)
proof (induction "length frs - i" arbitrary: i st rule: less_induct)
  case less
  let ?upd = "\<lambda>qs. st\<lparr>rp_packets := rp_packets st @ concat (map plan_units qs),
      rp_num_packets_left := rp_num_packets_left st + int (length qs)\<rparr>"
  have st: "rp_limits st = limits" "rp_input_fragments st = frs" using less.prems by auto
  have IH: "\<exists>ok st'. GeneratePackets mode j (?upd qs) = Some (ok, st') \<and> planned_frame limits i st frs ok st'"
    if "carries limits (i = 0) (j = length frs) qs (take (j - i) (drop i frs))" "i < j" "j \<le> length frs" for j qs
    using less.hyps [of j "?upd qs"] planned_frame_step [OF _ that] that st by fastforce
  show ?case
  proof (cases "i < length frs")
    case False
    then have "planned_frame limits i st frs True st" using st by (auto simp: planned_frame_def intro!: exI [of _ "[]"])
    then show ?thesis using False st by (subst GeneratePackets.simps) auto
  next
    case True
    have fail: "planned_frame limits i st frs False st'" if "rp_limits st' = limits" "rp_input_fragments st' = frs" for st'
      using that by (simp add: planned_frame_def)
    have one: "take (i + 1 - i) (drop i frs) = [frs ! i]"
      using True by (simp add: Cons_nth_drop_Suc [symmetric])
    note gen = GeneratePackets.simps [of _ i st]
    show ?thesis
    proof (cases mode)
      case SingleNalUnit
      obtain ok st' where r: "PacketizeSingleNalu i st = Some (ok, st')"
        "ok \<longrightarrow> (\<exists>p. st' = st\<lparr>rp_packets := rp_packets st @ plan_units p,
           rp_num_packets_left := rp_num_packets_left st + 1\<rparr> \<and> carries limits (i = 0) (i + 1 = length frs) [p] [frs ! i])"
        using PacketizeSingleNalu_plans [OF assms(1,2) True st] by blast
      show ?thesis
      proof (cases ok)
        case False
        then have "st' = st" using r(1) by (auto simp: PacketizeSingleNalu_def Let_def split: if_splits)
        then have "GeneratePackets mode i st = Some (False, st)"
          using r(1) False True SingleNalUnit st by (simp add: gen)
        then show ?thesis using fail [of st] st by blast
      next
        case ok: True
        then obtain p where p: "st' = ?upd [p]" "carries limits (i = 0) (i + 1 = length frs) [p] [frs ! i]" using r(2) by auto
        then show ?thesis using r(1) ok True SingleNalUnit st IH [of "i + 1" "[p]"] one by (simp add: gen)
      qed
    next
      case NonInterleaved
      show ?thesis
      proof (cases "int (length (frs ! i)) > max_payload_len limits - position_reduction limits (length frs) i")
        case big: True
        obtain ok st' where r: "PacketizeFuA i st = Some (ok, st')"
          "ok \<longrightarrow> (\<exists>ps. st' = ?upd ps \<and> carries limits (i = 0) (i + 1 = length frs) ps [frs ! i])"
          using PacketizeFuA_plans [OF assms(1,2) True st big] by blast
        show ?thesis
        proof (cases ok)
          case False
          then have "st' = st" using r(1) by (auto simp: PacketizeFuA_def Let_def bind_eq_Some_conv split: if_splits)
          then have "GeneratePackets mode i st = Some (False, st)"
          using r(1) False True NonInterleaved big st by (simp add: gen)
        then show ?thesis using fail [of st] st by blast
        next
          case ok: True
          then obtain ps where ps: "st' = ?upd ps" "carries limits (i = 0) (i + 1 = length frs) ps [frs ! i]" using r(2) by auto
          then show ?thesis using r(1) ok True NonInterleaved big st IH [of "i + 1" ps] one by (simp add: gen)
        qed
      next
        case small: False
        then obtain j p where j: "i < j" "j \<le> length frs" "PacketizeStapA i st = Some (j, ?upd [p])"
          "carries limits (i = 0) (j = length frs) [p] (take (j - i) (drop i frs))"
          using PacketizeStapA_plans [OF assms(1,2) True st] by force
        then show ?thesis using True NonInterleaved small st IH [of j "[p]"] by (simp add: gen)
      qed
    qed
  qed
qed

section \<open>Packetising a frame\<close>

definition frame_nals :: "bytes \<Rightarrow> bytes list" where
  "frame_nals payload = map (nalu_payload payload) (FindNaluIndices payload)"

lemma fragments_ok_frame:
  "length payload < 2 ^ 31 \<Longrightarrow> [] \<notin> set (frame_nals payload) \<Longrightarrow> fragments_ok (frame_nals payload)"
  by (auto simp: fragments_ok_def frame_nals_def nalu_payload_def intro: le_less_trans [of _ "length payload"])

definition render_plans :: "plan list \<Rightarrow> RtpPacketToSend list" where
  "render_plans ps = map (\<lambda>k. \<lparr>rtp_payload = plan_payload (ps ! k), rtp_marker = (k + 1 = length ps)\<rparr>) [0..<length ps]"

lemma expected_payload_capacity_eq:
  "k < n \<Longrightarrow> expected_payload_capacity limits (int n) (int k) =
     max_payload_len limits - reduction limits (k = 0) (k + 1 = n)"
  by (auto simp: expected_payload_capacity_def reduction_def)

lemma packetize_frame_plans:
  assumes "limits_fit limits" "length payload < 2 ^ 31" "[] \<notin> set (frame_nals payload)"
  shows "\<exists>r. packetize_frame spare payload limits mode = Some r \<and>
    (\<forall>packets. r = Some packets \<longrightarrow> (\<exists>ps. ps \<noteq> [] \<and> packets = render_plans ps \<and>
       carries limits True True ps (frame_nals payload)))"
proof -
  let ?frs = "frame_nals payload"
  let ?st0 = "\<lparr>rp_limits = limits, rp_num_packets_left = 0, rp_input_fragments = ?frs, rp_packets = []\<rparr>"
  obtain ok st where gen: "GeneratePackets mode 0 ?st0 = Some (ok, st)" and st: "planned_frame limits 0 ?st0 ?frs ok st"
    using GeneratePackets_plans [OF assms(1) fragments_ok_frame [OF assms(2,3)], of 0 ?st0 mode] by auto
  have init: "RtpPacketizerH264_init payload limits mode =
      Some (if ok then st else st\<lparr>rp_num_packets_left := 0, rp_packets := []\<rparr>)"
    using gen by (simp add: RtpPacketizerH264_init_def frame_nals_def)
  show ?thesis
  proof (cases ok)
    case False
    then show ?thesis using init by (simp add: packetize_frame_def NumPackets_def)
  next
    case True
    then obtain ps where ps: "rp_packets st = concat (map plan_units ps)" "rp_num_packets_left st = int (length ps)"
      "carries limits True True ps ?frs" and fields: "rp_limits st = limits" "rp_input_fragments st = ?frs"
      using st by (auto simp: planned_frame_def)
    show ?thesis
    proof (cases "ps = []")
      case True
      then show ?thesis using init \<open>ok\<close> ps(2) by (simp add: packetize_frame_def NumPackets_def)
    next
      case False
      have "draw_packets spare (int (length ps)) 0 st = Some (Some (render_plans ps))"
        unfolding render_plans_def using ps fields
        by (intro draw_plans) (auto simp: carries_def expected_payload_capacity_eq)
      then have "packetize_frame spare payload limits mode = Some (Some (render_plans ps))"
        using init \<open>ok\<close> ps(2) False by (simp add: packetize_frame_def NumPackets_def)
      then show ?thesis using False ps(3) by blast
    qed
  qed
qed

definition packets_fit :: "PayloadSizeLimits \<Rightarrow> RtpPacketToSend list \<Rightarrow> bool" where
  "packets_fit limits packets \<longleftrightarrow> packets \<noteq> [] \<and> (\<forall>k < length packets.
     int (length (rtp_payload (packets ! k))) \<le> expected_payload_capacity limits (int (length packets)) (int k) \<and>
     rtp_marker (packets ! k) = (k + 1 = length packets))"

lemma render_plans_fit:
  "ps \<noteq> [] \<Longrightarrow> carries limits True True ps frs \<Longrightarrow> packets_fit limits (render_plans ps)"
  by (auto simp: packets_fit_def render_plans_def carries_def expected_payload_capacity_eq)

text \<open>
  C14. Packetisation is safe and respects the size limits: for limits as \<open>SendVideo\<close> computes them
  and a frame without empty NAL units, no \<open>RTC_CHECK\<close> of the packetiser fails and no queue is read
  beyond its end, in both packetisation modes. If packets are produced, each payload fits the
  capacity of its place (single, first, middle or last), and exactly the last packet carries the
  marker bit.
\<close>

theorem packetize_frame_safe:
  assumes "limits_fit limits" "length payload < 2 ^ 31" "[] \<notin> set (frame_nals payload)"
  shows "\<exists>r. packetize_frame spare payload limits mode = Some r \<and>
    (\<forall>packets. r = Some packets \<longrightarrow> packets_fit limits packets)"
  using packetize_frame_plans [OF assms, of spare mode] render_plans_fit by blast

definition sample_frame_limits :: PayloadSizeLimits where
  "sample_frame_limits = \<lparr>max_payload_len = 10, first_packet_reduction_len = 1,
     last_packet_reduction_len = 2, single_packet_reduction_len = 3\<rparr>"

definition sample_nals :: "(bool \<times> bytes) list" where
  "sample_nals = [(True, [0x67, 1]), (True, [0x68, 2]), (False, [0x65, 1, 2, 3, 4, 5, 6, 7, 8, 9, 10, 11])]"

lemma sample_limits_fit: "limits_fit sample_frame_limits"
  by (simp add: limits_fit_def sample_frame_limits_def reduction_def)

definition sample_packets :: "RtpPacketToSend list" where
  "sample_packets =
     [\<lparr>rtp_payload = [0x78, 0, 2, 0x67, 1, 0, 2, 0x68, 2], rtp_marker = False\<rparr>,
      \<lparr>rtp_payload = [0x7C, 0x85, 1, 2, 3, 4, 5, 6], rtp_marker = False\<rparr>,
      \<lparr>rtp_payload = [0x7C, 0x45, 7, 8, 9, 10, 11], rtp_marker = True\<rparr>]"

lemma sample_frame_facts:
  "packetize_frame 0 (annexb sample_nals) sample_frame_limits NonInterleaved = Some (Some sample_packets)"
  "[] \<notin> set (frame_nals (annexb sample_nals))" "length (annexb sample_nals) < 2 ^ 31"
  by (code_simp, code_simp, simp add: sample_nals_def start_code_def)

theorem packetize_frame_safe_witness:
  "packetize_frame 0 (annexb sample_nals) sample_frame_limits NonInterleaved = Some (Some sample_packets) \<and>
   packets_fit sample_frame_limits sample_packets"
  using packetize_frame_safe [OF sample_limits_fit sample_frame_facts(3,2), of 0 NonInterleaved]
  by (simp add: sample_frame_facts(1))

end
