(* ===== verification/RtpDepacketizerH264.thy ===== *)
theory RtpDepacketizerH264
  imports RtpFormatH264
begin

text \<open>
  The receiving end of H.264 over RTP: \<open>modules/rtp_rtcp/source/video_rtp_depacketizer_h264.cc\<close> parses a
  payload, \<open>modules/video_coding/h264_sps_pps_tracker.cc\<close> turns it back into an Annex B byte stream.
  The parsers of parameter set and slice headers are arguments. The theorems show that what the
  packetiser sends is restored.
\<close>

section \<open>Depacketiser\<close>

datatype H264PacketizationTypes = kH264SingleNalu | kH264StapA | kH264FuA

record NaluInfo =
  ni_type :: uint8_t
  ni_sps_id :: int
  ni_pps_id :: int

definition kMaxNalusPerPacket :: nat where "kMaxNalusPerPacket = 10"

record RTPVideoHeaderH264 =
  nalu_type :: uint8_t
  packetization_type :: H264PacketizationTypes
  nalus :: "NaluInfo list"

record RTPVideoHeader =
  vh_frame_type :: VideoFrameType
  vh_width :: uint16_t
  vh_height :: uint16_t
  vh_codec :: VideoCodecType
  vh_simulcastIdx :: uint8_t
  vh_is_first_packet_in_frame :: bool
  vh_h264 :: RTPVideoHeaderH264

record ParsedRtpPayload =
  video_header :: RTPVideoHeader
  video_payload :: bytes

text \<open>The parsers of SPS, PPS and slice headers, and the rewriter of the SPS (with the bytes it appends).\<close>

datatype SpsVuiRewriter_ParseResult = kFailure | kVuiOk | kVuiRewritten

record SpsState =
  sps_width :: uint32_t
  sps_height :: uint32_t
  sps_id :: uint32_t

record h264_parsers =
  ParseAndRewriteSps :: "bytes \<Rightarrow> SpsVuiRewriter_ParseResult \<times> SpsState option \<times> bytes"
  ParsePpsIds :: "bytes \<Rightarrow> (uint32_t \<times> uint32_t) option"
  ParsePpsIdFromSlice :: "bytes \<Rightarrow> uint32_t option"
  ParseSps :: "bytes \<Rightarrow> SpsState option"
  ParsePps :: "bytes \<Rightarrow> (uint32_t \<times> uint32_t) option"

definition kStapAHeaderSize :: nat where
  "kStapAHeaderSize = kNalHeaderSize + kLengthFieldSize"

text \<open>The offsets of the aggregated NAL units in the payload, from the bytes behind the first header.\<close>

function ParseStapAStartOffsets :: "nat \<Rightarrow> bytes \<Rightarrow> nat list option" where
  "ParseStapAStartOffsets offset data =
     (if data = [] then Some []
      else if length data < 2 then None
      else let nalu_size = unat (ReadBigEndian2 data :: uint16_t); rest = drop 2 data
           in if nalu_size > length rest then None
              else map_option ((#) (offset + kStapAHeaderSize))
                (ParseStapAStartOffsets (offset + kLengthFieldSize + nalu_size) (drop nalu_size rest)))"
  by pat_completeness auto
termination by (relation "measure (\<lambda>(_, data). length data)") auto

declare ParseStapAStartOffsets.simps [simp del]

text \<open>The NAL unit between two offsets: what is noted about it and what becomes of the payload.\<close>

definition rewrite_sps :: "bool \<Rightarrow> bytes \<Rightarrow> nat \<Rightarrow> nat \<Rightarrow> bytes \<Rightarrow> bytes" where
  "rewrite_sps stap_a payload_data body_offset end_offset rewritten =
     (let output_buffer = take body_offset payload_data @ rewritten;
          length_field_offset = body_offset - (kNaluTypeSize + kLengthFieldSize);
          rewritten_size = length output_buffer - body_offset + kNaluTypeSize;
          field = WriteBigEndian2 (of_nat rewritten_size :: uint16_t);
          fixed = (if stap_a then take length_field_offset output_buffer @ field @
                                  drop (length_field_offset + 2) output_buffer
                   else output_buffer)
      in fixed @ drop end_offset payload_data)"

definition note_nalu :: "NaluInfo \<Rightarrow> ParsedRtpPayload \<Rightarrow> ParsedRtpPayload" where
  "note_nalu nalu p =
     (let h = vh_h264 (video_header p)
      in if length (nalus h) = kMaxNalusPerPacket then p
         else p\<lparr>video_header := (video_header p)\<lparr>vh_h264 := h\<lparr>nalus := nalus h @ [nalu]\<rparr>\<rparr>\<rparr>)"

definition process_nalu ::
  "h264_parsers \<Rightarrow> bytes \<Rightarrow> nat \<Rightarrow> nat \<Rightarrow> ParsedRtpPayload \<Rightarrow> ParsedRtpPayload option" where
  "process_nalu parsers payload_data start end_offset parsed_payload =
     (let t = payload_data ! start AND kH264TypeMask;
          body_offset = start + kNaluTypeSize;
          body = drop body_offset (take end_offset payload_data);
          hdr = video_header parsed_payload;
          key = (\<lambda>h. h\<lparr>vh_frame_type := kVideoFrameKey\<rparr>)
      in if t = kSps then
           let (result, sps, rewritten) = ParseAndRewriteSps parsers body;
               payload = (if result = kVuiRewritten
                          then rewrite_sps (packetization_type (vh_h264 hdr) = kH264StapA)
                                 payload_data body_offset end_offset rewritten
                          else video_payload parsed_payload);
               hdr' = (case sps of None \<Rightarrow> hdr
                       | Some s \<Rightarrow> hdr\<lparr>vh_width := ucast (sps_width s), vh_height := ucast (sps_height s)\<rparr>);
               nalu = \<lparr>ni_type = t, ni_sps_id = (case sps of None \<Rightarrow> - 1 | Some s \<Rightarrow> sint (sps_id s)),
                       ni_pps_id = - 1\<rparr>
           in Some (note_nalu nalu \<lparr>video_header = key hdr', video_payload = payload\<rparr>)
         else if t = kPps then
           let (pps, sps) = (case ParsePpsIds parsers body of None \<Rightarrow> (- 1, - 1) | Some (p, s) \<Rightarrow> (sint p, sint s))
           in Some (note_nalu \<lparr>ni_type = t, ni_sps_id = sps, ni_pps_id = pps\<rparr> parsed_payload)
         else if t = kIdr \<or> t = kSlice then
           let pps = (case ParsePpsIdFromSlice parsers body of None \<Rightarrow> - 1 | Some p \<Rightarrow> sint p)
           in Some (note_nalu \<lparr>ni_type = t, ni_sps_id = - 1, ni_pps_id = pps\<rparr>
                (if t = kIdr then parsed_payload\<lparr>video_header := key hdr\<rparr> else parsed_payload))
         else if t = kStapA \<or> t = kFuA then None
         else Some (note_nalu \<lparr>ni_type = t, ni_sps_id = - 1, ni_pps_id = - 1\<rparr> parsed_payload))"

fun process_nalus ::
  "h264_parsers \<Rightarrow> bytes \<Rightarrow> nat list \<Rightarrow> ParsedRtpPayload \<Rightarrow> ParsedRtpPayload option" where
  "process_nalus parsers payload_data (start # following # offsets) parsed_payload =
     (let end_offset = following - kLengthFieldSize
      in if end_offset - start < kNaluTypeSize then None
         else do {
           parsed_payload' \<leftarrow> process_nalu parsers payload_data start end_offset parsed_payload;
           process_nalus parsers payload_data (following # offsets) parsed_payload' })"
| "process_nalus parsers payload_data _ parsed_payload = Some parsed_payload"

definition ProcessStapAOrSingleNalu :: "h264_parsers \<Rightarrow> bytes \<Rightarrow> ParsedRtpPayload option" where
  "ProcessStapAOrSingleNalu parsers payload_data =
     (let nal_type = hd payload_data AND kH264TypeMask;
          parsed_payload = (\<lambda>ptype ntype. \<lparr>video_header =
             \<lparr>vh_frame_type = kVideoFrameDelta, vh_width = 0, vh_height = 0, vh_codec = kVideoCodecH264,
              vh_simulcastIdx = 0, vh_is_first_packet_in_frame = True,
              vh_h264 = \<lparr>nalu_type = ntype, packetization_type = ptype, nalus = []\<rparr>\<rparr>,
             video_payload = payload_data\<rparr>);
          end_mark = length payload_data + kLengthFieldSize
      in if nal_type = kStapA then
           if length payload_data \<le> kStapAHeaderSize then None
           else do {
             offsets \<leftarrow> ParseStapAStartOffsets 0 (drop kNalHeaderSize payload_data);
             process_nalus parsers payload_data (offsets @ [end_mark])
               (parsed_payload kH264StapA (payload_data ! kStapAHeaderSize AND kH264TypeMask)) }
         else process_nalus parsers payload_data [0, end_mark] (parsed_payload kH264SingleNalu nal_type))"

definition ParseFuaNalu :: "h264_parsers \<Rightarrow> bytes \<Rightarrow> ParsedRtpPayload option" where
  "ParseFuaNalu parsers payload =
     (if length payload < kFuAHeaderSize then None
      else let fnri = payload ! 0 AND (kH264FBit OR kH264NriMask);
               original_nal_type = payload ! 1 AND kH264TypeMask;
               is_first = payload ! 1 AND kH264SBit > 0;
               pps = (case ParsePpsIdFromSlice parsers (drop (2 * kNalHeaderSize) payload) of
                        None \<Rightarrow> - 1 | Some p \<Rightarrow> sint p);
               nalu = \<lparr>ni_type = original_nal_type, ni_sps_id = - 1, ni_pps_id = pps\<rparr>
           in Some \<lparr>video_header =
                \<lparr>vh_frame_type = (if original_nal_type = kIdr then kVideoFrameKey else kVideoFrameDelta),
                 vh_width = 0, vh_height = 0, vh_codec = kVideoCodecH264, vh_simulcastIdx = 0,
                 vh_is_first_packet_in_frame = is_first,
                 vh_h264 = \<lparr>nalu_type = original_nal_type, packetization_type = kH264FuA,
                            nalus = (if is_first then [nalu] else [])\<rparr>\<rparr>,
                video_payload = (if is_first
                  then (fnri OR original_nal_type) # drop kFuAHeaderSize payload
                  else drop kFuAHeaderSize payload)\<rparr>)"

definition Parse :: "h264_parsers \<Rightarrow> bytes \<Rightarrow> ParsedRtpPayload option" where
  "Parse parsers payload =
     (if payload = [] then None
      else if hd payload AND kH264TypeMask = kFuA then ParseFuaNalu parsers payload
      else ProcessStapAOrSingleNalu parsers payload)"

section \<open>Parameter set tracker\<close>

datatype PacketAction = kInsert | kDrop | kRequestKeyframe

record PpsInfo =
  pi_sps_id :: int
  pi_data :: "bytes option"

record SpsInfo =
  si_width :: int
  si_height :: int
  si_data :: "bytes option"

definition PpsInfo_init :: PpsInfo where "PpsInfo_init = \<lparr>pi_sps_id = - 1, pi_data = None\<rparr>"
definition SpsInfo_init :: SpsInfo where "SpsInfo_init = \<lparr>si_width = - 1, si_height = - 1, si_data = None\<rparr>"

record H264SpsPpsTracker =
  pps_data :: "uint32_t \<Rightarrow> PpsInfo option"
  sps_data :: "uint32_t \<Rightarrow> SpsInfo option"

definition H264SpsPpsTracker_init :: H264SpsPpsTracker where
  "H264SpsPpsTracker_init = \<lparr>pps_data = (\<lambda>_. None), sps_data = (\<lambda>_. None)\<rparr>"

definition start_code_h264 :: bytes where "start_code_h264 = [0, 0, 0, 1]"

text \<open>
  The pass over the NAL units of a packet. \<open>found\<close> holds the keys of the parameter sets an IDR slice
  refers to, \<open>append_sps_pps\<close> whether they are to be prepended; \<^term>\<open>None\<close> requests a key frame.
\<close>

record fix_state =
  fs_tracker :: H264SpsPpsTracker
  fs_header :: RTPVideoHeader
  fs_append_sps_pps :: bool
  fs_found :: "(uint32_t \<times> uint32_t) option"

definition track_idr :: "NaluInfo \<Rightarrow> fix_state \<Rightarrow> bool \<times> fix_state" where
  "track_idr nalu s =
     (let t = fs_tracker s; pps_key = (word_of_int (ni_pps_id nalu) :: uint32_t)
      in if \<not> vh_is_first_packet_in_frame (fs_header s) then (True, s)
         else if ni_pps_id nalu = - 1 then (False, s)
         else case pps_data t pps_key of
           None \<Rightarrow> (False, s)
         | Some pps \<Rightarrow>
             let sps_key = (word_of_int (pi_sps_id pps) :: uint32_t)
             in case sps_data t sps_key of
                  None \<Rightarrow> (False, s)
                | Some sps \<Rightarrow>
                    (True, s\<lparr>fs_header := (fs_header s)\<lparr>vh_width := word_of_int (si_width sps),
                               vh_height := word_of_int (si_height sps)\<rparr>,
                             fs_append_sps_pps := fs_append_sps_pps s \<or> (si_data sps \<noteq> None \<and> pi_data pps \<noteq> None),
                             fs_found := Some (sps_key, pps_key)\<rparr>))"

definition track_nalu :: "NaluInfo \<Rightarrow> fix_state \<Rightarrow> bool \<times> fix_state" where
  "track_nalu nalu s =
     (let t = fs_tracker s; h = fs_header s
      in if ni_type nalu = kSps then
           let key = word_of_int (ni_sps_id nalu);
               sps_info = (case sps_data t key of None \<Rightarrow> SpsInfo_init | Some i \<Rightarrow> i)
           in (True, s\<lparr>fs_tracker := t\<lparr>sps_data := (sps_data t)(key \<mapsto>
                sps_info\<lparr>si_width := uint (vh_width h), si_height := uint (vh_height h)\<rparr>)\<rparr>\<rparr>)
         else if ni_type nalu = kPps then
           let key = word_of_int (ni_pps_id nalu);
               pps_info = (case pps_data t key of None \<Rightarrow> PpsInfo_init | Some i \<Rightarrow> i)
           in (True, s\<lparr>fs_tracker := t\<lparr>pps_data := (pps_data t)(key \<mapsto> pps_info\<lparr>pi_sps_id := ni_sps_id nalu\<rparr>)\<rparr>\<rparr>)
         else if ni_type nalu = kIdr then track_idr nalu s
         else (True, s))"

fun track_nalus :: "NaluInfo list \<Rightarrow> fix_state \<Rightarrow> bool \<times> fix_state" where
  "track_nalus [] s = (True, s)"
| "track_nalus (nalu # rest) s =
     (case track_nalu nalu s of (ok, s') \<Rightarrow> if ok then track_nalus rest s' else (False, s'))"

text \<open>The copy of an aggregation packet, from the first length field on; \<^term>\<open>None\<close> is a length too large.\<close>

function copy_stap :: "bytes \<Rightarrow> bytes option" where
  "copy_stap data =
     (if length data < 2 then Some []
      else let segment_length = unat (push_bit 8 (ucast (data ! 0)) OR ucast (data ! 1) :: uint16_t);
               rest = drop 2 data
           in if segment_length > length rest then None
              else map_option (\<lambda>out. start_code_h264 @ take segment_length rest @ out)
                (copy_stap (drop segment_length rest)))"
  by pat_completeness auto
termination by (relation "measure length") auto

declare copy_stap.simps [simp del]

text \<open>
  The bytes of the parameter sets to prepend; a stored set without data has size zero.
\<close>

definition parameter_sets :: "H264SpsPpsTracker \<Rightarrow> uint32_t \<Rightarrow> uint32_t \<Rightarrow> bytes" where
  "parameter_sets t sps_key pps_key =
     start_code_h264 @ (case sps_data t sps_key \<bind> si_data of Some d \<Rightarrow> d | None \<Rightarrow> []) @
     start_code_h264 @ (case pps_data t pps_key \<bind> pi_data of Some d \<Rightarrow> d | None \<Rightarrow> [])"

definition insert_nalus :: "uint32_t \<Rightarrow> uint32_t \<Rightarrow> RTPVideoHeader \<Rightarrow> RTPVideoHeader" where
  "insert_nalus sps_key pps_key h =
     (let ns = nalus (vh_h264 h);
          sps_info = \<lparr>ni_type = kSps, ni_sps_id = sint sps_key, ni_pps_id = - 1\<rparr>;
          pps_info = \<lparr>ni_type = kPps, ni_sps_id = sint sps_key, ni_pps_id = sint pps_key\<rparr>
      in if length ns + 2 \<le> kMaxNalusPerPacket
         then h\<lparr>vh_h264 := (vh_h264 h)\<lparr>nalus := ns @ [sps_info, pps_info]\<rparr>\<rparr>
         else h)"

definition CopyAndFixBitstream ::
  "bytes \<Rightarrow> RTPVideoHeader \<Rightarrow> H264SpsPpsTracker \<Rightarrow>
   ((PacketAction \<times> bytes) \<times> RTPVideoHeader \<times> H264SpsPpsTracker) option" where
  "CopyAndFixBitstream bitstream hdr tracker =
     (let (ok, s) = track_nalus (nalus (vh_h264 hdr))
            \<lparr>fs_tracker = tracker, fs_header = hdr, fs_append_sps_pps = False, fs_found = None\<rparr>
      in if \<not> ok then Some ((kRequestKeyframe, []), fs_header s, fs_tracker s)
         else do {
           (prefix, hdr') \<leftarrow>
             (if fs_append_sps_pps s
              then map_option (\<lambda>(sps_key, pps_key). (parameter_sets (fs_tracker s) sps_key pps_key,
                      insert_nalus sps_key pps_key (fs_header s))) (fs_found s)
              else Some ([], fs_header s));
           (case (if packetization_type (vh_h264 hdr') = kH264StapA then copy_stap (drop 1 bitstream)
                  else Some ((if nalus (vh_h264 hdr') \<noteq> [] then start_code_h264 else []) @ bitstream)) of
              None \<Rightarrow> Some ((kDrop, []), hdr', fs_tracker s)
            | Some rest \<Rightarrow> Some ((kInsert, prefix @ rest), hdr', fs_tracker s)) })"

definition InsertSpsPpsNalus ::
  "h264_parsers \<Rightarrow> bytes \<Rightarrow> bytes \<Rightarrow> H264SpsPpsTracker \<Rightarrow> H264SpsPpsTracker" where
  "InsertSpsPpsNalus parsers sps pps t =
     (if length sps < 1 \<or> hd sps AND 0x1F \<noteq> kSps \<or> length pps < 1 \<or> hd pps AND 0x1F \<noteq> kPps then t
      else case (ParseSps parsers (drop 1 sps), ParsePps parsers (drop 1 pps)) of
        (Some parsed_sps, Some (pps_id, pps_sps_id)) \<Rightarrow>
          t\<lparr>sps_data := (sps_data t)(sps_id parsed_sps \<mapsto>
               \<lparr>si_width = sint (sps_width parsed_sps), si_height = sint (sps_height parsed_sps), si_data = Some sps\<rparr>),
            pps_data := (pps_data t)(pps_id \<mapsto> \<lparr>pi_sps_id = sint pps_sps_id, pi_data = Some pps\<rparr>)\<rparr>
      | _ \<Rightarrow> t)"

section \<open>Receiving a frame\<close>

text \<open>
  The path of one payload through \<open>RtpVideoStreamReceiver2::OnReceivedPayloadData\<close> up to the packet
  buffer: the byte stream to insert, or \<^term>\<open>None\<close> when the packet is dropped or a key frame is requested.
\<close>

definition receive_payload ::
  "h264_parsers \<Rightarrow> bytes \<Rightarrow> H264SpsPpsTracker \<Rightarrow> (bytes option \<times> H264SpsPpsTracker) option" where
  "receive_payload parsers payload t =
     (case Parse parsers payload of
        None \<Rightarrow> Some (None, t)
      | Some parsed_payload \<Rightarrow>
          if video_payload parsed_payload = [] then Some (None, t)
          else do {
            ((action, bitstream), hdr, t') \<leftarrow> CopyAndFixBitstream (video_payload parsed_payload) (video_header parsed_payload) t;
            Some (if action = kInsert then Some bitstream else None, t') })"

fun receive_all ::
  "h264_parsers \<Rightarrow> bytes list \<Rightarrow> H264SpsPpsTracker \<Rightarrow> (bytes option list \<times> H264SpsPpsTracker) option" where
  "receive_all parsers [] t = Some ([], t)"
| "receive_all parsers (payload # payloads) t = do {
     (r, t') \<leftarrow> receive_payload parsers payload t;
     (rs, t'') \<leftarrow> receive_all parsers payloads t';
     Some (r # rs, t'') }"

section \<open>Restoring what was sent\<close>

text \<open>No parameter set was supplied out of band.\<close>

definition in_band :: "H264SpsPpsTracker \<Rightarrow> bool" where
  "in_band t \<longleftrightarrow> (\<forall>key info. sps_data t key = Some info \<longrightarrow> si_data info = None)"

definition nal_type :: "bytes \<Rightarrow> uint8_t" where
  "nal_type n = hd n AND kH264TypeMask"

text \<open>A NAL unit that is not itself an aggregation or fragmentation unit.\<close>

definition nal_plain :: "bytes \<Rightarrow> bool" where
  "nal_plain n \<longleftrightarrow> nal_type n \<noteq> kStapA \<and> nal_type n \<noteq> kFuA"

text \<open>
  A plain NAL unit that the depacketiser leaves as it is: if it is a sequence parameter set, the
  rewriter of its video usability information does not ask for a change.
\<close>

definition nal_kept :: "h264_parsers \<Rightarrow> bytes \<Rightarrow> bool" where
  "nal_kept parsers n \<longleftrightarrow> nal_plain n \<and>
     (nal_type n = kSps \<longrightarrow> fst (ParseAndRewriteSps parsers (drop 1 n)) \<noteq> kVuiRewritten)"

lemma and_255: "h AND 255 = h" for h :: uint8_t
proof -
  have "(255 :: uint8_t) = - 1" by simp
  then show ?thesis by (simp only: and.right_neutral)
qed

lemma mask_headers:
  fixes h :: uint8_t
  shows "((h AND (kH264FBit OR kH264NriMask)) OR kStapA) AND kH264TypeMask = kStapA"
    "((h AND (kH264FBit OR kH264NriMask)) OR kFuA) AND kH264TypeMask = kFuA"
    "((h AND (kH264FBit OR kH264NriMask)) OR kFuA) AND (kH264FBit OR kH264NriMask) = h AND (kH264FBit OR kH264NriMask)"
    "(h AND (kH264FBit OR kH264NriMask)) OR (h AND kH264TypeMask) = h"
  by (simp_all add: h264_mask_defs kStapA_def kFuA_def bit.conj_disj_distrib2 and.assoc and_255
    flip: bit.conj_disj_distrib)

lemma mask_fu_header:
  fixes h :: uint8_t
  shows "((if f then kH264SBit else 0) OR (if l then kH264EBit else 0) OR (h AND kH264TypeMask)) AND kH264TypeMask =
      h AND kH264TypeMask"
    "((if f then kH264SBit else 0) OR (if l then kH264EBit else 0) OR (h AND kH264TypeMask)) AND kH264SBit > 0 \<longleftrightarrow> f"
  by (auto simp: h264_mask_defs bit.conj_disj_distrib2 and.assoc)

lemma read_length [simp]: "ReadBigEndian2 (WriteBigEndian2 v @ xs) = v" for v :: uint16_t
proof -
  have "ReadBigEndian2 (WriteBigEndian2 v @ xs) = (ReadBigEndian2 (WriteBigEndian2 v) :: uint16_t)"
    by (simp add: ReadBigEndian2_def WriteBigEndian2_def)
  also have "\<dots> = ReadBigEndian 2 (WriteBigEndian 2 v)"
    using byte_io_specialisations [of "WriteBigEndian2 v" v] by metis
  also have "\<dots> = v" using uint_lt_exp [of v] by (intro Read_Write_unsigned) simp
  finally show ?thesis .
qed

text \<open>The payload is kept, and what is noted about it is of the given type.\<close>

definition noted :: "uint8_t \<Rightarrow> ParsedRtpPayload \<Rightarrow> ParsedRtpPayload \<Rightarrow> bool" where
  "noted t p p' \<longleftrightarrow> video_payload p' = video_payload p \<and>
     packetization_type (vh_h264 (video_header p')) = packetization_type (vh_h264 (video_header p)) \<and>
     nalus (vh_h264 (video_header p')) \<noteq> [] \<and>
     (\<exists>ns. nalus (vh_h264 (video_header p')) = nalus (vh_h264 (video_header p)) @ ns \<and> (\<forall>i \<in> set ns. ni_type i = t))"

lemma note_nalu_noted:
  assumes "ni_type n = t" "video_payload q = video_payload p" "vh_h264 (video_header q) = vh_h264 (video_header p)"
  shows "noted t p (note_nalu n q)"
  using assms by (auto simp: noted_def note_nalu_def Let_def kMaxNalusPerPacket_def)

lemma process_nalu_plain:
  assumes "nal_kept parsers n" "payload ! start AND kH264TypeMask = nal_type n"
    and "drop (start + kNaluTypeSize) (take stop payload) = drop 1 n"
  shows "\<exists>p'. process_nalu parsers payload start stop p = Some p' \<and> noted (nal_type n) p p'"
proof -
  obtain result sps rewritten where r: "ParseAndRewriteSps parsers (drop 1 n) = (result, sps, rewritten)"
    by (metis prod_cases3)
  then have "nal_type n = kSps \<longrightarrow> result \<noteq> kVuiRewritten" "nal_type n \<noteq> kStapA" "nal_type n \<noteq> kFuA"
    using assms(1) by (auto simp: nal_kept_def nal_plain_def)
  then show ?thesis
    using r unfolding process_nalu_def Let_def assms(2,3)
    by (auto intro!: note_nalu_noted split: option.splits prod.splits)
qed

lemma process_single:
  assumes "n \<noteq> []" "nal_kept parsers n"
  shows "\<exists>p'. process_nalus parsers n [0, length n + kLengthFieldSize] p = Some p' \<and> noted (nal_type n) p p'"
proof -
  have hd: "n ! 0 AND kH264TypeMask = nal_type n" using assms(1) by (simp add: nal_type_def hd_conv_nth)
  show ?thesis using process_nalu_plain [OF assms(2) hd, of "length n" p] assms(1)
    by (auto simp: Let_def kNaluTypeSize_def Suc_le_eq)
qed

fun stap_offsets :: "nat \<Rightarrow> bytes list \<Rightarrow> nat list" where
  "stap_offsets offset [] = []"
| "stap_offsets offset (n # ns) = (offset + kStapAHeaderSize) # stap_offsets (offset + kLengthFieldSize + length n) ns"

lemma entry_length:
  assumes "length n < 2 ^ 16"
  shows "unat (ReadBigEndian2 (stap_entry n @ xs) :: uint16_t) = length n" "drop 2 (stap_entry n @ xs) = n @ xs"
    "2 \<le> length (stap_entry n @ xs)"
  using assms by (simp_all add: stap_entry_def unat_of_nat) (simp_all add: WriteBigEndian2_def)

lemma ParseStapA_entries:
  "\<forall>n \<in> set ns. length n < 2 ^ 16 \<Longrightarrow>
   ParseStapAStartOffsets offset (concat (map stap_entry ns)) = Some (stap_offsets offset ns)"
proof (induction ns arbitrary: offset)
  case Nil
  then show ?case by (subst ParseStapAStartOffsets.simps) simp
next
  case (Cons n ns)
  note e = entry_length [of n "concat (map stap_entry ns)"]
  have "stap_entry n \<noteq> []" by (simp add: stap_entry_def WriteBigEndian2_def)
  then show ?case using Cons e
    by (subst ParseStapAStartOffsets.simps) (auto simp: Let_def)
qed

lemma process_stap:
  assumes "\<forall>n \<in> set ns. n \<noteq> [] \<and> nal_kept parsers n" "ns \<noteq> []"
    and "payload = pre @ concat (map stap_entry ns)" "length pre = offset + kNalHeaderSize"
  shows "\<exists>p'. process_nalus parsers payload (stap_offsets offset ns @ [length payload + kLengthFieldSize]) p = Some p' \<and>
    video_payload p' = video_payload p \<and>
    packetization_type (vh_h264 (video_header p')) = packetization_type (vh_h264 (video_header p)) \<and>
    nalus (vh_h264 (video_header p')) \<noteq> [] \<and>
    (ni_type ` set (nalus (vh_h264 (video_header p'))) \<subseteq>
       ni_type ` set (nalus (vh_h264 (video_header p))) \<union> nal_type ` set ns)"
  using assms
proof (induction ns arbitrary: pre offset p)
  case (Cons n ns)
  let ?start = "offset + kStapAHeaderSize"
  let ?next = "?start + length n + kLengthFieldSize"
  have n: "n \<noteq> []" "nal_kept parsers n" using Cons.prems(1) by auto
  have split: "payload = (pre @ WriteBigEndian2 (of_nat (length n) :: uint16_t)) @ n @ concat (map stap_entry ns)"
    using Cons.prems(3) by (simp add: stap_entry_def [of n])
  have start: "length (pre @ WriteBigEndian2 (of_nat (length n) :: uint16_t)) = ?start"
    using Cons.prems(4) by (simp add: WriteBigEndian2_def kStapAHeaderSize_def h264_size_defs)
  have "payload ! ?start = n ! 0" using split start n(1) by (metis length_greater_0_conv nth_append nth_append_length_plus add.right_neutral)
  then have type: "payload ! ?start AND kH264TypeMask = nal_type n" using n(1) by (simp add: nal_type_def hd_conv_nth)
  have body: "drop (?start + kNaluTypeSize) (take (?start + length n) payload) = drop 1 n"
    unfolding split using start by (simp add: kNaluTypeSize_def)
  obtain p1 where p1: "process_nalu parsers payload ?start (?start + length n) p = Some p1" "noted (nal_type n) p p1"
    using process_nalu_plain [OF n(2) type body] by blast
  have step: "process_nalus parsers payload (?start # ?next # offs) p = process_nalus parsers payload (?next # offs) p1" for offs
    using p1(1) n(1) by (simp add: Let_def kNaluTypeSize_def Suc_le_eq)
  show ?case
  proof (cases ns)
    case Nil
    have "length payload + kLengthFieldSize = ?next"
      using Cons.prems(3,4) Nil by (simp add: kStapAHeaderSize_def h264_size_defs)
    then show ?thesis using step [of "[]"] p1(2) Nil by (auto simp: noted_def)
  next
    case (Cons m ms)
    obtain offs where hd: "stap_offsets (offset + kLengthFieldSize + length n) ns = ?next # offs"
      using Cons by (simp add: kStapAHeaderSize_def)
    obtain p2 where p2: "process_nalus parsers payload (stap_offsets (offset + kLengthFieldSize + length n) ns @
        [length payload + kLengthFieldSize]) p1 = Some p2" "video_payload p2 = video_payload p1"
      "packetization_type (vh_h264 (video_header p2)) = packetization_type (vh_h264 (video_header p1))"
      "nalus (vh_h264 (video_header p2)) \<noteq> []"
      "ni_type ` set (nalus (vh_h264 (video_header p2))) \<subseteq> ni_type ` set (nalus (vh_h264 (video_header p1))) \<union> nal_type ` set ns"
      using Cons.IH [of "pre @ stap_entry n" "offset + kLengthFieldSize + length n" p1] Cons.prems Cons
      by (auto simp: kLengthFieldSize_def)
    have "process_nalus parsers payload (stap_offsets offset (n # ns) @ [length payload + kLengthFieldSize]) p = Some p2"
      using step [of "offs @ [length payload + kLengthFieldSize]"] p2(1) by (simp add: hd)
    moreover have "ni_type ` set (nalus (vh_h264 (video_header p1))) \<subseteq>
        insert (nal_type n) (ni_type ` set (nalus (vh_h264 (video_header p))))"
      using p1(2) by (auto simp: noted_def)
    then have "ni_type ` set (nalus (vh_h264 (video_header p2))) \<subseteq>
        ni_type ` set (nalus (vh_h264 (video_header p))) \<union> nal_type ` set (n # ns)"
      using p2(5) by (simp only: list.simps image_insert) blast
    ultimately show ?thesis using p2(2-4) p1(2) by (auto simp: noted_def)
  qed
qed simp

text \<open>What the parser hands to the tracker for each kind of plan.\<close>

fun plan_parsed :: "plan \<Rightarrow> bytes" where
  "plan_parsed (Frag h f l c) = (if f then h # c else c)"
| "plan_parsed p = plan_payload p"

fun plan_kind :: "plan \<Rightarrow> H264PacketizationTypes" where
  "plan_kind (Whole agg n) = kH264SingleNalu"
| "plan_kind (Stap ns) = kH264StapA"
| "plan_kind (Frag h f l c) = kH264FuA"

text \<open>The NAL unit types a plan announces; later fragments announce none.\<close>

fun plan_types :: "plan \<Rightarrow> uint8_t set" where
  "plan_types (Whole agg n) = {nal_type n}"
| "plan_types (Stap ns) = nal_type ` set ns"
| "plan_types (Frag h f l c) = (if f then {h AND kH264TypeMask} else {})"

lemma Parse_plan:
  assumes "plan_ok p" "\<forall>n \<in> set (plan_nals p). nal_kept parsers n" "\<forall>n \<in> set (plan_nals p). length n < 2 ^ 16"
  shows "\<exists>parsed_payload. Parse parsers (plan_payload p) = Some parsed_payload \<and>
    video_payload parsed_payload = plan_parsed p \<and>
    packetization_type (vh_h264 (video_header parsed_payload)) = plan_kind p \<and>
    (nalus (vh_h264 (video_header parsed_payload)) \<noteq> [] \<longleftrightarrow> plan_types p \<noteq> {}) \<and>
    ni_type ` set (nalus (vh_h264 (video_header parsed_payload))) \<subseteq> plan_types p"
proof (cases p)
  case (Whole agg n)
  have n: "n \<noteq> []" "nal_kept parsers n" "hd n AND kH264TypeMask \<noteq> kStapA" "hd n AND kH264TypeMask \<noteq> kFuA"
    using assms(1,2) Whole by (auto simp: nal_kept_def nal_plain_def nal_type_def)
  have "\<exists>p'. process_nalus parsers n [0, length n + kLengthFieldSize] q = Some p' \<and> noted (nal_type n) q p'" for q
    by (rule process_single [OF n(1,2)])
  then show ?thesis using n Whole
    by (fastforce simp: Parse_def ProcessStapAOrSingleNalu_def Let_def noted_def)
next
  case (Stap ns)
  let ?b = "(hd (hd ns) AND (kH264FBit OR kH264NriMask)) OR kStapA"
  let ?payload = "?b # concat (map stap_entry ns)"
  obtain n m ms where ns: "ns = n # m # ms" using assms(1) Stap by (cases ns; cases "tl ns") auto
  have len: "\<not> length ?payload \<le> kStapAHeaderSize"
    using assms(1) Stap ns by (simp add: kStapAHeaderSize_def h264_size_defs)
  have offsets: "ParseStapAStartOffsets 0 (concat (map stap_entry ns)) = Some (stap_offsets 0 ns)"
    using assms(3) Stap by (intro ParseStapA_entries) auto
  let ?q = "\<lparr>video_header = \<lparr>vh_frame_type = kVideoFrameDelta, vh_width = 0, vh_height = 0,
      vh_codec = kVideoCodecH264, vh_simulcastIdx = 0, vh_is_first_packet_in_frame = True,
      vh_h264 = \<lparr>nalu_type = ?payload ! kStapAHeaderSize AND kH264TypeMask, packetization_type = kH264StapA, nalus = []\<rparr>\<rparr>,
    video_payload = ?payload\<rparr>"
  have ne: "kStapA \<noteq> kFuA" by (simp add: kStapA_def kFuA_def)
  have parse: "Parse parsers ?payload =
      process_nalus parsers ?payload (stap_offsets 0 ns @ [length ?payload + kLengthFieldSize]) ?q"
    using len offsets mask_headers(1) [of "hd (hd ns)"] ne
    unfolding Parse_def ProcessStapAOrSingleNalu_def Let_def
    by (simp add: kNalHeaderSize_def)
  obtain p' where p': "process_nalus parsers ?payload (stap_offsets 0 ns @ [length ?payload + kLengthFieldSize]) ?q = Some p'"
    "video_payload p' = video_payload ?q"
    "packetization_type (vh_h264 (video_header p')) = packetization_type (vh_h264 (video_header ?q))"
    "nalus (vh_h264 (video_header p')) \<noteq> []"
    "ni_type ` set (nalus (vh_h264 (video_header p'))) \<subseteq>
       ni_type ` set (nalus (vh_h264 (video_header ?q))) \<union> nal_type ` set ns"
    using process_stap [of ns parsers ?payload "[?b]" 0 ?q] assms(1,2) Stap ns by (auto simp: kNalHeaderSize_def)
  have "ns \<noteq> []" using ns by simp
  then show ?thesis using parse p' by (simp add: Stap)
next
  case (Frag h f l c)
  then show ?thesis using assms(1) mask_headers [of h] mask_fu_header [of f l h]
    by (auto simp: Parse_def ParseFuaNalu_def Let_def kFuAHeaderSize_def)
qed

lemma start_code_h264_eq: "start_code_h264 = start_code True"
  by (simp add: start_code_h264_def start_code_def)

lemma copy_stap_entries:
  "\<forall>n \<in> set ns. length n < 2 ^ 16 \<Longrightarrow>
   copy_stap (concat (map stap_entry ns)) = Some (plan_bytes (Stap ns))"
proof (induction ns)
  case Nil
  then show ?case by (subst copy_stap.simps) simp
next
  case (Cons n ns)
  note e = entry_length [of n "concat (map stap_entry ns)", unfolded ReadBigEndian2_def]
  show ?case using Cons e
    by (subst copy_stap.simps) (auto simp: Let_def start_code_h264_eq)
qed

text \<open>A pass over the NAL units without parameter sets from out of band.\<close>

definition tracked :: "fix_state \<Rightarrow> fix_state \<Rightarrow> bool" where
  "tracked s s' \<longleftrightarrow> (in_band (fs_tracker s) \<and> \<not> fs_append_sps_pps s \<longrightarrow>
     in_band (fs_tracker s') \<and> \<not> fs_append_sps_pps s') \<and> vh_h264 (fs_header s') = vh_h264 (fs_header s)"

lemma track_nalu_tracked:
  "track_nalu nalu s = (ok, s') \<Longrightarrow> tracked s s' \<and> (ni_type nalu \<noteq> kIdr \<longrightarrow> ok)"
  by (auto simp: track_nalu_def track_idr_def tracked_def in_band_def Let_def SpsInfo_init_def
    split: if_splits option.splits)

lemma track_nalus_tracked:
  "track_nalus ns s = (ok, s') \<Longrightarrow> tracked s s' \<and> (kIdr \<notin> ni_type ` set ns \<longrightarrow> ok)"
proof (induction ns arbitrary: s)
  case Nil
  then show ?case by (simp add: tracked_def)
next
  case (Cons n ns)
  obtain ok1 s1 where s1: "track_nalu n s = (ok1, s1)" by force
  show ?case
  proof (cases ok1)
    case True
    then have "track_nalus ns s1 = (ok, s')" using Cons.prems s1 by simp
    then show ?thesis using Cons.IH track_nalu_tracked [OF s1] by (auto simp: tracked_def)
  next
    case False
    then show ?thesis using Cons.prems s1 track_nalu_tracked [OF s1] by auto
  qed
qed

lemma CopyAndFix_in_band:
  assumes "in_band t"
    and "(if packetization_type (vh_h264 hdr) = kH264StapA then copy_stap (drop 1 bitstream)
          else Some ((if nalus (vh_h264 hdr) \<noteq> [] then start_code_h264 else []) @ bitstream)) = Some fixed"
  shows "\<exists>action out hdr' t'. CopyAndFixBitstream bitstream hdr t = Some ((action, out), hdr', t') \<and> in_band t' \<and>
    (action = kInsert \<longrightarrow> out = fixed) \<and> (kIdr \<notin> ni_type ` set (nalus (vh_h264 hdr)) \<longrightarrow> action = kInsert)"
proof -
  let ?s = "\<lparr>fs_tracker = t, fs_header = hdr, fs_append_sps_pps = False, fs_found = None\<rparr>"
  obtain ok s where s: "track_nalus (nalus (vh_h264 hdr)) ?s = (ok, s)" by force
  then have t: "in_band (fs_tracker s)" "\<not> fs_append_sps_pps s" "vh_h264 (fs_header s) = vh_h264 hdr"
    "kIdr \<notin> ni_type ` set (nalus (vh_h264 hdr)) \<longrightarrow> ok"
    using track_nalus_tracked [OF s] assms(1) by (auto simp: tracked_def)
  show ?thesis
    using s t assms(2) by (cases ok) (auto simp: CopyAndFixBitstream_def)
qed

text \<open>A packet that arrives is restored to the bytes it stands for, unless an IDR slice lacks its parameter sets.\<close>

lemma receive_plan:
  assumes "in_band t" "plan_ok p"
    and "\<forall>n \<in> set (plan_nals p). nal_kept parsers n \<and> length n < 2 ^ 16"
  shows "\<exists>r t'. receive_payload parsers (plan_payload p) t = Some (r, t') \<and> in_band t' \<and>
    (r = None \<or> r = Some (plan_bytes p)) \<and> (kIdr \<notin> plan_types p \<longrightarrow> r \<noteq> None)"
proof -
  obtain q where q: "Parse parsers (plan_payload p) = Some q" "video_payload q = plan_parsed p"
    "packetization_type (vh_h264 (video_header q)) = plan_kind p"
    "nalus (vh_h264 (video_header q)) \<noteq> [] \<longleftrightarrow> plan_types p \<noteq> {}"
    "ni_type ` set (nalus (vh_h264 (video_header q))) \<subseteq> plan_types p"
    using Parse_plan [OF assms(2)] assms(3) by blast
  have ne: "plan_parsed p \<noteq> []" using assms(2) by (cases p) auto
  have fixed: "(if packetization_type (vh_h264 (video_header q)) = kH264StapA then copy_stap (drop 1 (plan_parsed p))
      else Some ((if nalus (vh_h264 (video_header q)) \<noteq> [] then start_code_h264 else []) @ plan_parsed p)) =
      Some (plan_bytes p)"
    using assms(3) copy_stap_entries unfolding q(3,4)
    by (cases p) (auto simp: start_code_h264_eq)
  obtain action out hdr' t' where c: "CopyAndFixBitstream (plan_parsed p) (video_header q) t = Some ((action, out), hdr', t')"
    "in_band t'" "action = kInsert \<longrightarrow> out = plan_bytes p"
    "kIdr \<notin> ni_type ` set (nalus (vh_h264 (video_header q))) \<longrightarrow> action = kInsert"
    using CopyAndFix_in_band [OF assms(1) fixed] by blast
  have "receive_payload parsers (plan_payload p) t = Some (if action = kInsert then Some out else None, t')"
    using q(1,2) ne c(1) by (simp add: receive_payload_def)
  then show ?thesis using c(2-) q(5) by auto
qed

lemma receive_plans:
  assumes "in_band t" "\<forall>p \<in> set ps. plan_ok p"
    and "\<forall>p \<in> set ps. \<forall>n \<in> set (plan_nals p). nal_kept parsers n \<and> length n < 2 ^ 16"
  shows "\<exists>rs t'. receive_all parsers (map plan_payload ps) t = Some (rs, t') \<and>
    (None \<notin> set rs \<longrightarrow> map the rs = map plan_bytes ps) \<and>
    ((\<forall>p \<in> set ps. kIdr \<notin> plan_types p) \<longrightarrow> None \<notin> set rs)"
  using assms
proof (induction ps arbitrary: t)
  case (Cons p ps)
  obtain r t1 where r: "receive_payload parsers (plan_payload p) t = Some (r, t1)" "in_band t1"
    "r = None \<or> r = Some (plan_bytes p)" "kIdr \<notin> plan_types p \<longrightarrow> r \<noteq> None"
    using receive_plan [of t p parsers] Cons.prems by auto
  obtain rs t' where "receive_all parsers (map plan_payload ps) t1 = Some (rs, t')"
    "None \<notin> set rs \<longrightarrow> map the rs = map plan_bytes ps" "(\<forall>p \<in> set ps. kIdr \<notin> plan_types p) \<longrightarrow> None \<notin> set rs"
    using Cons.IH [OF r(2)] Cons.prems by auto
  then show ?case using r by auto
qed simp

lemma plan_nals_length: "n \<in> set (plan_nals p) \<Longrightarrow> length n \<le> length (plan_payload p)"
proof (cases p)
  case (Stap ns)
  assume "n \<in> set (plan_nals p)"
  then have "n \<in> set ns" using Stap by simp
  then have "length n \<le> length (concat (map stap_entry ns))" by (induction ns) auto
  then show ?thesis using Stap by simp
qed auto

lemma carries_plans:
  assumes "limits_fit limits" "carries limits True True ps frs" "\<forall>n \<in> set frs. nal_kept parsers n" "p \<in> set ps"
  shows "plan_ok p" "\<forall>n \<in> set (plan_nals p). nal_kept parsers n \<and> length n < 2 ^ 16" "plan_types p \<subseteq> nal_type ` set frs"
proof -
  have p: "plan_ok p" "set (plan_nals p) \<subseteq> set frs" "plan_header p \<in> hd ` set frs"
    using assms(2,4) by (auto simp: carries_def)
  show "plan_ok p" by (rule p)
  obtain k where k: "k < length ps" "ps ! k = p" using assms(4) by (auto simp: in_set_conv_nth)
  then have "int (length (plan_payload p)) + reduction limits (k = 0) (k + 1 = length ps) \<le> max_payload_len limits"
    using assms(2) unfolding carries_def by auto
  moreover have "0 \<le> reduction limits (k = 0) (k + 1 = length ps)" "max_payload_len limits < 2 ^ 16"
    using assms(1) by (auto simp: limits_fit_def)
  ultimately have "int (length (plan_payload p)) < 2 ^ 16" by linarith
  then have "length (plan_payload p) < 2 ^ 16" by simp
  then show "\<forall>n \<in> set (plan_nals p). nal_kept parsers n \<and> length n < 2 ^ 16"
    using p(2) assms(3) plan_nals_length [of _ p] by (auto intro: le_less_trans)
  show "plan_types p \<subseteq> nal_type ` set frs" using p(2,3) by (cases p) (auto simp: nal_type_def)
qed

lemma payloads_render_plans: "map rtp_payload (render_plans ps) = map plan_payload ps"
  by (simp add: render_plans_def comp_def map_nth flip: map_map [unfolded comp_def])

text \<open>
  C10. A frame survives the network: NAL units sent as an Annex B frame through the packetiser, in
  either mode and under any limits \<open>SendVideo\<close> computes, and received in order by the depacketiser
  and the parameter set tracker, come out as the same NAL units in the same order, each behind a
  four byte start code, unless a packet is refused; no check fails on the way. A packet of a frame
  without IDR slices is never refused (those with IDR slices may be, when the parameter sets of the
  slice are not known). The frame is below 2 GiB; its NAL units are not empty, contain no start code, do not
  end in a zero byte, are not themselves aggregation or fragmentation units, and none is a sequence
  parameter set that the rewriter of its usability information would change; no parameter sets were
  supplied out of band.
\<close>

theorem packets_restore_frame:
  assumes "limits_fit limits" "\<forall>(long, nal) \<in> set nals. nal_ok nal \<and> nal_kept parsers nal" "length (annexb nals) < 2 ^ 31"
    and "in_band t" "packetize_frame spare (annexb nals) limits mode = Some (Some packets)"
  shows "\<exists>rs t'. receive_all parsers (map rtp_payload packets) t = Some (rs, t') \<and>
    (None \<notin> set rs \<longrightarrow> concat (map the rs) = annexb (map (\<lambda>(long, nal). (True, nal)) nals)) \<and>
    ((\<forall>(long, nal) \<in> set nals. nal_type nal \<noteq> kIdr) \<longrightarrow> None \<notin> set rs)"
proof -
  have frs: "frame_nals (annexb nals) = map snd nals"
    using annexb_payloads [of nals] assms(2) by (auto simp: frame_nals_def)
  have "[] \<notin> set (frame_nals (annexb nals))" using assms(2) by (auto simp: frs nal_ok_def)
  then obtain ps where ps: "packets = render_plans ps" "carries limits True True ps (map snd nals)"
    using packetize_frame_plans [OF assms(1,3), of spare mode] assms(5) frs by auto
  have plain: "\<forall>n \<in> set (map snd nals). nal_kept parsers n" using assms(2) by auto
  note plans = carries_plans [OF assms(1) ps(2) plain]
  obtain rs t' where rs: "receive_all parsers (map plan_payload ps) t = Some (rs, t')"
    "None \<notin> set rs \<longrightarrow> map the rs = map plan_bytes ps" "(\<forall>p \<in> set ps. kIdr \<notin> plan_types p) \<longrightarrow> None \<notin> set rs"
    using receive_plans [OF assms(4), of ps parsers] plans by blast
  have restored: "map (Pair True) (map snd nals) = map (\<lambda>(long, nal). (True, nal)) nals" by auto
  have "concat (map plan_bytes ps) = annexb (map (\<lambda>(long, nal). (True, nal)) nals)"
    using ps(2) unfolding carries_def restored by blast
  moreover have "\<forall>p \<in> set ps. kIdr \<notin> plan_types p" if "\<forall>(long, nal) \<in> set nals. nal_type nal \<noteq> kIdr"
    using plans(3) that by fastforce
  ultimately show ?thesis using rs ps(1) by (auto simp: payloads_render_plans)
qed

text \<open>Parsers for the sample frame, whose parameter sets have the identifier zero.\<close>

definition sample_parsers :: h264_parsers where
  "sample_parsers = \<lparr>ParseAndRewriteSps = (\<lambda>_. (kVuiOk, Some \<lparr>sps_width = 2, sps_height = 2, sps_id = 0\<rparr>, [])),
     ParsePpsIds = (\<lambda>_. Some (0, 0)), ParsePpsIdFromSlice = (\<lambda>_. Some 0),
     ParseSps = (\<lambda>_. None), ParsePps = (\<lambda>_. None)\<rparr>"

theorem packets_restore_frame_witness:
  "\<exists>rs t'. receive_all sample_parsers (map rtp_payload sample_packets) H264SpsPpsTracker_init = Some (rs, t') \<and>
     None \<notin> set rs \<and> concat (map the rs) = annexb (map (\<lambda>(long, nal). (True, nal)) sample_nals)"
proof -
  have "map_option (\<lambda>(rs, t'). None \<in> set rs)
      (receive_all sample_parsers (map rtp_payload sample_packets) H264SpsPpsTracker_init) = Some False"
    by code_simp
  moreover have "\<forall>(long, nal) \<in> set sample_nals. nal_ok nal \<and> nal_kept sample_parsers nal"
    by (simp add: sample_nals_def nal_ok_def nal_kept_def nal_plain_def nal_type_def kH264TypeMask_def kStapA_def
        kFuA_def sample_parsers_def)
  ultimately show ?thesis
    using packets_restore_frame [OF sample_limits_fit _ sample_frame_facts(3) _ sample_frame_facts(1),
        of sample_parsers H264SpsPpsTracker_init]
    by (auto simp: in_band_def H264SpsPpsTracker_init_def)
qed

end
