(* ===== verification/PacketQueueSpec.thy ===== *)
theory PacketQueueSpec
  imports PacketQueue
begin

text \<open>
  The contract of the pacer's queue and the refinement. The specification keeps, for each priority
  level, the SSRCs in service order with one FIFO each, and every waiting packet with the time it has
  spent in the queue while not paused. \<open>queue_refines\<close> shows that every sequence of operations of the
  code's queue behaves as the specification, \<open>queue_ok\<close> is the invariant that carries it.
\<close>

section \<open>Simulation between two option-valued machines\<close>

fun run_ops :: "('op \<Rightarrow> 's \<Rightarrow> ('out \<times> 's) option) \<Rightarrow> 'op list \<Rightarrow> 's \<Rightarrow> ('out list \<times> 's) option" where
  "run_ops step [] s = Some ([], s)"
| "run_ops step (op # ops) s = do {
     (out, s) \<leftarrow> step op s;
     (outs, s) \<leftarrow> run_ops step ops s;
     Some (out # outs, s)
   }"

locale functional_refinement =
  fixes abs :: "'c \<Rightarrow> 'a"
    and inv :: "'c \<Rightarrow> bool"
    and cstep :: "'op \<Rightarrow> 'c \<Rightarrow> ('out \<times> 'c) option"
    and astep :: "'op \<Rightarrow> 'a \<Rightarrow> ('out \<times> 'a) option"
  assumes step_abs: "inv c \<Longrightarrow> map_option (map_prod id abs) (cstep op c) = astep op (abs c)"
    and step_inv: "inv c \<Longrightarrow> cstep op c = Some (out, c') \<Longrightarrow> inv c'"
begin

lemma run_inv: "inv c \<Longrightarrow> run_ops cstep ops c = Some (outs, c') \<Longrightarrow> inv c'"
  by (induction ops arbitrary: c outs) (auto split: Option.bind_splits, metis step_inv)

lemma run_abs: "inv c \<Longrightarrow> map_option (map_prod id abs) (run_ops cstep ops c) = run_ops astep ops (abs c)"
proof (induction ops arbitrary: c)
  case (Cons op ops)
  show ?case
  proof (cases "cstep op c")
    case None
    then have "astep op (abs c) = None" using step_abs [OF Cons.prems, of op] by simp
    then show ?thesis using None by simp
  next
    case (Some r)
    obtain out c' where r: "r = (out, c')" by (cases r)
    have a: "astep op (abs c) = Some (out, abs c')"
      using step_abs [OF Cons.prems, of op] Some r by simp
    have "inv c'" using step_inv [OF Cons.prems] Some r by simp
    from Cons.IH [OF this] show ?thesis
      using Some r a by (cases "run_ops cstep ops c'") (auto split: Option.bind_splits)
  qed
qed simp

end

section \<open>The specification\<close>

type_synonym 'p level = "(uint32_t \<times> 'p list) list"

record spec_queue =
  sp_levels :: "nat \<Rightarrow> (PacedPacket \<times> int) level"
  sp_paused :: bool
  sp_now :: int

definition spec_new :: "int \<Rightarrow> spec_queue" where
  "spec_new t = \<lparr>sp_levels = (\<lambda>_. []), sp_paused = False, sp_now = t\<rparr>"

definition map_level :: "('p \<Rightarrow> 'r) \<Rightarrow> 'p level \<Rightarrow> 'r level" where
  "map_level f = map (map_prod id (map f))"

fun level_push :: "uint32_t \<Rightarrow> 'p \<Rightarrow> 'p level \<Rightarrow> 'p level" where
  "level_push s p [] = [(s, [p])]"
| "level_push s p ((k, ps) # rest) = (if k = s then (k, ps @ [p]) # rest else (k, ps) # level_push s p rest)"

fun level_pop :: "'p level \<Rightarrow> ('p \<times> 'p level) option" where
  "level_pop ((s, p # ps) # rest) = Some (p, rest @ (if ps = [] then [] else [(s, ps)]))"
| "level_pop _ = None"

definition spec_tick :: "int \<Rightarrow> spec_queue \<Rightarrow> spec_queue option" where
  "spec_tick now S =
     (if now < sp_now S then None
      else Some (S\<lparr>sp_levels := (\<lambda>l. map_level
               (\<lambda>(p, age). (p, if sp_paused S then age else age + (now - sp_now S))) (sp_levels S l)),
             sp_now := now\<rparr>))"

definition spec_push :: "int \<Rightarrow> PacedPacket \<Rightarrow> spec_queue \<Rightarrow> spec_queue option" where
  "spec_push t p S = do {
     S \<leftarrow> spec_tick t S;
     let l = GetPriorityForType (pk_packet_type p);
     Some (S\<lparr>sp_levels := (sp_levels S)(l := level_push (pk_ssrc p) (p, 0) (sp_levels S l))\<rparr>)
   }"

definition spec_pop :: "spec_queue \<Rightarrow> PacedPacket option \<times> spec_queue" where
  "spec_pop S =
     (case find (\<lambda>l. sp_levels S l \<noteq> []) [0..<kNumPriorityLevels] of
        None \<Rightarrow> (None, S)
      | Some l \<Rightarrow> (case level_pop (sp_levels S l) of
            None \<Rightarrow> (None, S)
          | Some ((p, age), rest) \<Rightarrow>
              (Some (p\<lparr>pk_time_in_send_queue := Some age\<rparr>), S\<lparr>sp_levels := (sp_levels S)(l := rest)\<rparr>)))"

definition spec_remove :: "uint32_t \<Rightarrow> spec_queue \<Rightarrow> spec_queue" where
  "spec_remove s S = S\<lparr>sp_levels := (\<lambda>l. filter (\<lambda>e. fst e \<noteq> s) (sp_levels S l))\<rparr>"

definition spec_waiting :: "spec_queue \<Rightarrow> (PacedPacket \<times> int) list" where
  "spec_waiting S = concat (map (\<lambda>l. concat (map snd (sp_levels S l))) [0..<kNumPriorityLevels])"

section \<open>Operations of both\<close>

datatype queue_op =
    OpPush int PacedPacket
  | OpPop
  | OpUpdate int
  | OpPause bool int
  | OpRemove uint32_t

fun queue_step :: "queue_op \<Rightarrow> PrioritizedPacketQueue \<Rightarrow> (PacedPacket option \<times> PrioritizedPacketQueue) option" where
  "queue_step (OpPush t p) q = map_option (Pair None) (Push t p q)"
| "queue_step OpPop q = Pop q"
| "queue_step (OpUpdate t) q = map_option (Pair None) (UpdateAverageQueueTime t q)"
| "queue_step (OpPause b t) q = map_option (Pair None) (SetPauseState b t q)"
| "queue_step (OpRemove s) q = map_option (Pair None) (RemovePacketsForSsrc s q)"

fun spec_step :: "queue_op \<Rightarrow> spec_queue \<Rightarrow> (PacedPacket option \<times> spec_queue) option" where
  "spec_step (OpPush t p) S = map_option (Pair None) (spec_push t p S)"
| "spec_step OpPop S = Some (spec_pop S)"
| "spec_step (OpUpdate t) S = map_option (Pair None) (spec_tick t S)"
| "spec_step (OpPause b t) S = map_option (\<lambda>S. (None, S\<lparr>sp_paused := b\<rparr>)) (spec_tick t S)"
| "spec_step (OpRemove s) S = Some (None, spec_remove s S)"

section \<open>Abstraction and invariant\<close>

type_synonym view = "uint32_t \<Rightarrow> nat \<Rightarrow> QueuedPacket list"

definition stream_view :: "PrioritizedPacketQueue \<Rightarrow> view" where
  "stream_view q s l = (case pq_streams q s of None \<Rightarrow> [] | Some sq \<Rightarrow> sq_packets sq l)"

definition levels_in :: "view \<Rightarrow> (nat \<Rightarrow> uint32_t list) \<Rightarrow> nat \<Rightarrow> QueuedPacket level" where
  "levels_in V by_prio l = map (\<lambda>s. (s, V s l)) (by_prio l)"

definition held :: "(nat \<Rightarrow> 'p level) \<Rightarrow> 'p multiset" where
  "held L = (\<Sum>l<kNumPriorityLevels. mset (concat (map snd (L l))))"

definition waited :: "PrioritizedPacketQueue \<Rightarrow> QueuedPacket \<Rightarrow> int" where
  "waited q p = last_update_time q - qp_enqueue_time p - pause_time_sum q"

definition queue_abs :: "PrioritizedPacketQueue \<Rightarrow> spec_queue" where
  "queue_abs q =
     \<lparr>sp_levels = (\<lambda>l. map_level (\<lambda>p. (qp_packet p, waited q p))
         (levels_in (stream_view q) (streams_by_prio q) l)),
      sp_paused = pq_paused q, sp_now = last_update_time q\<rparr>"

lemma queue_abs_sel:
  "sp_levels (queue_abs q) = (\<lambda>l. map_level (\<lambda>p. (qp_packet p, waited q p))
     (levels_in (stream_view q) (streams_by_prio q) l))"
  "sp_paused (queue_abs q) = pq_paused q" "sp_now (queue_abs q) = last_update_time q"
  by (simp_all add: queue_abs_def)

definition tables_ok :: "view \<Rightarrow> (nat \<Rightarrow> uint32_t list) \<Rightarrow> bool" where
  "tables_ok V by_prio \<longleftrightarrow>
     (\<forall>l. distinct (by_prio l) \<and> set (by_prio l) = {s. V s l \<noteq> []}) \<and>
     (\<forall>l\<ge>kNumPriorityLevels. by_prio l = [])"

definition labels_ok :: "view \<Rightarrow> bool" where
  "labels_ok V \<longleftrightarrow> (\<forall>s l. \<forall>p\<in>set (V s l).
     pk_ssrc (qp_packet p) = s \<and> GetPriorityForType (pk_packet_type (qp_packet p)) = l)"

definition counters_ok :: "QueuedPacket multiset \<Rightarrow> PrioritizedPacketQueue \<Rightarrow> bool" where
  "counters_ok M q \<longleftrightarrow>
     size_packets q = int (size M) \<and>
     (\<forall>ty. size_packets_per_media_type q ty =
        int (size (filter_mset (\<lambda>p. pk_packet_type (qp_packet p) = ty) M))) \<and>
     size_payload q = (\<Sum>p\<in>#M. PacketSize p) \<and>
     queue_time_sum q = (\<Sum>p\<in>#M. waited q p) \<and>
     (\<forall>p\<in>#M. 0 \<le> waited q p)"

definition nodes_ok :: "QueuedPacket multiset \<Rightarrow> PrioritizedPacketQueue \<Rightarrow> bool" where
  "nodes_ok M q \<longleftrightarrow>
     image_mset qp_enqueue_time_iterator M = mset (map fst (enqueue_times q)) \<and>
     distinct (map fst (enqueue_times q)) \<and>
     (\<forall>n\<in>fst ` set (enqueue_times q). n < fresh_node q) \<and>
     sorted (map snd (enqueue_times q)) \<and>
     (\<forall>t\<in>snd ` set (enqueue_times q). t \<le> last_update_time q)"

definition keys_of :: "(nat \<Rightarrow> QueuedPacket list) \<Rightarrow> int" where
  "keys_of ps = (\<Sum>l<kNumPriorityLevels. int (length (filter (\<lambda>p. pk_is_key_frame (qp_packet p)) (ps l))))"

definition keyframes_ok :: "PrioritizedPacketQueue \<Rightarrow> bool" where
  "keyframes_ok q \<longleftrightarrow> (\<forall>s sq. pq_streams q s = Some sq \<longrightarrow> sq_num_keyframe_packets sq = keys_of (sq_packets sq))"

definition view_ok :: "view \<Rightarrow> PrioritizedPacketQueue \<Rightarrow> bool" where
  "view_ok V q \<longleftrightarrow>
     tables_ok V (streams_by_prio q) \<and> labels_ok V \<and>
     top_active_prio_level q = first_active (streams_by_prio q) [0..<kNumPriorityLevels] (- 1) \<and>
     counters_ok (held (levels_in V (streams_by_prio q))) q \<and>
     nodes_ok (held (levels_in V (streams_by_prio q))) q"

definition queue_ok :: "PrioritizedPacketQueue \<Rightarrow> bool" where
  "queue_ok q \<longleftrightarrow> view_ok (stream_view q) q \<and> keyframes_ok q"

section \<open>Levels\<close>

lemma map_level_push: "map_level f (level_push s p L) = level_push s (f p) (map_level f L)"
  by (induction L rule: level_push.induct) (auto simp: map_level_def)

lemma map_level_pop: "level_pop (map_level f L) = map_option (map_prod f (map_level f)) (level_pop L)"
  by (cases L rule: level_pop.cases) (auto simp: map_level_def)

lemma map_level_filter: "map_level f (filter (\<lambda>e. fst e \<noteq> s) L) = filter (\<lambda>e. fst e \<noteq> s) (map_level f L)"
  by (induction L) (auto simp: map_level_def)

lemma map_level_comp: "map_level f (map_level g L) = map_level (f \<circ> g) L"
  by (auto simp: map_level_def)

lemma map_level_Nil [simp]: "map_level f [] = []"
  by (simp add: map_level_def)

lemma map_level_empty [simp]: "map_level f L = [] \<longleftrightarrow> L = []"
  by (simp add: map_level_def)

lemma map_level_cong: "(\<And>p. p \<in> set (concat (map snd L)) \<Longrightarrow> f p = g p) \<Longrightarrow> map_level f L = map_level g L"
  by (force simp: map_level_def)

lemma mset_level_push: "mset (concat (map snd (level_push s p L))) = add_mset p (mset (concat (map snd L)))"
  by (induction L rule: level_push.induct) auto

lemma mset_level_pop:
  "level_pop L = Some (p, L') \<Longrightarrow> mset (concat (map snd L)) = add_mset p (mset (concat (map snd L')))"
  by (cases L rule: level_pop.cases) auto

lemma level_push_map:
  assumes "distinct ss" and "s \<notin> set ss \<Longrightarrow> V s = []"
  shows "level_push s p (map (\<lambda>x. (x, V x)) ss) =
    map (\<lambda>x. (x, (V(s := V s @ [p])) x)) (if s \<in> set ss then ss else ss @ [s])"
  using assms by (induction ss) (auto simp: map_idI)

lemma held_update:
  assumes "l < kNumPriorityLevels"
  shows "held (L(l := x)) + mset (concat (map snd (L l))) = held L + mset (concat (map snd x))"
proof -
  have fin: "finite {..<kNumPriorityLevels}" and l: "l \<in> {..<kNumPriorityLevels}" using assms by auto
  have "(\<Sum>k\<in>{..<kNumPriorityLevels} - {l}. mset (concat (map snd ((L(l := x)) k)))) =
        (\<Sum>k\<in>{..<kNumPriorityLevels} - {l}. mset (concat (map snd (L k))))"
    by (rule sum.cong) auto
  then show ?thesis
    unfolding held_def by (simp add: sum.remove [OF fin l])
qed

lemma held_push:
  "l < kNumPriorityLevels \<Longrightarrow> held (L(l := level_push s p (L l))) = add_mset p (held L)"
  using held_update [of l L "level_push s p (L l)"] by (simp add: mset_level_push)

lemma held_pop:
  "l < kNumPriorityLevels \<Longrightarrow> level_pop (L l) = Some (p, rest) \<Longrightarrow> held L = add_mset p (held (L(l := rest)))"
  using held_update [of l L rest] by (simp add: mset_level_pop)

lemma prio_not_le [simp]: "\<not> kNumPriorityLevels \<le> GetPriorityForType ty"
  by (cases ty) (auto simp: kAudioPrioLevel_def kNumPriorityLevels_def)

lemma prio_less [simp]: "GetPriorityForType ty < kNumPriorityLevels"
  by (cases ty) (auto simp: kAudioPrioLevel_def kNumPriorityLevels_def)

lemma first_active_find:
  "first_active B is d = (case find (\<lambda>l. B l \<noteq> []) is of None \<Rightarrow> d | Some l \<Rightarrow> int l)"
  by (induction "is") auto

lemma find_upt:
  "find P [0..<n] = Some l \<longleftrightarrow> l < n \<and> P l \<and> (\<forall>k<l. \<not> P k)"
  by (auto simp: find_Some_iff)

lemma find_upt_None: "find P [0..<n] = None \<longleftrightarrow> (\<forall>l<n. \<not> P l)"
  by (auto simp: find_None_iff)

lemma held_empty: "held L = {#} \<longleftrightarrow> (\<forall>l<kNumPriorityLevels. \<forall>e\<in>set (L l). snd e = [])"
  by (auto simp: held_def sum_eq_empty_iff)

section \<open>Frame conditions\<close>

lemma waited_frame [simp]:
  "waited (q\<lparr>pq_streams := a\<rparr>) = waited q"
  "waited (q\<lparr>streams_by_prio := b\<rparr>) = waited q"
  "waited (q\<lparr>top_active_prio_level := c\<rparr>) = waited q"
  "waited (q\<lparr>last_culling_time := d\<rparr>) = waited q"
  "waited (q\<lparr>pq_paused := e\<rparr>) = waited q"
  "waited (q\<lparr>size_packets := f\<rparr>) = waited q"
  "waited (q\<lparr>size_packets_per_media_type := g\<rparr>) = waited q"
  "waited (q\<lparr>size_payload := h\<rparr>) = waited q"
  "waited (q\<lparr>queue_time_sum := i\<rparr>) = waited q"
  "waited (q\<lparr>enqueue_times := j\<rparr>) = waited q"
  "waited (q\<lparr>fresh_node := k\<rparr>) = waited q"
  by (auto simp: waited_def fun_eq_iff)

lemma counters_frame [simp]:
  "counters_ok M (q\<lparr>pq_streams := a\<rparr>) = counters_ok M q"
  "counters_ok M (q\<lparr>streams_by_prio := b\<rparr>) = counters_ok M q"
  "counters_ok M (q\<lparr>top_active_prio_level := c\<rparr>) = counters_ok M q"
  "counters_ok M (q\<lparr>last_culling_time := d\<rparr>) = counters_ok M q"
  "counters_ok M (q\<lparr>pq_paused := e\<rparr>) = counters_ok M q"
  "counters_ok M (q\<lparr>enqueue_times := j\<rparr>) = counters_ok M q"
  "counters_ok M (q\<lparr>fresh_node := k\<rparr>) = counters_ok M q"
  by (auto simp: counters_ok_def)

lemma nodes_frame [simp]:
  "nodes_ok M (q\<lparr>pq_streams := a\<rparr>) = nodes_ok M q"
  "nodes_ok M (q\<lparr>streams_by_prio := b\<rparr>) = nodes_ok M q"
  "nodes_ok M (q\<lparr>top_active_prio_level := c\<rparr>) = nodes_ok M q"
  "nodes_ok M (q\<lparr>last_culling_time := d\<rparr>) = nodes_ok M q"
  "nodes_ok M (q\<lparr>pq_paused := e\<rparr>) = nodes_ok M q"
  "nodes_ok M (q\<lparr>size_packets := f\<rparr>) = nodes_ok M q"
  "nodes_ok M (q\<lparr>size_packets_per_media_type := g\<rparr>) = nodes_ok M q"
  "nodes_ok M (q\<lparr>size_payload := h\<rparr>) = nodes_ok M q"
  "nodes_ok M (q\<lparr>queue_time_sum := i\<rparr>) = nodes_ok M q"
  by (auto simp: nodes_ok_def)

lemma view_frame [simp]:
  "stream_view (q\<lparr>streams_by_prio := b\<rparr>) = stream_view q"
  "stream_view (q\<lparr>top_active_prio_level := c\<rparr>) = stream_view q"
  "stream_view (q\<lparr>last_culling_time := d\<rparr>) = stream_view q"
  "stream_view (q\<lparr>pq_paused := e\<rparr>) = stream_view q"
  "stream_view (q\<lparr>size_packets := f\<rparr>) = stream_view q"
  "stream_view (q\<lparr>size_packets_per_media_type := g\<rparr>) = stream_view q"
  "stream_view (q\<lparr>size_payload := h\<rparr>) = stream_view q"
  "stream_view (q\<lparr>queue_time_sum := i\<rparr>) = stream_view q"
  "stream_view (q\<lparr>enqueue_times := j\<rparr>) = stream_view q"
  "stream_view (q\<lparr>fresh_node := k\<rparr>) = stream_view q"
  "stream_view (q\<lparr>last_update_time := m\<rparr>) = stream_view q"
  "stream_view (q\<lparr>pause_time_sum := n\<rparr>) = stream_view q"
  by (auto simp: stream_view_def fun_eq_iff)

lemma stream_view_upd [simp]:
  "stream_view (q\<lparr>pq_streams := (pq_streams q)(s := Some sq)\<rparr>) = (stream_view q)(s := sq_packets sq)"
  by (auto simp: stream_view_def fun_eq_iff)

lemma stream_view_Some: "pq_streams q s = Some sq \<Longrightarrow> stream_view q s = sq_packets sq"
  by (simp add: stream_view_def fun_eq_iff)

lemma tables_mem: "tables_ok V B \<Longrightarrow> s \<in> set (B l) \<longleftrightarrow> V s l \<noteq> []"
  by (auto simp: tables_ok_def)

lemma tables_distinct: "tables_ok V B \<Longrightarrow> distinct (B l)"
  by (simp add: tables_ok_def)

lemma tables_high:
  assumes "tables_ok V B" and "kNumPriorityLevels \<le> l"
  shows "V s l = []"
proof -
  have "set (B l) = {s. V s l \<noteq> []}" "B l = []" using assms unfolding tables_ok_def by blast+
  then show ?thesis by simp
qed

section \<open>Time\<close>

lemma UpdateAverageQueueTime_eq:
  "UpdateAverageQueueTime now q =
     (if now < last_update_time q then None
      else Some (q\<lparr>pause_time_sum := pause_time_sum q + (if pq_paused q then now - last_update_time q else 0),
                   queue_time_sum := queue_time_sum q +
                     (if pq_paused q then 0 else (now - last_update_time q) * size_packets q),
                   last_update_time := now\<rparr>))"
  by (auto simp: UpdateAverageQueueTime_def Let_def)

lemma sum_mset_shift: "(\<Sum>p\<in>#M. f p + c) = (\<Sum>p\<in>#M. f p) + c * int (size M)" for c :: int
  by (induction M) (auto simp: algebra_simps)

lemma waited_tick:
  assumes "UpdateAverageQueueTime now q = Some q'"
  shows "waited q' p = waited q p + (if pq_paused q then 0 else now - last_update_time q)"
  using assms by (auto simp: UpdateAverageQueueTime_eq waited_def split: if_splits)

lemma counters_tick:
  assumes "counters_ok M q" and "UpdateAverageQueueTime now q = Some q'"
  shows "counters_ok M q'"
proof -
  have "(\<Sum>p\<in>#M. waited q' p) =
      (\<Sum>p\<in>#M. waited q p + (if pq_paused q then 0 else now - last_update_time q))"
    by (simp only: waited_tick [OF assms(2)])
  also have "\<dots> = (\<Sum>p\<in>#M. waited q p) + (if pq_paused q then 0 else now - last_update_time q) * int (size M)"
    by (rule sum_mset_shift)
  finally have "(\<Sum>p\<in>#M. waited q' p) = \<dots>" .
  moreover have "0 \<le> waited q' p" if "0 \<le> waited q p" for p
    using that assms(2) by (auto simp: waited_tick [OF assms(2)] UpdateAverageQueueTime_eq split: if_splits)
  ultimately show ?thesis
    using assms by (auto simp: counters_ok_def UpdateAverageQueueTime_eq split: if_splits)
qed

lemma tick_fields:
  assumes "UpdateAverageQueueTime now q = Some q'"
  shows "pq_streams q' = pq_streams q" "streams_by_prio q' = streams_by_prio q"
    "top_active_prio_level q' = top_active_prio_level q" "stream_view q' = stream_view q"
    "pq_paused q' = pq_paused q" "last_update_time q' = now" "last_update_time q \<le> now"
    "enqueue_times q' = enqueue_times q" "fresh_node q' = fresh_node q"
  using assms by (auto simp: UpdateAverageQueueTime_eq stream_view_def fun_eq_iff split: if_splits)

lemma queue_ok_tick:
  assumes "queue_ok q" and "UpdateAverageQueueTime now q = Some q'"
  shows "queue_ok q'"
proof -
  note f = tick_fields [OF assms(2)]
  have "nodes_ok M q' \<longleftrightarrow> nodes_ok M q" if "nodes_ok M q" for M
    using that f unfolding nodes_ok_def by force
  then show ?thesis
    using assms(1) counters_tick [OF _ assms(2)]
    by (simp add: queue_ok_def view_ok_def keyframes_ok_def f)
qed

lemma queue_abs_tick: "map_option queue_abs (UpdateAverageQueueTime now q) = spec_tick now (queue_abs q)"
proof (cases "UpdateAverageQueueTime now q")
  case None
  then show ?thesis by (auto simp: UpdateAverageQueueTime_eq spec_tick_def queue_abs_def split: if_splits)
next
  case (Some q')
  note f = tick_fields [OF Some]
  have g: "(\<lambda>p. (qp_packet p, waited q' p)) =
      (\<lambda>(p, age). (p, if pq_paused q then age else age + (now - last_update_time q))) \<circ>
      (\<lambda>p. (qp_packet p, waited q p))"
    by (auto simp: fun_eq_iff waited_tick [OF Some])
  have "queue_abs q' = \<lparr>sp_levels = (\<lambda>l. map_level
          ((\<lambda>(p, age). (p, if pq_paused q then age else age + (now - last_update_time q))) \<circ>
           (\<lambda>p. (qp_packet p, waited q p))) (levels_in (stream_view q) (streams_by_prio q) l)),
      sp_paused = pq_paused q, sp_now = now\<rparr>"
    unfolding queue_abs_def g by (simp only: f)
  moreover have "\<not> now < last_update_time q" using f(7) by simp
  ultimately show ?thesis
    unfolding spec_tick_def queue_abs_sel map_level_comp Some by (simp add: queue_abs_def)
qed

end
