(* ===== verification/PacketQueueRefinement.thy ===== *)
theory PacketQueueRefinement
  imports PacketQueueSpec
begin

text \<open>
  Every operation of the pacer's queue keeps the invariant \<^const>\<open>queue_ok\<close> and commutes with
  \<^const>\<open>queue_abs\<close>; the two machines are tied together by an interpretation of
  \<open>functional_refinement\<close>.
\<close>

section \<open>Push\<close>

text \<open>What \<^const>\<open>Push\<close> does once the queue time is up to date.\<close>

definition queued_now :: "PacedPacket \<Rightarrow> PrioritizedPacketQueue \<Rightarrow> QueuedPacket" where
  "queued_now packet q =
     \<lparr>qp_packet = packet, qp_enqueue_time = last_update_time q - pause_time_sum q,
      qp_enqueue_time_iterator = fresh_node q\<rparr>"

definition stream_or_new :: "int \<Rightarrow> StreamQueue option \<Rightarrow> StreamQueue" where
  "stream_or_new t found = (case found of None \<Rightarrow> new_StreamQueue t | Some sq \<Rightarrow> sq)"

definition enqueued_stream :: "PacedPacket \<Rightarrow> PrioritizedPacketQueue \<Rightarrow> bool \<times> StreamQueue" where
  "enqueued_stream packet q =
     sq_EnqueuePacket (queued_now packet q) (GetPriorityForType (pk_packet_type packet))
       (stream_or_new (last_update_time q) (pq_streams q (pk_ssrc packet)))"

definition push_now :: "PacedPacket \<Rightarrow> PrioritizedPacketQueue \<Rightarrow> PrioritizedPacketQueue" where
  "push_now packet q =
     (let l = GetPriorityForType (pk_packet_type packet); s = pk_ssrc packet
      in q\<lparr>enqueue_times := enqueue_times q @ [(fresh_node q, last_update_time q)],
           fresh_node := fresh_node q + 1,
           size_packets := size_packets q + 1,
           size_packets_per_media_type := (size_packets_per_media_type q)
             (pk_packet_type packet := size_packets_per_media_type q (pk_packet_type packet) + 1),
           size_payload := size_payload q + PacketSize (queued_now packet q),
           pq_streams := (pq_streams q)(s := Some (snd (enqueued_stream packet q))),
           streams_by_prio := (streams_by_prio q)(l := (if fst (enqueued_stream packet q)
             then streams_by_prio q l @ [s] else streams_by_prio q l)),
           top_active_prio_level := (if top_active_prio_level q < 0 \<or> int l < top_active_prio_level q
             then int l else top_active_prio_level q)\<rparr>)"

lemma stream_or_new_case:
  "(case found of None \<Rightarrow> new_StreamQueue t | Some sq \<Rightarrow> sq) = stream_or_new t found"
  by (simp add: stream_or_new_def)

lemma Push_eq:
  "Push t packet q = map_option (\<lambda>q. cull_streams t (push_now packet q)) (UpdateAverageQueueTime t q)"
proof (cases "t < last_update_time q")
  case True
  then show ?thesis by (simp add: Push_def UpdateAverageQueueTime_eq Let_def)
next
  case False
  let ?pause = "pause_time_sum q + (if pq_paused q then t - last_update_time q else 0)"
  let ?e = "sq_EnqueuePacket \<lparr>qp_packet = packet, qp_enqueue_time = t - ?pause,
       qp_enqueue_time_iterator = fresh_node q\<rparr> (GetPriorityForType (pk_packet_type packet))
      (stream_or_new t (pq_streams q (pk_ssrc packet)))"
  obtain first sq where e: "?e = (first, sq)" by (cases ?e)
  let ?top = "top_active_prio_level q < 0 \<or> int (GetPriorityForType (pk_packet_type packet)) < top_active_prio_level q"
  show ?thesis
    using False e
    by (cases "pq_paused q"; cases first; cases ?top; cases q)
      (simp_all add: Push_def UpdateAverageQueueTime_eq Let_def push_now_def enqueued_stream_def
        queued_now_def fun_upd_idem stream_or_new_case)
qed

lemma sq_packets_enqueued:
  "sq_packets (snd (enqueued_stream packet q)) =
     (stream_view q (pk_ssrc packet))(GetPriorityForType (pk_packet_type packet) :=
       stream_view q (pk_ssrc packet) (GetPriorityForType (pk_packet_type packet)) @ [queued_now packet q])"
  "fst (enqueued_stream packet q) \<longleftrightarrow>
     stream_view q (pk_ssrc packet) (GetPriorityForType (pk_packet_type packet)) = []"
  by (auto simp: enqueued_stream_def stream_or_new_def sq_EnqueuePacket_def stream_view_def new_StreamQueue_def
      fun_eq_iff split: option.splits)

lemma push_now_view:
  "stream_view (push_now packet q) = (stream_view q)(pk_ssrc packet := (stream_view q (pk_ssrc packet))
     (GetPriorityForType (pk_packet_type packet) :=
       stream_view q (pk_ssrc packet) (GetPriorityForType (pk_packet_type packet)) @ [queued_now packet q]))"
  by (auto simp: push_now_def Let_def stream_view_def fun_eq_iff sq_packets_enqueued)

lemma push_now_tables:
  "streams_by_prio (push_now packet q) = (streams_by_prio q)(GetPriorityForType (pk_packet_type packet) :=
     if stream_view q (pk_ssrc packet) (GetPriorityForType (pk_packet_type packet)) = []
     then streams_by_prio q (GetPriorityForType (pk_packet_type packet)) @ [pk_ssrc packet]
     else streams_by_prio q (GetPriorityForType (pk_packet_type packet)))"
  by (simp add: push_now_def Let_def sq_packets_enqueued)

lemma push_now_levels:
  fixes packet q
  assumes "tables_ok (stream_view q) (streams_by_prio q)"
  defines "l \<equiv> GetPriorityForType (pk_packet_type packet)"
  shows "levels_in (stream_view (push_now packet q)) (streams_by_prio (push_now packet q)) =
    (levels_in (stream_view q) (streams_by_prio q))
      (l := level_push (pk_ssrc packet) (queued_now packet q)
        (levels_in (stream_view q) (streams_by_prio q) l))" (is "?L = ?R")
proof
  fix k
  let ?s = "pk_ssrc packet"
  note V = push_now_view [of packet q, folded l_def] and B = push_now_tables [of packet q, folded l_def]
  have d: "distinct (streams_by_prio q l)"
    and m: "?s \<in> set (streams_by_prio q l) \<longleftrightarrow> stream_view q ?s l \<noteq> []"
    using assms(1) by (auto simp: tables_ok_def)
  show "?L k = ?R k"
  proof (cases "k = l")
    case True
    have "level_push ?s (queued_now packet q) (map (\<lambda>x. (x, stream_view q x l)) (streams_by_prio q l)) =
      map (\<lambda>x. (x, ((\<lambda>x. stream_view q x l)(?s := stream_view q ?s l @ [queued_now packet q])) x))
        (if ?s \<in> set (streams_by_prio q l) then streams_by_prio q l else streams_by_prio q l @ [?s])"
      by (rule level_push_map) (use d m in auto)
    then show ?thesis
      using True m by (auto simp: levels_in_def V B)
  qed (auto simp: levels_in_def V B)
qed

lemma first_active_set:
  assumes "l < n" and "x \<noteq> []"
  shows "first_active (B(l := x)) [0..<n] (- 1) =
    (if first_active B [0..<n] (- 1) < 0 \<or> int l < first_active B [0..<n] (- 1)
     then int l else first_active B [0..<n] (- 1))"
proof (cases "find (\<lambda>k. B k \<noteq> []) [0..<n]")
  case None
  then have "find (\<lambda>k. (B(l := x)) k \<noteq> []) [0..<n] = Some l"
    using assms by (auto simp: find_upt find_upt_None)
  then show ?thesis using None by (simp add: first_active_find)
next
  case (Some m)
  then have "find (\<lambda>k. (B(l := x)) k \<noteq> []) [0..<n] = Some (if l < m then l else m)"
    using assms by (auto simp: find_upt)
  then show ?thesis using Some by (simp add: first_active_find)
qed

lemma keys_of_push:
  assumes "l < kNumPriorityLevels"
  shows "keys_of (f(l := f l @ [p])) = keys_of f + (if pk_is_key_frame (qp_packet p) then 1 else 0)"
  unfolding keys_of_def
  by (subst sum_update_one [OF assms, where f = "\<lambda>l. int (length (filter (\<lambda>p. pk_is_key_frame (qp_packet p)) (f l)))"]) auto

lemma keys_enqueued:
  assumes "keyframes_ok q"
  shows "sq_num_keyframe_packets (snd (enqueued_stream packet q)) =
    keys_of (sq_packets (snd (enqueued_stream packet q)))"
proof -
  have new: "keys_of (\<lambda>_. []) = 0" by (simp add: keys_of_def)
  have k: "pq_streams q (pk_ssrc packet) = Some sq \<Longrightarrow>
      sq_num_keyframe_packets sq = keys_of (stream_view q (pk_ssrc packet))" for sq
    using assms by (simp add: keyframes_ok_def stream_view_Some)
  have n: "pq_streams q (pk_ssrc packet) = None \<Longrightarrow> stream_view q (pk_ssrc packet) = (\<lambda>_. [])"
    by (simp add: stream_view_def fun_eq_iff)
  show ?thesis
    unfolding sq_packets_enqueued keys_of_push [OF prio_less]
    using k n new
    by (auto simp: enqueued_stream_def stream_or_new_def sq_EnqueuePacket_def new_StreamQueue_def
        Let_def queued_now_def split: option.splits)
qed

lemma counters_push:
  assumes "counters_ok M q"
  shows "counters_ok (add_mset (queued_now packet q) M) (push_now packet q)"
  using assms unfolding counters_ok_def
  by (simp add: push_now_def Let_def queued_now_def waited_def)

lemma nodes_push:
  assumes "nodes_ok M q"
  shows "nodes_ok (add_mset (queued_now packet q) M) (push_now packet q)"
  using assms unfolding nodes_ok_def
  by (auto simp: push_now_def Let_def queued_now_def sorted_append less_Suc_eq)

lemma queue_ok_push_now:
  assumes "queue_ok q"
  shows "queue_ok (push_now packet q)"
proof -
  let ?l = "GetPriorityForType (pk_packet_type packet)"
  let ?L = "levels_in (stream_view q) (streams_by_prio q)"
  have T: "tables_ok (stream_view q) (streams_by_prio q)" and Lab: "labels_ok (stream_view q)"
    and top: "top_active_prio_level q = first_active (streams_by_prio q) [0..<kNumPriorityLevels] (- 1)"
    and C: "counters_ok (held ?L) q" and N: "nodes_ok (held ?L) q" and K: "keyframes_ok q"
    using assms by (auto simp: queue_ok_def view_ok_def)
  have held: "held (levels_in (stream_view (push_now packet q)) (streams_by_prio (push_now packet q))) =
      add_mset (queued_now packet q) (held ?L)"
    by (simp add: push_now_levels [OF T] held_push)
  have "tables_ok (stream_view (push_now packet q)) (streams_by_prio (push_now packet q))"
    using T unfolding tables_ok_def push_now_view push_now_tables
    by (auto dest: leD)
  moreover have "labels_ok (stream_view (push_now packet q))"
    using Lab unfolding labels_ok_def push_now_view by (auto simp: queued_now_def)
  moreover have "top_active_prio_level (push_now packet q) =
      first_active (streams_by_prio (push_now packet q)) [0..<kNumPriorityLevels] (- 1)"
  proof -
    have "(if stream_view q (pk_ssrc packet) ?l = [] then streams_by_prio q ?l @ [pk_ssrc packet]
        else streams_by_prio q ?l) \<noteq> []"
      using tables_mem [OF T, of "pk_ssrc packet" ?l] by auto
    from first_active_set [OF prio_less this, of "streams_by_prio q" "pk_packet_type packet"] show ?thesis
      unfolding push_now_tables by (simp add: push_now_def Let_def top)
  qed
  moreover have "keyframes_ok (push_now packet q)"
    using K keys_enqueued [OF K] by (auto simp: keyframes_ok_def push_now_def Let_def)
  ultimately show ?thesis
    by (simp add: queue_ok_def view_ok_def held counters_push [OF C] nodes_push [OF N])
qed

lemma cull_ok:
  assumes "queue_ok q"
  shows "queue_ok (cull_streams t q)" "queue_abs (cull_streams t q) = queue_abs q"
proof -
  have T: "tables_ok (stream_view q) (streams_by_prio q)" using assms by (simp add: queue_ok_def view_ok_def)
  have "stream_view q s l = []" if "pq_streams q s = Some sq" "sq_IsEmpty sq" for s sq l
  proof (cases "l < kNumPriorityLevels")
    case True
    then show ?thesis using that by (simp add: stream_view_def sq_IsEmpty_def list_all_iff)
  next
    case False
    then show ?thesis using tables_high [OF T] by simp
  qed
  then have v: "stream_view (cull_streams t q) = stream_view q"
    by (auto simp: fun_eq_iff cull_streams_def stream_view_def split: option.splits)
  have k: "keyframes_ok (cull_streams t q)"
    using assms by (auto simp: queue_ok_def keyframes_ok_def cull_streams_def split: option.splits if_splits)
  have o: "streams_by_prio (cull_streams t q) = streams_by_prio q"
    "top_active_prio_level (cull_streams t q) = top_active_prio_level q"
    "counters_ok M (cull_streams t q) = counters_ok M q" "nodes_ok M (cull_streams t q) = nodes_ok M q"
    "waited (cull_streams t q) = waited q" "pq_paused (cull_streams t q) = pq_paused q"
    "last_update_time (cull_streams t q) = last_update_time q" for M
    by (simp_all add: cull_streams_def)
  show "queue_ok (cull_streams t q)" "queue_abs (cull_streams t q) = queue_abs q"
    using assms k by (simp_all add: queue_ok_def view_ok_def queue_abs_def v o)
qed

lemma queue_abs_push_now:
  fixes packet q
  assumes "queue_ok q"
  defines "l \<equiv> GetPriorityForType (pk_packet_type packet)"
  shows "queue_abs (push_now packet q) = (queue_abs q)\<lparr>sp_levels := (sp_levels (queue_abs q))
    (l := level_push (pk_ssrc packet) (packet, 0) (sp_levels (queue_abs q) l))\<rparr>"
proof -
  have T: "tables_ok (stream_view q) (streams_by_prio q)" using assms by (simp add: queue_ok_def view_ok_def)
  have w: "waited (push_now packet q) = waited q" by (simp add: push_now_def Let_def)
  have z: "qp_packet (queued_now packet q) = packet" "waited q (queued_now packet q) = 0"
    by (simp_all add: queued_now_def waited_def)
  show ?thesis
    unfolding queue_abs_def push_now_levels [OF T] w l_def
    by (auto simp: fun_eq_iff map_level_push z push_now_def Let_def)
qed

lemma queue_step_push:
  assumes "queue_ok q"
  shows "map_option queue_abs (Push t packet q) = spec_push t packet (queue_abs q)"
    and "Push t packet q = Some q' \<Longrightarrow> queue_ok q'"
proof -
  show "map_option queue_abs (Push t packet q) = spec_push t packet (queue_abs q)"
  proof (cases "UpdateAverageQueueTime t q")
    case None
    then have "spec_tick t (queue_abs q) = None" using queue_abs_tick [of t q] by simp
    then show ?thesis using None by (simp add: Push_eq spec_push_def)
  next
    case (Some q1)
    have "queue_ok q1" by (rule queue_ok_tick [OF assms Some])
    moreover have "spec_tick t (queue_abs q) = Some (queue_abs q1)"
      using queue_abs_tick [of t q] Some by simp
    ultimately show ?thesis
      by (simp add: Push_eq spec_push_def Some Let_def cull_ok(2) queue_ok_push_now queue_abs_push_now)
  qed
  show "Push t packet q = Some q' \<Longrightarrow> queue_ok q'"
    using queue_ok_tick [OF assms] cull_ok(1) queue_ok_push_now by (auto simp: Push_eq)
qed

section \<open>Removing packets\<close>

lemma nodes_dequeue:
  assumes "image_mset f (add_mset p M) = mset xs" and "distinct xs"
  shows "image_mset f M = mset (filter (\<lambda>x. x \<noteq> f p) xs)"
proof -
  have "count (add_mset (f p) (image_mset f M)) (f p) \<le> 1"
    using assms by (simp add: distinct_count_atmost_1)
  then have "f p \<notin># image_mset f M" by (simp only: not_in_iff) simp
  then have "filter_mset (\<lambda>x. x \<noteq> f p) (image_mset f M) = image_mset f M"
    by (auto simp: filter_mset_eq_conv) (metis image_eqI)
  moreover have "mset (filter (\<lambda>x. x \<noteq> f p) xs) = filter_mset (\<lambda>x. x \<noteq> f p) (add_mset (f p) (image_mset f M))"
    using assms(1) by (simp flip: mset_filter)
  ultimately show ?thesis by simp
qed

definition same_frame :: "PrioritizedPacketQueue \<Rightarrow> PrioritizedPacketQueue \<Rightarrow> bool" where
  "same_frame q q' \<longleftrightarrow> pq_streams q' = pq_streams q \<and> pq_paused q' = pq_paused q \<and>
     last_update_time q' = last_update_time q \<and> pause_time_sum q' = pause_time_sum q"

lemma same_frame_waited: "same_frame q q' \<Longrightarrow> waited q' = waited q"
  by (auto simp: same_frame_def waited_def fun_eq_iff)

lemma same_frame_view: "same_frame q q' \<Longrightarrow> stream_view q' = stream_view q"
  by (auto simp: same_frame_def stream_view_def fun_eq_iff)

lemma same_frame_trans: "same_frame q q' \<Longrightarrow> same_frame q' q'' \<Longrightarrow> same_frame q q''"
  by (simp add: same_frame_def)

lemma same_frame_refl [simp]: "same_frame q q"
  by (simp add: same_frame_def)

lemma dequeue_internal:
  assumes "counters_ok (add_mset p M) q" and "nodes_ok (add_mset p M) q"
  obtains q' where
    "DequeuePacketInternal p q = Some ((qp_packet p)\<lparr>pk_time_in_send_queue := Some (waited q p)\<rparr>, q')"
    "counters_ok M q'" "nodes_ok M q'" "same_frame q q'"
    "streams_by_prio q' = streams_by_prio q" "top_active_prio_level q' = top_active_prio_level q"
proof -
  let ?n = "qp_enqueue_time_iterator p" and ?ty = "pk_packet_type (qp_packet p)"
  let ?q = "q\<lparr>size_packets := size_packets q - 1,
     size_packets_per_media_type := (size_packets_per_media_type q)(?ty := size_packets_per_media_type q ?ty - 1),
     size_payload := size_payload q - PacketSize p, queue_time_sum := queue_time_sum q - waited q p,
     enqueue_times := filter (\<lambda>e. fst e \<noteq> ?n) (enqueue_times q)\<rparr>"
  have n: "image_mset qp_enqueue_time_iterator (add_mset p M) = mset (map fst (enqueue_times q))"
    and d: "distinct (map fst (enqueue_times q))"
    using assms(2) by (auto simp: nodes_ok_def)
  have f: "map fst (filter (\<lambda>e. fst e \<noteq> ?n) (enqueue_times q)) = filter (\<lambda>x. x \<noteq> ?n) (map fst (enqueue_times q))"
    by (simp add: filter_map o_def)
  have "?n \<in># mset (map fst (enqueue_times q))" unfolding n [symmetric] by simp
  then have "DequeuePacketInternal p q = Some ((qp_packet p)\<lparr>pk_time_in_send_queue := Some (waited q p)\<rparr>, ?q)"
    by (auto simp: DequeuePacketInternal_def Let_def waited_def)
  moreover have "counters_ok M ?q"
    using assms(1) by (auto simp: counters_ok_def)
  moreover have "nodes_ok M ?q"
    using assms(2) nodes_dequeue [OF n d] distinct_filter [OF d] sorted_filter [of snd]
    by (auto simp: nodes_ok_def f)
  ultimately show thesis using that by (simp add: same_frame_def)
qed

lemma dequeue_each_ok:
  assumes "counters_ok (mset ps + M) q" and "nodes_ok (mset ps + M) q"
  shows "\<exists>q'. dequeue_each ps q = Some q' \<and> counters_ok M q' \<and> nodes_ok M q' \<and> same_frame q q' \<and>
    streams_by_prio q' = streams_by_prio q \<and> top_active_prio_level q' = top_active_prio_level q"
  using assms
proof (induction ps arbitrary: q)
  case (Cons p ps)
  have "counters_ok (add_mset p (mset ps + M)) q" "nodes_ok (add_mset p (mset ps + M)) q"
    using Cons.prems by simp_all
  then obtain q1 where
    q1: "DequeuePacketInternal p q = Some ((qp_packet p)\<lparr>pk_time_in_send_queue := Some (waited q p)\<rparr>, q1)"
      "counters_ok (mset ps + M) q1" "nodes_ok (mset ps + M) q1" "same_frame q q1"
      "streams_by_prio q1 = streams_by_prio q" "top_active_prio_level q1 = top_active_prio_level q"
    by (rule dequeue_internal)
  from Cons.IH [OF q1(2,3)] show ?case using q1 by (auto intro: same_frame_trans)
qed simp

lemma size_zero:
  assumes "tables_ok V B" and "counters_ok (held (levels_in V B)) q"
  shows "size_packets q = 0 \<longleftrightarrow> (\<forall>l<kNumPriorityLevels. B l = [])"
proof -
  have level: "(\<forall>s\<in>set (B l). V s l = []) \<longleftrightarrow> B l = []" for l
    using tables_mem [OF assms(1), of _ l] by (cases "B l") auto
  have "size_packets q = 0 \<longleftrightarrow> held (levels_in V B) = {#}"
    using assms(2) by (auto simp: counters_ok_def)
  also have "\<dots> \<longleftrightarrow> (\<forall>l<kNumPriorityLevels. \<forall>s\<in>set (B l). V s l = [])"
    by (auto simp: held_empty levels_in_def)
  finally show ?thesis by (simp only: level)
qed

lemma first_active_eq:
  "first_active B [0..<n] (- 1) = int l \<longleftrightarrow> l < n \<and> B l \<noteq> [] \<and> (\<forall>k<l. B k = [])"
  by (auto simp: first_active_find find_upt find_upt_None split: option.splits) (metis linorder_neqE_nat)

lemma first_active_shrink:
  assumes "B i \<noteq> []" and "x \<noteq> [] \<or> first_active B [0..<n] (- 1) \<noteq> int i"
  shows "first_active (B(i := x)) [0..<n] (- 1) = first_active B [0..<n] (- 1)"
proof (cases "find (\<lambda>k. B k \<noteq> []) [0..<n]")
  case None
  then have "find (\<lambda>k. (B(i := x)) k \<noteq> []) [0..<n] = None"
    using assms by (auto simp: find_upt_None)
  then show ?thesis using None by (simp only: first_active_find)
next
  case (Some m)
  then have "x \<noteq> [] \<or> m \<noteq> i" using assms(2) by (auto simp: first_active_find)
  then have "find (\<lambda>k. (B(i := x)) k \<noteq> []) [0..<n] = Some m"
    using Some assms(1) by (auto simp: find_upt)
  then show ?thesis using Some by (simp only: first_active_find)
qed

lemma MaybeUpdateTopPrioLevel_ok:
  assumes "tables_ok V (streams_by_prio q)"
    and "counters_ok (held (levels_in V (streams_by_prio q))) q"
    and "top_active_prio_level q = int l" and "l < kNumPriorityLevels"
    and "\<And>k. k < l \<Longrightarrow> streams_by_prio q k = []"
  shows "top_active_prio_level (MaybeUpdateTopPrioLevel q) =
      first_active (streams_by_prio q) [0..<kNumPriorityLevels] (- 1)"
    and "MaybeUpdateTopPrioLevel q =
      q\<lparr>top_active_prio_level := top_active_prio_level (MaybeUpdateTopPrioLevel q)\<rparr>"
proof -
  let ?B = "streams_by_prio q"
  show "top_active_prio_level (MaybeUpdateTopPrioLevel q) = first_active ?B [0..<kNumPriorityLevels] (- 1)"
  proof (cases "?B l = []")
    case False
    then have "first_active ?B [0..<kNumPriorityLevels] (- 1) = int l"
      unfolding first_active_eq using assms(4,5) by simp
    then show ?thesis using False assms(3) by (simp add: MaybeUpdateTopPrioLevel_def)
  next
    case True
    show ?thesis
    proof (cases "find (\<lambda>k. ?B k \<noteq> []) [0..<kNumPriorityLevels]")
      case None
      then have "size_packets q = 0" using size_zero [OF assms(1,2)] by (simp add: find_upt_None)
      then show ?thesis using True None assms(3) by (simp add: MaybeUpdateTopPrioLevel_def first_active_find)
    next
      case (Some m)
      then have "size_packets q \<noteq> 0" using size_zero [OF assms(1,2)] by (auto simp: find_upt)
      then show ?thesis using True Some assms(3) by (simp add: MaybeUpdateTopPrioLevel_def first_active_find)
    qed
  qed
  show "MaybeUpdateTopPrioLevel q =
      q\<lparr>top_active_prio_level := top_active_prio_level (MaybeUpdateTopPrioLevel q)\<rparr>"
    by (cases q) (simp add: MaybeUpdateTopPrioLevel_def)
qed

lemma tables_drop:
  assumes "tables_ok V B" and "i < kNumPriorityLevels" and "distinct x"
    and "set x = (if ps = [] then set (B i) - {s} else insert s (set (B i)))"
  shows "tables_ok (V(s := (V s)(i := ps))) (B(i := x))"
  using assms unfolding tables_ok_def by auto

lemma labels_drop: "labels_ok V \<Longrightarrow> set ps \<subseteq> set (V s i) \<Longrightarrow> labels_ok (V(s := (V s)(i := ps)))"
  by (simp add: labels_ok_def) blast

section \<open>Pop\<close>

lemma Pop_empty:
  assumes "queue_ok q" and "size_packets q = 0"
  shows "spec_pop (queue_abs q) = (None, queue_abs q)"
proof -
  have "\<forall>l<kNumPriorityLevels. streams_by_prio q l = []"
    using assms size_zero [of "stream_view q" "streams_by_prio q" q] by (auto simp: queue_ok_def view_ok_def)
  then have "find (\<lambda>l. sp_levels (queue_abs q) l \<noteq> []) [0..<kNumPriorityLevels] = None"
    by (auto simp: find_upt_None queue_abs_sel levels_in_def)
  then show ?thesis by (simp only: spec_pop_def option.case)
qed

text \<open>The stream served by \<^const>\<open>Pop\<close>: the first one of the first level that has any.\<close>

lemma Pop_target:
  assumes "queue_ok q" and "size_packets q \<noteq> 0"
  obtains l s others sq p ps where
    "top_active_prio_level q = int l" "l < kNumPriorityLevels"
    "\<And>k. k < l \<Longrightarrow> streams_by_prio q k = []"
    "streams_by_prio q l = s # others" "pq_streams q s = Some sq" "sq_packets sq l = p # ps"
proof -
  have v: "tables_ok (stream_view q) (streams_by_prio q)"
    "counters_ok (held (levels_in (stream_view q) (streams_by_prio q))) q"
    and top: "top_active_prio_level q = first_active (streams_by_prio q) [0..<kNumPriorityLevels] (- 1)"
    using assms(1) by (auto simp: queue_ok_def view_ok_def)
  have "find (\<lambda>l. streams_by_prio q l \<noteq> []) [0..<kNumPriorityLevels] \<noteq> None"
    using assms(2) size_zero [OF v] by (auto simp: find_upt_None)
  then obtain l where l: "find (\<lambda>l. streams_by_prio q l \<noteq> []) [0..<kNumPriorityLevels] = Some l" by blast
  then have t: "top_active_prio_level q = int l" by (simp add: top first_active_find)
  from l have l': "l < kNumPriorityLevels" "streams_by_prio q l \<noteq> []" "\<And>k. k < l \<Longrightarrow> streams_by_prio q k = []"
    by (auto simp: find_upt)
  from l'(2) obtain s others where B: "streams_by_prio q l = s # others" by (cases "streams_by_prio q l") auto
  then have "stream_view q s l \<noteq> []" using tables_mem [OF v(1), of s l] by simp
  then obtain sq where sq: "pq_streams q s = Some sq" "sq_packets sq l \<noteq> []"
    by (auto simp: stream_view_def split: option.splits)
  then obtain p ps where "sq_packets sq l = p # ps" by (cases "sq_packets sq l") auto
  then show thesis using that t l'(1,3) B sq(1) by blast
qed

lemma keys_of_pop:
  assumes "l < kNumPriorityLevels" and "f l = p # ps"
  shows "keys_of (f(l := ps)) = keys_of f - (if pk_is_key_frame (qp_packet p) then 1 else 0)"
  unfolding keys_of_def
  by (subst sum_update_one [OF assms(1), where f = "\<lambda>l. int (length (filter (\<lambda>p. pk_is_key_frame (qp_packet p)) (f l)))"])
    (auto simp: assms(2))

text \<open>The view and the service tables after a packet of stream \<open>s\<close> has left level \<open>l\<close>.\<close>

definition pop_view :: "uint32_t \<Rightarrow> nat \<Rightarrow> QueuedPacket list \<Rightarrow> view \<Rightarrow> view" where
  "pop_view s l ps V = V(s := (V s)(l := ps))"

definition pop_tables :: "uint32_t \<Rightarrow> nat \<Rightarrow> QueuedPacket list \<Rightarrow> (nat \<Rightarrow> uint32_t list) \<Rightarrow> nat \<Rightarrow> uint32_t list" where
  "pop_tables s l ps B = B(l := tl (B l) @ (if ps = [] then [] else [s]))"

lemma pop_level:
  assumes "tables_ok V B" and "l < kNumPriorityLevels" and "B l = s # others" and "V s l = p # ps"
  shows "tables_ok (pop_view s l ps V) (pop_tables s l ps B)"
    and "level_pop (levels_in V B l) = Some (p, levels_in (pop_view s l ps V) (pop_tables s l ps B) l)"
    and "levels_in (pop_view s l ps V) (pop_tables s l ps B) =
      (levels_in V B)(l := levels_in (pop_view s l ps V) (pop_tables s l ps B) l)"
    and "held (levels_in V B) = add_mset p (held (levels_in (pop_view s l ps V) (pop_tables s l ps B)))"
proof -
  have d: "s \<notin> set others" "distinct others" using tables_distinct [OF assms(1), of l] assms(3) by simp_all
  show "tables_ok (pop_view s l ps V) (pop_tables s l ps B)"
    unfolding pop_view_def pop_tables_def by (rule tables_drop [OF assms(1,2)]) (use d assms(3) in auto)
  show 2: "level_pop (levels_in V B l) = Some (p, levels_in (pop_view s l ps V) (pop_tables s l ps B) l)"
    using d by (auto simp: levels_in_def assms(3,4) pop_view_def pop_tables_def)
  show 3: "levels_in (pop_view s l ps V) (pop_tables s l ps B) =
      (levels_in V B)(l := levels_in (pop_view s l ps V) (pop_tables s l ps B) l)"
    by (auto simp: levels_in_def fun_eq_iff pop_view_def pop_tables_def)
  show "held (levels_in V B) = add_mset p (held (levels_in (pop_view s l ps V) (pop_tables s l ps B)))"
    using held_pop [where L = "levels_in V B", OF assms(2) 2] 3 by simp
qed

lemma pop_stream:
  assumes "sq_packets sq l = p # ps"
  obtains sq' where "sq_DequeuePacket l sq = Some (p, sq')" "sq_packets sq' = (sq_packets sq)(l := ps)"
    "sq_num_keyframe_packets sq' =
       sq_num_keyframe_packets sq - (if pk_is_key_frame (qp_packet p) then 1 else 0)"
  using assms by (cases "pk_is_key_frame (qp_packet p)") (simp_all add: sq_DequeuePacket_def Let_def)

lemma pop_top:
  assumes "tables_ok V (pop_tables s l ps B)" and "counters_ok (held (levels_in V (pop_tables s l ps B))) q"
    and "top_active_prio_level q = int l" and "l < kNumPriorityLevels"
    and "\<And>k. k < l \<Longrightarrow> B k = []" and "B l = s # others"
  shows "(if ps \<noteq> [] then q\<lparr>streams_by_prio := B(l := others @ [s])\<rparr>
      else MaybeUpdateTopPrioLevel (q\<lparr>streams_by_prio := B(l := others)\<rparr>)) =
    q\<lparr>streams_by_prio := pop_tables s l ps B,
      top_active_prio_level := first_active (pop_tables s l ps B) [0..<kNumPriorityLevels] (- 1)\<rparr>"
proof (cases "ps = []")
  case True
  let ?q = "q\<lparr>streams_by_prio := pop_tables s l ps B\<rparr>"
  have m: "top_active_prio_level (MaybeUpdateTopPrioLevel ?q) =
      first_active (streams_by_prio ?q) [0..<kNumPriorityLevels] (- 1)"
    "MaybeUpdateTopPrioLevel ?q = ?q\<lparr>top_active_prio_level := top_active_prio_level (MaybeUpdateTopPrioLevel ?q)\<rparr>"
    by (rule MaybeUpdateTopPrioLevel_ok [of V _ l]; use assms in \<open>simp add: pop_tables_def\<close>)+
  moreover have "pop_tables s l ps B = B(l := others)" using True assms(6) by (simp add: pop_tables_def)
  ultimately show ?thesis using True by simp
next
  case False
  have "first_active (pop_tables s l ps B) [0..<kNumPriorityLevels] (- 1) = int l"
    unfolding first_active_eq using False assms(4,5) by (simp add: pop_tables_def)
  then show ?thesis using False assms(3,6) by (cases q) (simp add: pop_tables_def)
qed

text \<open>The effect of \<^const>\<open>Pop\<close> on a non-empty queue.\<close>

lemma Pop_effect:
  assumes "queue_ok q" and "top_active_prio_level q = int l" and l: "l < kNumPriorityLevels"
    and below: "\<And>k. k < l \<Longrightarrow> streams_by_prio q k = []"
    and B: "streams_by_prio q l = s # others" and sq: "pq_streams q s = Some sq" "sq_packets sq l = p # ps"
    and "size_packets q \<noteq> 0"
  obtains q' where
    "Pop q = Some (Some ((qp_packet p)\<lparr>pk_time_in_send_queue := Some (waited q p)\<rparr>), q')"
    "stream_view q' = pop_view s l ps (stream_view q)" "waited q' = waited q" "pq_paused q' = pq_paused q"
    "last_update_time q' = last_update_time q" "streams_by_prio q' = pop_tables s l ps (streams_by_prio q)"
    "queue_ok q'"
proof -
  let ?V = "pop_view s l ps (stream_view q)" and ?B = "pop_tables s l ps (streams_by_prio q)"
  have T: "tables_ok (stream_view q) (streams_by_prio q)" and Lab: "labels_ok (stream_view q)"
    and C: "counters_ok (held (levels_in (stream_view q) (streams_by_prio q))) q"
    and N: "nodes_ok (held (levels_in (stream_view q) (streams_by_prio q))) q" and K: "keyframes_ok q"
    using assms(1) by (auto simp: queue_ok_def view_ok_def)
  have V: "stream_view q s l = p # ps" "stream_view q s = sq_packets sq"
    using sq by (simp_all add: stream_view_Some)
  note P = pop_level [OF T l, OF B V(1)]
  obtain sq' where D: "sq_DequeuePacket l sq = Some (p, sq')"
    and sq': "sq_packets sq' = (sq_packets sq)(l := ps)" "sq_num_keyframe_packets sq' =
       sq_num_keyframe_packets sq - (if pk_is_key_frame (qp_packet p) then 1 else 0)"
    using pop_stream [OF sq(2)] by blast
  let ?q = "q\<lparr>pq_streams := (pq_streams q)(s := Some sq')\<rparr>"
  have "counters_ok (add_mset p (held (levels_in ?V ?B))) ?q" "nodes_ok (add_mset p (held (levels_in ?V ?B))) ?q"
    using C N by (simp_all add: P(4))
  then obtain q1 where q1: "DequeuePacketInternal p ?q =
      Some ((qp_packet p)\<lparr>pk_time_in_send_queue := Some (waited ?q p)\<rparr>, q1)"
      "counters_ok (held (levels_in ?V ?B)) q1" "nodes_ok (held (levels_in ?V ?B)) q1" "same_frame ?q q1"
      "streams_by_prio q1 = streams_by_prio ?q" "top_active_prio_level q1 = top_active_prio_level ?q"
    by (rule dequeue_internal)
  define q3 where "q3 = q1\<lparr>streams_by_prio := ?B,
      top_active_prio_level := first_active ?B [0..<kNumPriorityLevels] (- 1)\<rparr>"
  have frame: "same_frame ?q q3" using q1(4) by (simp add: q3_def same_frame_def)
  have v3: "stream_view q3 = ?V" using same_frame_view [OF frame] sq' V by (simp add: pop_view_def)
  have "(if ps \<noteq> [] then q1\<lparr>streams_by_prio := (streams_by_prio q)(l := others @ [s])\<rparr>
      else MaybeUpdateTopPrioLevel (q1\<lparr>streams_by_prio := (streams_by_prio q)(l := others)\<rparr>)) = q3"
    unfolding q3_def by (rule pop_top [OF P(1) q1(2)]) (use q1(6) assms(2) l below B in auto)
  then have "Pop q = Some (Some ((qp_packet p)\<lparr>pk_time_in_send_queue := Some (waited q p)\<rparr>), q3)"
    using assms(2,8) B sq(1) D sq' q1(1,5) by (simp add: Pop_def Let_def HasPacketsAtPrio_def split: if_splits)
  moreover have "keyframes_ok q3"
    using K frame sq keys_of_pop [where f = "sq_packets sq", OF l sq(2)] unfolding keyframes_ok_def same_frame_def by (auto simp: sq')
  moreover have "labels_ok ?V" unfolding pop_view_def by (rule labels_drop [OF Lab]) (simp add: V(1) subset_insertI)
  ultimately show thesis
    using that [of q3] P(1) q1(2,3) same_frame_waited [OF frame] frame
    by (simp add: queue_ok_def view_ok_def v3) (simp add: q3_def same_frame_def)
qed

lemma queue_step_pop:
  assumes "queue_ok q"
  shows "\<exists>q'. Pop q = Some (fst (spec_pop (queue_abs q)), q') \<and>
    queue_abs q' = snd (spec_pop (queue_abs q)) \<and> queue_ok q'"
proof (cases "size_packets q = 0")
  case True
  then show ?thesis using Pop_empty [OF assms True] assms by (simp add: Pop_def)
next
  case False
  obtain l s others sq p ps where
    t: "top_active_prio_level q = int l" and l: "l < kNumPriorityLevels"
    and below: "\<And>k. k < l \<Longrightarrow> streams_by_prio q k = []"
    and B: "streams_by_prio q l = s # others" and sq: "pq_streams q s = Some sq" "sq_packets sq l = p # ps"
    using Pop_target [OF assms False] by metis
  have V: "stream_view q s l = p # ps" using sq by (simp add: stream_view_Some)
  have T: "tables_ok (stream_view q) (streams_by_prio q)" using assms by (simp add: queue_ok_def view_ok_def)
  note P = pop_level [OF T l, OF B V]
  let ?L = "levels_in (pop_view s l ps (stream_view q)) (pop_tables s l ps (streams_by_prio q))"
  obtain q' where q': "Pop q = Some (Some ((qp_packet p)\<lparr>pk_time_in_send_queue := Some (waited q p)\<rparr>), q')"
    "stream_view q' = pop_view s l ps (stream_view q)" "waited q' = waited q" "pq_paused q' = pq_paused q"
    "last_update_time q' = last_update_time q" "streams_by_prio q' = pop_tables s l ps (streams_by_prio q)"
    "queue_ok q'"
    using Pop_effect [OF assms t l below B sq False] by blast
  have "find (\<lambda>l. sp_levels (queue_abs q) l \<noteq> []) [0..<kNumPriorityLevels] = Some l"
    using l below B by (auto simp: find_upt queue_abs_sel levels_in_def)
  moreover have "level_pop (sp_levels (queue_abs q) l) = Some ((qp_packet p, waited q p),
      map_level (\<lambda>p. (qp_packet p, waited q p)) (?L l))"
    by (simp add: queue_abs_sel map_level_pop P(2))
  moreover have "queue_abs q' = (queue_abs q)\<lparr>sp_levels := (sp_levels (queue_abs q))
      (l := map_level (\<lambda>p. (qp_packet p, waited q p)) (?L l))\<rparr>"
    unfolding queue_abs_def q' by (subst P(3)) (auto simp: fun_eq_iff)
  ultimately have "spec_pop (queue_abs q) =
      (Some ((qp_packet p)\<lparr>pk_time_in_send_queue := Some (waited q p)\<rparr>), queue_abs q')"
    by (simp add: spec_pop_def)
  then show ?thesis using q' by simp
qed

section \<open>Removing a stream\<close>

definition drop_view :: "uint32_t \<Rightarrow> nat set \<Rightarrow> view \<Rightarrow> view" where
  "drop_view s I V = V(s := (\<lambda>l. if l \<in> I then [] else V s l))"

definition drop_tables :: "uint32_t \<Rightarrow> nat set \<Rightarrow> (nat \<Rightarrow> uint32_t list) \<Rightarrow> nat \<Rightarrow> uint32_t list" where
  "drop_tables s I B l = (if l \<in> I then filter (\<lambda>x. x \<noteq> s) (B l) else B l)"

lemma drop_level:
  assumes "tables_ok V B" and "i < kNumPriorityLevels"
  shows "tables_ok (drop_view s {i} V) (drop_tables s {i} B)"
    and "held (levels_in V B) = mset (V s i) + held (levels_in (drop_view s {i} V) (drop_tables s {i} B))"
proof -
  let ?V = "drop_view s {i} V" and ?B = "drop_tables s {i} B"
  have V: "?V = V(s := (V s)(i := []))" and B: "?B = B(i := filter (\<lambda>x. x \<noteq> s) (B i))"
    by (auto simp: drop_view_def drop_tables_def fun_eq_iff)
  show "tables_ok ?V ?B"
    unfolding V B by (rule tables_drop [OF assms]) (auto simp: tables_distinct [OF assms(1)])
  have lev: "levels_in ?V ?B = (levels_in V B)(i := levels_in ?V ?B i)"
    by (auto simp: levels_in_def fun_eq_iff V B)
  have level: "mset (concat (map snd (map (\<lambda>x. (x, V x i)) ss))) =
      (if s \<in> set ss then mset (V s i) else {#}) + mset (concat (map snd (map (\<lambda>x. (x, ?V x i)) (filter (\<lambda>x. x \<noteq> s) ss))))"
    if "distinct ss" for ss
    using that by (induction ss) (auto simp: V)
  have "mset (concat (map snd (levels_in V B i))) = mset (V s i) + mset (concat (map snd (levels_in ?V ?B i)))"
    using level [OF tables_distinct [OF assms(1)], of i] tables_mem [OF assms(1), of s i]
    by (auto simp: levels_in_def B split: if_splits)
  with held_update [OF assms(2), of "levels_in V B" "levels_in ?V ?B i"]
  have "mset (V s i) + held (levels_in ?V ?B) + mset (concat (map snd (levels_in ?V ?B i))) =
      held (levels_in V B) + mset (concat (map snd (levels_in ?V ?B i)))"
    unfolding lev [symmetric] by (simp only: ac_simps)
  then show "held (levels_in V B) = mset (V s i) + held (levels_in ?V ?B)"
    by (simp only: add_right_cancel)
qed

lemma drop_more:
  "drop_view s I (drop_view s J V) = drop_view s (I \<union> J) V"
  "drop_tables s I (drop_tables s J B) = drop_tables s (I \<union> J) B"
  by (auto simp: drop_view_def drop_tables_def fun_eq_iff)

lemma drop_nothing:
  assumes "tables_ok V B" and "V s i = []"
  shows "drop_view s {i} V = V" "drop_tables s {i} B = B"
proof -
  show "drop_view s {i} V = V" using assms(2) by (auto simp: drop_view_def fun_eq_iff)
  have "s \<notin> set (B i)" using assms tables_mem by metis
  then show "drop_tables s {i} B = B" by (auto simp: drop_tables_def fun_eq_iff filter_id_conv)
qed

text \<open>The table update of one round of the loop of \<^const>\<open>RemovePacketsForSsrc\<close>.\<close>

lemma remove_top:
  assumes "tables_ok V (drop_tables s {i} B)" and "counters_ok (held (levels_in V (drop_tables s {i} B))) q"
    and i: "i < kNumPriorityLevels" "distinct (B i)" "s \<in> set (B i)" and B: "streams_by_prio q = B"
    and top: "top_active_prio_level q = first_active B [0..<kNumPriorityLevels] (- 1)"
  shows "(if length (streams_by_prio q i) = 1
      then let q = q\<lparr>streams_by_prio := (streams_by_prio q)(i := tl (streams_by_prio q i))\<rparr>
           in if int i = top_active_prio_level q then MaybeUpdateTopPrioLevel q else q
      else q\<lparr>streams_by_prio := (streams_by_prio q)(i := filter (\<lambda>x. x \<noteq> s) (streams_by_prio q i))\<rparr>) =
    q\<lparr>streams_by_prio := drop_tables s {i} B,
      top_active_prio_level := first_active (drop_tables s {i} B) [0..<kNumPriorityLevels] (- 1)\<rparr>"
proof -
  let ?B = "drop_tables s {i} B" and ?q = "q\<lparr>streams_by_prio := drop_tables s {i} B\<rparr>"
  have upd: "B(i := filter (\<lambda>x. x \<noteq> s) (B i)) = ?B" by (auto simp: drop_tables_def fun_eq_iff)
  have keep: "q\<lparr>streams_by_prio := ?B, top_active_prio_level := first_active ?B [0..<kNumPriorityLevels] (- 1)\<rparr> = ?q"
    if "filter (\<lambda>x. x \<noteq> s) (B i) \<noteq> [] \<or> top_active_prio_level q \<noteq> int i"
  proof -
    have "first_active ?B [0..<kNumPriorityLevels] (- 1) = top_active_prio_level q"
      unfolding top upd [symmetric] by (rule first_active_shrink) (use i(3) that top in auto)
    then show ?thesis by (cases q) simp
  qed
  show ?thesis
  proof (cases "length (B i) = 1")
    case False
    have "filter (\<lambda>x. x \<noteq> s) (B i) \<noteq> []"
    proof
      assume "filter (\<lambda>x. x \<noteq> s) (B i) = []"
      then have "set (B i) \<subseteq> {s}" by (auto simp: filter_empty_conv)
      then have "card (set (B i)) \<le> 1" using card_mono [of "{s}" "set (B i)"] by simp
      then show False using False i by (cases "B i") (auto simp: distinct_card)
    qed
    then show ?thesis using False B keep upd by simp
  next
    case True
    then have one: "B i = [s]" using i(3) by (cases "B i") auto
    have tl: "B(i := tl (B i)) = ?B" using one upd by simp
    show ?thesis
    proof (cases "int i = top_active_prio_level q")
      case False
      then show ?thesis using True B tl keep by auto
    next
      case at: True
      have below: "k < i \<Longrightarrow> B k = []" for k
        using at top first_active_eq [of B kNumPriorityLevels i] by simp
      have "top_active_prio_level (MaybeUpdateTopPrioLevel ?q) =
          first_active (streams_by_prio ?q) [0..<kNumPriorityLevels] (- 1)"
        "MaybeUpdateTopPrioLevel ?q = ?q\<lparr>top_active_prio_level := top_active_prio_level (MaybeUpdateTopPrioLevel ?q)\<rparr>"
        by (rule MaybeUpdateTopPrioLevel_ok [of V _ i]; use assms at below in \<open>simp add: drop_tables_def\<close>)+
      then show ?thesis using True B tl at by (simp add: Let_def)
    qed
  qed
qed

lemma remove_round:
  assumes "view_ok V q" and "i < kNumPriorityLevels" and "V s i \<noteq> []" and "pbp i = V s i"
  obtains q' where
    "\<And>is. remove_levels s pbp (i # is) q = remove_levels s pbp is q'" "view_ok (drop_view s {i} V) q'"
    "streams_by_prio q' = drop_tables s {i} (streams_by_prio q)" "same_frame q q'"
proof -
  let ?B = "streams_by_prio q" and ?V' = "drop_view s {i} V" and ?B' = "drop_tables s {i} (streams_by_prio q)"
  have T: "tables_ok V ?B" and Lab: "labels_ok V"
    and top: "top_active_prio_level q = first_active ?B [0..<kNumPriorityLevels] (- 1)"
    and C: "counters_ok (held (levels_in V ?B)) q" and N: "nodes_ok (held (levels_in V ?B)) q"
    using assms(1) by (auto simp: view_ok_def)
  note D = drop_level [OF T assms(2), of s]
  obtain q1 where q1: "dequeue_each (V s i) q = Some q1" "counters_ok (held (levels_in ?V' ?B')) q1"
      "nodes_ok (held (levels_in ?V' ?B')) q1" "same_frame q q1" "streams_by_prio q1 = ?B"
      "top_active_prio_level q1 = top_active_prio_level q"
    using dequeue_each_ok [of "V s i" "held (levels_in ?V' ?B')" q] C N by (auto simp: D(2))
  define q' where "q' = q1\<lparr>streams_by_prio := ?B',
      top_active_prio_level := first_active ?B' [0..<kNumPriorityLevels] (- 1)\<rparr>"
  have "s \<in> set (?B i)" using assms(3) tables_mem [OF T] by simp
  note R = remove_top [OF D(1) q1(2) assms(2) tables_distinct [OF T] this q1(5)]
  have "remove_levels s pbp (i # is) q = remove_levels s pbp is q'" for "is"
    using assms(3,4) q1(1) R q1(6) top by (simp add: q'_def Let_def del: One_nat_def)
  moreover have "labels_ok ?V'"
    using labels_drop [OF Lab, of "[]" s i] by (simp add: drop_view_def fun_upd_def)
  then have "view_ok ?V' q'" using D(1) q1(2,3) by (simp add: view_ok_def q'_def)
  moreover have "same_frame q q'" using q1(4) by (simp add: q'_def same_frame_def)
  ultimately show thesis using that by (simp add: q'_def)
qed

lemma remove_levels_ok:
  assumes "view_ok V q" and "set is \<subseteq> {..<kNumPriorityLevels}" and "distinct is"
    and "\<And>i. i \<in> set is \<Longrightarrow> pbp i = V s i"
  shows "\<exists>q'. remove_levels s pbp is q = Some q' \<and> view_ok (drop_view s (set is) V) q' \<and>
    streams_by_prio q' = drop_tables s (set is) (streams_by_prio q) \<and> same_frame q q'"
  using assms
proof (induction "is" arbitrary: q V)
  case Nil
  then show ?case by (simp add: drop_view_def drop_tables_def fun_eq_iff)
next
  case (Cons i "is")
  have i: "i < kNumPriorityLevels" and pbp: "pbp i = V s i" using Cons.prems by auto
  have ih: "\<exists>q'. remove_levels s pbp is q1 = Some q' \<and> view_ok (drop_view s (set (i # is)) V) q' \<and>
      streams_by_prio q' = drop_tables s (set (i # is)) (streams_by_prio q) \<and> same_frame q q'"
    if "view_ok (drop_view s {i} V) q1" "streams_by_prio q1 = drop_tables s {i} (streams_by_prio q)" "same_frame q q1" for q1
  proof -
    have "pbp k = drop_view s {i} V s k" if "k \<in> set is" for k
      using Cons.prems(3,4) that by (auto simp: drop_view_def)
    from Cons.IH [OF that(1) _ _ this] Cons.prems(2,3) that(2,3) show ?thesis
      by (auto simp: drop_more intro: same_frame_trans)
  qed
  show ?case
  proof (cases "V s i = []")
    case True
    have T: "tables_ok V (streams_by_prio q)" using Cons.prems(1) by (simp add: view_ok_def)
    show ?thesis using ih [of q] Cons.prems(1) drop_nothing [OF T True] True pbp by simp
  next
    case False
    show ?thesis using remove_round [OF Cons.prems(1) i False, of pbp] pbp ih by metis
  qed
qed

lemma drop_levels:
  assumes "tables_ok V B"
  shows "levels_in (drop_view s {0..<kNumPriorityLevels} V) (drop_tables s {0..<kNumPriorityLevels} B) l =
    filter (\<lambda>e. fst e \<noteq> s) (levels_in V B l)"
proof (cases "l < kNumPriorityLevels")
  case True
  then show ?thesis by (auto simp: levels_in_def drop_view_def drop_tables_def filter_map o_def)
next
  case False
  then have "B l = []" using assms by (simp add: tables_ok_def)
  then show ?thesis by (simp add: levels_in_def drop_tables_def)
qed

lemma queue_step_remove:
  assumes "queue_ok q"
  shows "\<exists>q'. RemovePacketsForSsrc s q = Some q' \<and> queue_abs q' = spec_remove s (queue_abs q) \<and> queue_ok q'"
proof (cases "pq_streams q s")
  case None
  have T: "tables_ok (stream_view q) (streams_by_prio q)" using assms by (simp add: queue_ok_def view_ok_def)
  have "s \<notin> set (streams_by_prio q l)" for l
    using tables_mem [OF T, of s l] None by (simp add: stream_view_def)
  then have "filter (\<lambda>e. fst e \<noteq> s) (levels_in (stream_view q) (streams_by_prio q) l) =
      levels_in (stream_view q) (streams_by_prio q) l" for l
    by (auto simp: levels_in_def filter_id_conv)
  then have "spec_remove s (queue_abs q) = queue_abs q"
    unfolding spec_remove_def queue_abs_sel map_level_filter [symmetric] by (simp add: queue_abs_def)
  then show ?thesis using None assms by (simp add: RemovePacketsForSsrc_def)
next
  case (Some sq)
  let ?V = "stream_view q" and ?I = "{0..<kNumPriorityLevels}"
  obtain pbp sq' where D: "DequeueAll sq = (pbp, sq')" by (cases "DequeueAll sq")
  let ?q = "q\<lparr>pq_streams := (pq_streams q)(s := Some sq')\<rparr>"
  have T: "tables_ok ?V (streams_by_prio q)" and v: "view_ok ?V ?q" and K: "keyframes_ok q"
    using assms by (auto simp: queue_ok_def view_ok_def)
  have pbp: "pbp i = ?V s i" if "i < kNumPriorityLevels" for i
    using D that Some by (auto simp: DequeueAll_def stream_view_Some)
  obtain q' where q': "remove_levels s pbp [0..<kNumPriorityLevels] ?q = Some q'" "view_ok (drop_view s ?I ?V) q'"
      "streams_by_prio q' = drop_tables s ?I (streams_by_prio q)" "same_frame ?q q'"
    using remove_levels_ok [OF v, of "[0..<kNumPriorityLevels]" pbp s] pbp by (auto simp: atLeast0LessThan)
  have "stream_view q' = drop_view s ?I ?V"
    using same_frame_view [OF q'(4)] D Some
    by (auto simp: DequeueAll_def drop_view_def stream_view_Some fun_eq_iff)
  moreover have "waited q' = waited q" using same_frame_waited [OF q'(4)] by simp
  moreover have "keyframes_ok q'"
    using K D q'(4) by (auto simp: keyframes_ok_def same_frame_def DequeueAll_def keys_of_def)
  moreover have "RemovePacketsForSsrc s q = Some q'"
    using Some D q'(1) by (simp add: RemovePacketsForSsrc_def)
  moreover have "pq_paused q' = pq_paused q" "last_update_time q' = last_update_time q"
    using q'(4) by (simp_all add: same_frame_def)
  ultimately show ?thesis
    using q'(2,3) by (simp add: queue_ok_def queue_abs_def spec_remove_def drop_levels [OF T] map_level_filter)
qed

section \<open>The refinement\<close>

lemma queue_ok_new: "queue_ok (new_PrioritizedPacketQueue t)"
  by (auto simp: queue_ok_def view_ok_def new_PrioritizedPacketQueue_def stream_view_def tables_ok_def
      labels_ok_def counters_ok_def nodes_ok_def keyframes_ok_def levels_in_def held_def first_active_find
      find_None_iff split: option.splits)

lemma queue_abs_new: "queue_abs (new_PrioritizedPacketQueue t) = spec_new t"
  by (simp add: queue_abs_def spec_new_def new_PrioritizedPacketQueue_def levels_in_def)

lemma queue_step_pause:
  assumes "queue_ok q"
  shows "map_option queue_abs (SetPauseState b t q) = map_option (\<lambda>S. S\<lparr>sp_paused := b\<rparr>) (spec_tick t (queue_abs q))"
    and "SetPauseState b t q = Some q' \<Longrightarrow> queue_ok q'"
proof -
  have "queue_abs (q\<lparr>pq_paused := b\<rparr>) = (queue_abs q)\<lparr>sp_paused := b\<rparr>" for q
    by (simp add: queue_abs_def)
  then show "map_option queue_abs (SetPauseState b t q) = map_option (\<lambda>S. S\<lparr>sp_paused := b\<rparr>) (spec_tick t (queue_abs q))"
    by (cases "UpdateAverageQueueTime t q") (auto simp: SetPauseState_def queue_abs_tick [symmetric])
  have "queue_ok (q\<lparr>pq_paused := b\<rparr>)" if "queue_ok q" for q
    using that by (simp add: queue_ok_def view_ok_def keyframes_ok_def)
  then show "SetPauseState b t q = Some q' \<Longrightarrow> queue_ok q'"
    using queue_ok_tick [OF assms, of t] by (auto simp: SetPauseState_def split: Option.bind_splits)
qed

interpretation pacer_queue: functional_refinement queue_abs queue_ok queue_step spec_step
proof
  fix q op
  assume q: "queue_ok q"
  show "map_option (map_prod id queue_abs) (queue_step op q) = spec_step op (queue_abs q)"
  proof (cases op)
    case (OpPush t p)
    then show ?thesis using queue_step_push(1) [OF q, of t p]
      by (cases "Push t p q") (simp_all flip: queue_step_push(1) [OF q])
  next
    case OpPop
    then show ?thesis using queue_step_pop [OF q] by auto
  next
    case (OpUpdate t)
    then show ?thesis by (cases "UpdateAverageQueueTime t q") (simp_all flip: queue_abs_tick)
  next
    case (OpPause b t)
    then show ?thesis using queue_step_pause(1) [OF q, of b t]
      by (cases "SetPauseState b t q"; cases "spec_tick t (queue_abs q)") auto
  next
    case (OpRemove s)
    then show ?thesis using queue_step_remove [OF q, of s] by auto
  qed
next
  fix q op out q'
  assume q: "queue_ok q" and step: "queue_step op q = Some (out, q')"
  show "queue_ok q'"
  proof (cases op)
    case (OpPush t p)
    then show ?thesis using step queue_step_push(2) [OF q] by auto
  next
    case OpPop
    then show ?thesis using step queue_step_pop [OF q] by auto
  next
    case (OpUpdate t)
    then show ?thesis using step queue_ok_tick [OF q] by auto
  next
    case (OpPause b t)
    then show ?thesis using step queue_step_pause(2) [OF q] by auto
  next
    case (OpRemove s)
    then show ?thesis using step queue_step_remove [OF q, of s] by auto
  qed
qed

text \<open>
  C11. The pacer's queue refines its specification: for every sequence of pushes, pops, clock updates,
  pauses and stream removals it returns what one FIFO per SSRC and priority level, served round robin
  from the highest level, returns; every popped packet carries exactly the time it waited while the
  queue was not paused. The code's pointers, iterators, running sums and its cached top level never
  fail: it stops only where a clock update goes backwards, as the specification does.
\<close>

theorem packet_queue_refines:
  "map_option (map_prod id queue_abs) (run_ops queue_step ops (new_PrioritizedPacketQueue t)) =
   run_ops spec_step ops (spec_new t)"
  using pacer_queue.run_abs [OF queue_ok_new] by (simp add: queue_abs_new)

end
