(* ===== verification/PacketQueueDrain.thy ===== *)
theory PacketQueueDrain
  imports PacketQueueRefinement
begin

text \<open>
  What the refinement gives to a client of the pacer's queue: exact counters, and that popping empties
  the queue, in priority order and first in first out within each stream.
\<close>

section \<open>Draining\<close>

definition stamp :: "PacedPacket \<times> int \<Rightarrow> PacedPacket" where
  "stamp e = (fst e)\<lparr>pk_time_in_send_queue := Some (snd e)\<rparr>"

definition fifo :: "uint32_t \<Rightarrow> 'p level \<Rightarrow> 'p list" where
  "fifo s L = concat (map snd (filter (\<lambda>e. fst e = s) L))"

definition level_ok :: "nat \<Rightarrow> (PacedPacket \<times> int) level \<Rightarrow> bool" where
  "level_ok l L \<longleftrightarrow> distinct (map fst L) \<and> (\<forall>(s, ps)\<in>set L. ps \<noteq> [] \<and>
     (\<forall>(p, age)\<in>set ps. pk_ssrc p = s \<and> GetPriorityForType (pk_packet_type p) = l))"

definition spec_ok :: "spec_queue \<Rightarrow> bool" where
  "spec_ok S \<longleftrightarrow> (\<forall>l<kNumPriorityLevels. level_ok l (sp_levels S l))"

lemma spec_ok_abs:
  assumes "queue_ok q"
  shows "spec_ok (queue_abs q)"
proof -
  have T: "tables_ok (stream_view q) (streams_by_prio q)" and Lab: "labels_ok (stream_view q)"
    using assms by (auto simp: queue_ok_def view_ok_def)
  have "map fst (sp_levels (queue_abs q) l) = streams_by_prio q l" for l
    by (simp add: queue_abs_sel levels_in_def map_level_def o_def)
  then show ?thesis
    using tables_distinct [OF T] tables_mem [OF T] Lab
    by (auto simp: spec_ok_def level_ok_def queue_abs_sel levels_in_def map_level_def labels_ok_def)
qed

lemma spec_waiting_prio:
  assumes "spec_ok S" and "(p, age) \<in> set (spec_waiting S)"
  shows "sp_levels S (GetPriorityForType (pk_packet_type p)) \<noteq> []"
proof -
  obtain l s ps where l: "l < kNumPriorityLevels" "(s, ps) \<in> set (sp_levels S l)" "(p, age) \<in> set ps"
    using assms(2) by (auto simp: spec_waiting_def)
  then have "GetPriorityForType (pk_packet_type p) = l" using assms(1) by (fastforce simp: spec_ok_def level_ok_def)
  then show ?thesis using l(2) by auto
qed

lemma spec_waiting_held: "mset (spec_waiting S) = held (sp_levels S)"
  by (simp add: spec_waiting_def held_def mset_concat sum_list_sum_nth atLeast0LessThan)

lemma spec_pop_next:
  assumes "spec_ok S" and "spec_waiting S \<noteq> []"
  obtains l s p age ps rest where "l < kNumPriorityLevels" "\<And>k. k < l \<Longrightarrow> sp_levels S k = []"
    "sp_levels S l = (s, (p, age) # ps) # rest"
    "spec_pop S = (Some (stamp (p, age)), S\<lparr>sp_levels := (sp_levels S)(l := rest @ (if ps = [] then [] else [(s, ps)]))\<rparr>)"
proof -
  have "\<not> (\<forall>l<kNumPriorityLevels. sp_levels S l = [])" using assms(2) by (auto simp: spec_waiting_def)
  then obtain l where l: "find (\<lambda>l. sp_levels S l \<noteq> []) [0..<kNumPriorityLevels] = Some l"
    by (metis (mono_tags, lifting) find_upt_None not_Some_eq)
  then have l': "l < kNumPriorityLevels" "sp_levels S l \<noteq> []" "\<And>k. k < l \<Longrightarrow> sp_levels S k = []"
    by (auto simp: find_upt)
  then obtain s qs rest where "sp_levels S l = (s, qs) # rest" by (cases "sp_levels S l") auto
  moreover from this have "qs \<noteq> []" using assms(1) l'(1) by (auto simp: spec_ok_def level_ok_def)
  then obtain p age ps where "qs = (p, age) # ps" by (cases qs) auto
  ultimately show thesis using that l' by (simp add: spec_pop_def l stamp_def)
qed

lemma spec_pop_ok:
  assumes "spec_ok S" and "l < kNumPriorityLevels" and "sp_levels S l = (s, e # ps) # rest"
  defines "S' \<equiv> S\<lparr>sp_levels := (sp_levels S)(l := rest @ (if ps = [] then [] else [(s, ps)]))\<rparr>"
  shows "spec_ok S'"
    and "held (sp_levels S) = add_mset e (held (sp_levels S'))"
    and "fifo k (sp_levels S j) = (if j = l \<and> k = s then e # fifo k (sp_levels S' j) else fifo k (sp_levels S' j))"
proof -
  have l: "level_ok l (sp_levels S l)" using assms(1,2) by (simp add: spec_ok_def)
  then have "level_ok l (sp_levels S' l)"
    unfolding assms(3) by (cases "ps = []") (auto simp: S'_def level_ok_def)
  moreover have "sp_levels S' k = sp_levels S k" if "k \<noteq> l" for k using that by (simp add: S'_def)
  ultimately show "spec_ok S'" using assms(1) unfolding spec_ok_def by metis
  show "held (sp_levels S) = add_mset e (held (sp_levels S'))"
    using held_pop [where L = "sp_levels S", OF assms(2), of e] by (simp add: S'_def assms(3))
  have "s \<notin> fst ` set rest" using l unfolding assms(3) level_ok_def by simp
  then have f: "filter (\<lambda>e. fst e = s) rest = []" by (force simp: filter_empty_conv)
  show "fifo k (sp_levels S j) = (if j = l \<and> k = s then e # fifo k (sp_levels S' j) else fifo k (sp_levels S' j))"
    by (auto simp: S'_def fifo_def assms(3) f)
qed

lemma spec_drain:
  assumes "spec_ok S" and "length (spec_waiting S) = n"
  shows "\<exists>sent S'. run_ops spec_step (replicate n OpPop) S = Some (map Some sent, S') \<and>
    spec_waiting S' = [] \<and> mset sent = image_mset stamp (mset (spec_waiting S)) \<and>
    sorted (map (\<lambda>p. GetPriorityForType (pk_packet_type p)) sent) \<and>
    (\<forall>s. \<forall>l<kNumPriorityLevels. filter (\<lambda>p. pk_ssrc p = s \<and> GetPriorityForType (pk_packet_type p) = l) sent =
       map stamp (fifo s (sp_levels S l)))"
  using assms
proof (induction n arbitrary: S)
  case 0
  then have "\<forall>l<kNumPriorityLevels. \<forall>e\<in>set (sp_levels S l). snd e = []"
    by (auto simp: spec_waiting_def)
  then have "fifo s (sp_levels S l) = []" if "l < kNumPriorityLevels" for s l
    using that by (auto simp: fifo_def)
  then show ?case using 0 by simp
next
  case (Suc n)
  then have "spec_waiting S \<noteq> []" by auto
  then obtain l s p age ps rest where l: "l < kNumPriorityLevels" "\<And>k. k < l \<Longrightarrow> sp_levels S k = []"
    and L: "sp_levels S l = (s, (p, age) # ps) # rest"
    and pop: "spec_pop S = (Some (stamp (p, age)),
      S\<lparr>sp_levels := (sp_levels S)(l := rest @ (if ps = [] then [] else [(s, ps)]))\<rparr>)"
    using spec_pop_next [OF Suc.prems(1)] by metis
  define S1 where "S1 = S\<lparr>sp_levels := (sp_levels S)(l := rest @ (if ps = [] then [] else [(s, ps)]))\<rparr>"
  note P = spec_pop_ok [OF Suc.prems(1) l(1) L, folded S1_def]
  have W: "mset (spec_waiting S) = add_mset (p, age) (mset (spec_waiting S1))"
    using P(2) by (simp add: spec_waiting_held)
  then have "length (spec_waiting S1) = n"
    using Suc.prems(2) by (metis size_mset size_add_mset old.nat.inject)
  from Suc.IH [OF P(1) this] obtain sent S' where ih:
    "run_ops spec_step (replicate n OpPop) S1 = Some (map Some sent, S')" "spec_waiting S' = []"
    "mset sent = image_mset stamp (mset (spec_waiting S1))"
    "sorted (map (\<lambda>p. GetPriorityForType (pk_packet_type p)) sent)"
    "\<forall>s. \<forall>l<kNumPriorityLevels. filter (\<lambda>p. pk_ssrc p = s \<and> GetPriorityForType (pk_packet_type p) = l) sent =
       map stamp (fifo s (sp_levels S1 l))"
    by blast
  have lab: "pk_ssrc p = s" "GetPriorityForType (pk_packet_type p) = l"
    using Suc.prems(1) l(1) L by (auto simp: spec_ok_def level_ok_def)
  have "l \<le> GetPriorityForType (pk_packet_type x)" if "x \<in> set sent" for x
  proof -
    have "x \<in># image_mset stamp (mset (spec_waiting S1))" using that ih(3) by (simp flip: ih(3))
    then obtain e where e: "x = stamp e" "e \<in># mset (spec_waiting S1)" by auto
    then have "e \<in> set (spec_waiting S)" using W by (metis insert_iff set_mset_add_mset_insert set_mset_mset)
    then have "sp_levels S (GetPriorityForType (pk_packet_type x)) \<noteq> []"
      using spec_waiting_prio [OF Suc.prems(1), of "fst e" "snd e"] e(1) by (simp add: stamp_def)
    then show ?thesis using l(2) by (meson not_le)
  qed
  then have "sorted (map (\<lambda>p. GetPriorityForType (pk_packet_type p)) (stamp (p, age) # sent))"
    using ih(4) lab by (simp add: stamp_def)
  moreover have "filter (\<lambda>p. pk_ssrc p = k \<and> GetPriorityForType (pk_packet_type p) = j) (stamp (p, age) # sent) =
       map stamp (fifo k (sp_levels S j))" if "j < kNumPriorityLevels" for k j
    using ih(5) that lab P(3) [of k j] by (auto simp: stamp_def)
  moreover have "run_ops spec_step (replicate (Suc n) OpPop) S = Some (map Some (stamp (p, age) # sent), S')"
    using pop ih(1) by (simp add: S1_def)
  ultimately show ?case using ih(2,3) W by (intro exI [of _ "stamp (p, age) # sent"] exI [of _ S']) simp
qed

section \<open>Counters\<close>

lemma abs_waiting:
  "mset (spec_waiting (queue_abs q)) = image_mset (\<lambda>p. (qp_packet p, waited q p))
     (held (levels_in (stream_view q) (streams_by_prio q)))"
proof -
  have "mset (concat (map snd (map_level f L))) = image_mset f (mset (concat (map snd L)))"
    for f :: "QueuedPacket \<Rightarrow> PacedPacket \<times> int" and L
    by (induction L) (auto simp: map_level_def)
  moreover have "image_mset f (\<Sum>l\<in>A. g l) = (\<Sum>l\<in>A. image_mset f (g l))" if "finite A"
    for f :: "QueuedPacket \<Rightarrow> PacedPacket \<times> int" and g :: "nat \<Rightarrow> QueuedPacket multiset" and A
    using that by (induction A rule: finite_induct) auto
  ultimately show ?thesis
    by (simp add: spec_waiting_held held_def queue_abs_sel)
qed

lemma waiting_in_view:
  assumes "queue_ok q"
  shows "(p, age) \<in> set (spec_waiting (queue_abs q)) \<longleftrightarrow>
    (\<exists>x l. l < kNumPriorityLevels \<and> x \<in> set (stream_view q (pk_ssrc p) l) \<and> qp_packet x = p \<and> waited q x = age)"
    (is "?L \<longleftrightarrow> ?R")
proof -
  have T: "tables_ok (stream_view q) (streams_by_prio q)" and Lab: "labels_ok (stream_view q)"
    using assms by (auto simp: queue_ok_def view_ok_def)
  have "?L \<longleftrightarrow> (\<exists>l<kNumPriorityLevels. \<exists>s\<in>set (streams_by_prio q l). \<exists>x\<in>set (stream_view q s l).
      qp_packet x = p \<and> waited q x = age)"
    by (force simp: spec_waiting_def queue_abs_sel levels_in_def map_level_def)
  also have "\<dots> \<longleftrightarrow> (\<exists>l<kNumPriorityLevels. \<exists>s. \<exists>x\<in>set (stream_view q s l). qp_packet x = p \<and> waited q x = age)"
    using tables_mem [OF T] by (metis empty_iff empty_set)
  also have "\<dots> \<longleftrightarrow> ?R"
    using Lab unfolding labels_ok_def by metis
  finally show ?thesis .
qed

lemma keys_of_pos:
  "keys_of f > 0 \<longleftrightarrow> (\<exists>l<kNumPriorityLevels. \<exists>x\<in>set (f l). pk_is_key_frame (qp_packet x))"
proof -
  have "keys_of f = 0 \<longleftrightarrow> (\<forall>l<kNumPriorityLevels. filter (\<lambda>p. pk_is_key_frame (qp_packet p)) (f l) = [])"
    unfolding keys_of_def by (subst sum_nonneg_eq_0_iff) auto
  moreover have "keys_of f \<ge> 0" unfolding keys_of_def by (rule sum_nonneg) simp
  ultimately have "keys_of f > 0 \<longleftrightarrow> \<not> (\<forall>l<kNumPriorityLevels. filter (\<lambda>p. pk_is_key_frame (qp_packet p)) (f l) = [])"
    by auto
  then show ?thesis by (auto simp: filter_empty_conv)
qed

lemma keyframes_waiting:
  assumes "queue_ok q"
  shows "HasKeyframePackets s q \<longleftrightarrow> (\<exists>(p, age)\<in>set (spec_waiting (queue_abs q)). pk_ssrc p = s \<and> pk_is_key_frame p)"
proof -
  have "HasKeyframePackets s q \<longleftrightarrow> keys_of (stream_view q s) > 0"
  proof (cases "pq_streams q s")
    case None
    then have "stream_view q s = (\<lambda>_. [])" by (auto simp: stream_view_def fun_eq_iff)
    then show ?thesis using None by (simp add: HasKeyframePackets_def keys_of_def)
  next
    case (Some sq)
    then show ?thesis
      using assms stream_view_Some [OF Some]
      by (simp add: HasKeyframePackets_def has_keyframe_packets_def queue_ok_def keyframes_ok_def)
  qed
  also have "\<dots> \<longleftrightarrow> (\<exists>p age. (p, age) \<in> set (spec_waiting (queue_abs q)) \<and> pk_ssrc p = s \<and> pk_is_key_frame p)"
    unfolding keys_of_pos waiting_in_view [OF assms]
    using assms unfolding queue_ok_def view_ok_def labels_ok_def by metis
  finally show ?thesis by auto
qed

lemma counters_waiting:
  assumes "queue_ok q"
  defines "W \<equiv> spec_waiting (queue_abs q)"
  shows "SizeInPackets q = int (length W)"
    and "SizeInPacketsPerRtpPacketMediaType q ty = int (length (filter (\<lambda>(p, age). pk_packet_type p = ty) W))"
    and "SizeInPayloadBytes q = (\<Sum>(p, age)\<leftarrow>W. pk_payload_size p + pk_padding_size p)"
    and "queue_time_sum q = (\<Sum>(p, age)\<leftarrow>W. age)"
proof -
  let ?M = "held (levels_in (stream_view q) (streams_by_prio q))"
  have C: "counters_ok ?M q" using assms(1) by (simp add: queue_ok_def view_ok_def)
  have W: "mset W = image_mset (\<lambda>p. (qp_packet p, waited q p)) ?M" unfolding W_def by (rule abs_waiting)
  have len: "length W = size ?M" using W by (metis size_image_mset size_mset)
  have sum: "(\<Sum>e\<leftarrow>W. f e) = (\<Sum>p\<in>#?M. f (qp_packet p, waited q p))" for f :: "PacedPacket \<times> int \<Rightarrow> int"
  proof -
    have "(\<Sum>e\<leftarrow>W. f e) = \<Sum>\<^sub># (image_mset f (mset W))" by (metis mset_map sum_mset_sum_list)
    then show ?thesis by (simp add: W image_mset.compositionality o_def)
  qed
  have "length (filter P W) = size (filter_mset (\<lambda>p. P (qp_packet p, waited q p)) ?M)" for P
  proof -
    have "filter_mset P (image_mset g M) = image_mset g (filter_mset (\<lambda>p. P (g p)) M)"
      for g :: "QueuedPacket \<Rightarrow> PacedPacket \<times> int" and M
      by (induction M) auto
    moreover have "length (filter P W) = size (filter_mset P (mset W))" by (metis mset_filter size_mset)
    ultimately show ?thesis by (simp add: W)
  qed
  then show "SizeInPacketsPerRtpPacketMediaType q ty = int (length (filter (\<lambda>(p, age). pk_packet_type p = ty) W))"
    using C by (simp add: counters_ok_def SizeInPacketsPerRtpPacketMediaType_def)
  show "SizeInPackets q = int (length W)" using C len by (simp add: counters_ok_def SizeInPackets_def)
  show "SizeInPayloadBytes q = (\<Sum>(p, age)\<leftarrow>W. pk_payload_size p + pk_padding_size p)"
    using C by (simp add: sum counters_ok_def SizeInPayloadBytes_def PacketSize_def)
  show "queue_time_sum q = (\<Sum>(p, age)\<leftarrow>W. age)"
    using C by (simp add: sum counters_ok_def)
qed

section \<open>Properties\<close>

text \<open>
  C22. After any sequence of operations the counters the pacer reads are exact: the number of packets
  (in total and per media type), the payload bytes, the average waiting time without pauses, and
  whether a stream has packets waiting that are marked as part of a key frame. The last one counts
  every such packet, also a retransmission on that stream, which the comment in the header
  says is not counted.
\<close>

theorem packet_queue_counters:
  assumes "run_ops queue_step ops (new_PrioritizedPacketQueue t) = Some (outs, q)"
  defines "W \<equiv> spec_waiting (queue_abs q)"
  shows "SizeInPackets q = int (length W) \<and> (pq_Empty q \<longleftrightarrow> W = []) \<and>
    SizeInPacketsPerRtpPacketMediaType q ty = int (length (filter (\<lambda>(p, age). pk_packet_type p = ty) W)) \<and>
    SizeInPayloadBytes q = (\<Sum>(p, age)\<leftarrow>W. pk_payload_size p + pk_padding_size p) \<and>
    AverageQueueTime q = (if W = [] then 0 else (\<Sum>(p, age)\<leftarrow>W. age) sdiv int (length W)) \<and>
    (HasKeyframePackets s q \<longleftrightarrow> (\<exists>(p, age)\<in>set W. pk_ssrc p = s \<and> pk_is_key_frame p))"
proof -
  have ok: "queue_ok q" by (rule pacer_queue.run_inv [OF queue_ok_new assms(1)])
  note C = counters_waiting [OF ok, folded W_def]
  have n: "size_packets q = int (length W)" using C(1) by (simp add: SizeInPackets_def)
  then have "pq_Empty q \<longleftrightarrow> W = []"
    "AverageQueueTime q = (if W = [] then 0 else (\<Sum>(p, age)\<leftarrow>W. age) sdiv int (length W))"
    using C(4) by (simp_all add: pq_Empty_def AverageQueueTime_def)
  then show ?thesis using C keyframes_waiting [OF ok, of s] unfolding W_def by blast
qed

text \<open>
  C21. Every packet in the queue leaves it: as many pops as there are packets return each of them once,
  higher priorities first and, within a stream and a priority, in the order of arrival, and leave the
  queue empty.
\<close>

theorem packet_queue_drains:
  assumes "run_ops queue_step ops (new_PrioritizedPacketQueue t) = Some (outs, q)"
  shows "\<exists>sent q'. run_ops queue_step (replicate (nat (SizeInPackets q)) OpPop) q = Some (map Some sent, q') \<and>
    pq_Empty q' \<and>
    mset sent = image_mset stamp (mset (spec_waiting (queue_abs q))) \<and>
    sorted (map (\<lambda>p. GetPriorityForType (pk_packet_type p)) sent) \<and>
    (\<forall>s. \<forall>l<kNumPriorityLevels. filter (\<lambda>p. pk_ssrc p = s \<and> GetPriorityForType (pk_packet_type p) = l) sent =
       map stamp (fifo s (sp_levels (queue_abs q) l)))"
proof -
  let ?S = "queue_abs q" and ?n = "nat (SizeInPackets q)"
  have ok: "queue_ok q" by (rule pacer_queue.run_inv [OF queue_ok_new assms])
  have len: "length (spec_waiting ?S) = ?n" using counters_waiting(1) [OF ok] by simp
  from spec_drain [OF spec_ok_abs [OF ok] len] obtain sent S' where s: "run_ops spec_step (replicate ?n OpPop) ?S = Some (map Some sent, S')" "spec_waiting S' = []"
    "mset sent = image_mset stamp (mset (spec_waiting ?S))"
    "sorted (map (\<lambda>p. GetPriorityForType (pk_packet_type p)) sent)"
    "\<forall>s. \<forall>l<kNumPriorityLevels. filter (\<lambda>p. pk_ssrc p = s \<and> GetPriorityForType (pk_packet_type p) = l) sent =
       map stamp (fifo s (sp_levels ?S l))"
    by (elim exE conjE) (rule that)
  then obtain q' where q': "run_ops queue_step (replicate ?n OpPop) q = Some (map Some sent, q')" "queue_abs q' = S'"
    using pacer_queue.run_abs [OF ok, of "replicate ?n OpPop"] by auto
  have "pq_Empty q'"
    using counters_waiting(1) [OF pacer_queue.run_inv [OF ok q'(1)]] s(2) q'(2)
    by (simp add: pq_Empty_def SizeInPackets_def)
  then show ?thesis using s q'(1) by (intro exI [of _ sent] exI [of _ q']) simp
qed

definition sample_packet :: "uint32_t \<Rightarrow> RtpPacketMediaType \<Rightarrow> bool \<Rightarrow> PacedPacket" where
  "sample_packet s ty key =
     \<lparr>pk_ssrc = s, pk_has_packet_type = True, pk_packet_type = ty, pk_payload_size = 1000, pk_padding_size = 0, pk_headers_size = 12,
      pk_is_key_frame = key, pk_is_first_packet_of_frame = key, pk_sequence_number = 0,
      pk_time_in_send_queue = None\<rparr>"

definition sample_queue_ops :: "queue_op list" where
  "sample_queue_ops =
     [OpPush 1000 (sample_packet 1 kVideo True), OpPush 2000 (sample_packet 1 kVideo False),
      OpPush 3000 (sample_packet 2 kVideo False), OpPop, OpPause True 5000, OpUpdate 9000,
      OpPause False 9000, OpPush 10000 (sample_packet 3 kAudio False), OpRemove 2]"

lemma sample_queue_run:
  "(case run_ops queue_step sample_queue_ops (new_PrioritizedPacketQueue 0) of
      None \<Rightarrow> False
    | Some (outs, q) \<Rightarrow> SizeInPackets q = 2 \<and> SizeInPayloadBytes q = 2000 \<and> AverageQueueTime q = 2000)"
  by code_simp

theorem packet_queue_counters_witness:
  "\<exists>outs q. run_ops queue_step sample_queue_ops (new_PrioritizedPacketQueue 0) = Some (outs, q) \<and>
     AverageQueueTime q = 2000 \<and> SizeInPackets q = 2 \<and> length (spec_waiting (queue_abs q)) = 2"
proof -
  obtain outs q where r: "run_ops queue_step sample_queue_ops (new_PrioritizedPacketQueue 0) = Some (outs, q)"
    and f: "SizeInPackets q = 2" "AverageQueueTime q = 2000"
    using sample_queue_run by (auto split: option.splits)
  show ?thesis using packet_queue_counters [OF r] r f by auto
qed

theorem packet_queue_drains_witness:
  "\<exists>outs q sent q'. run_ops queue_step sample_queue_ops (new_PrioritizedPacketQueue 0) = Some (outs, q) \<and>
     run_ops queue_step [OpPop, OpPop] q = Some (map Some sent, q') \<and> pq_Empty q'"
proof -
  obtain outs q where r: "run_ops queue_step sample_queue_ops (new_PrioritizedPacketQueue 0) = Some (outs, q)"
    and f: "SizeInPackets q = 2"
    using sample_queue_run by (auto split: option.splits)
  have "replicate (nat (SizeInPackets q)) OpPop = [OpPop, OpPop]" by (simp add: f eval_nat_numeral)
  then show ?thesis using packet_queue_drains [OF r] r by metis
qed

end
