(* ===== verification/AlrDetector.thy ===== *)
theory AlrDetector
  imports Units
begin

text \<open>
  Application-limited region detection: the byte budget \<open>modules/pacing/interval_budget.cc\<close> and its
  client \<open>modules/congestion_controller/goog_cc/alr_detector.cc\<close>. Budgets are \<open>int64_t\<close> values; the
  narrowing \<open>static_cast<int>\<close> of a byte count is written out, because it turns counts of 2 GiB and
  more into negative numbers. The wall clock read when a region starts is an argument.
\<close>

section \<open>Interval budget\<close>

definition kWindowMs :: int where
  "kWindowMs = 500"

definition narrow_int :: "int \<Rightarrow> int" where
  "narrow_int v = (if v mod 2 ^ 32 < 2 ^ 31 then v mod 2 ^ 32 else v mod 2 ^ 32 - 2 ^ 32)"

record IntervalBudget =
  ib_target_rate_kbps :: int
  ib_max_bytes_in_budget :: int
  ib_bytes_remaining :: int
  ib_can_build_up_underuse :: bool

definition set_target_rate_kbps :: "int \<Rightarrow> IntervalBudget \<Rightarrow> IntervalBudget" where
  "set_target_rate_kbps target_rate_kbps b =
     (let max_bytes = (kWindowMs * target_rate_kbps) sdiv 8
      in b\<lparr>ib_target_rate_kbps := target_rate_kbps, ib_max_bytes_in_budget := max_bytes,
           ib_bytes_remaining := min (max (- max_bytes) (ib_bytes_remaining b)) max_bytes\<rparr>)"

definition new_IntervalBudget :: "int \<Rightarrow> bool \<Rightarrow> IntervalBudget" where
  "new_IntervalBudget initial_target_rate_kbps can_build_up_underuse =
     set_target_rate_kbps initial_target_rate_kbps
       \<lparr>ib_target_rate_kbps = 0, ib_max_bytes_in_budget = 0, ib_bytes_remaining = 0,
        ib_can_build_up_underuse = can_build_up_underuse\<rparr>"

definition IncreaseBudget :: "int \<Rightarrow> IntervalBudget \<Rightarrow> IntervalBudget" where
  "IncreaseBudget delta_time_ms b =
     (let bytes = (ib_target_rate_kbps b * delta_time_ms) sdiv 8
      in if ib_bytes_remaining b < 0 \<or> ib_can_build_up_underuse b
         then b\<lparr>ib_bytes_remaining := min (ib_bytes_remaining b + bytes) (ib_max_bytes_in_budget b)\<rparr>
         else b\<lparr>ib_bytes_remaining := min bytes (ib_max_bytes_in_budget b)\<rparr>)"

definition UseBudget :: "int \<Rightarrow> IntervalBudget \<Rightarrow> IntervalBudget" where
  "UseBudget bytes b =
     b\<lparr>ib_bytes_remaining := max (ib_bytes_remaining b - narrow_int bytes) (- ib_max_bytes_in_budget b)\<rparr>"

definition bytes_remaining :: "IntervalBudget \<Rightarrow> int" where
  "bytes_remaining b = max 0 (ib_bytes_remaining b)"

definition budget_ratio :: "IntervalBudget \<Rightarrow> rat" where
  "budget_ratio b =
     (if ib_max_bytes_in_budget b = 0 then 0
      else ddiv (f64 (of_int (ib_bytes_remaining b))) (f64 (of_int (ib_max_bytes_in_budget b))))"

section \<open>Detector\<close>

record AlrDetectorConfig =
  bandwidth_usage_ratio :: rat
  start_budget_level_ratio :: rat
  stop_budget_level_ratio :: rat

definition default_AlrDetectorConfig :: AlrDetectorConfig where
  "default_AlrDetectorConfig =
     \<lparr>bandwidth_usage_ratio = f64 (65 / 100), start_budget_level_ratio = f64 (80 / 100),
      stop_budget_level_ratio = f64 (50 / 100)\<rparr>"

record AlrDetector =
  alr_conf :: AlrDetectorConfig
  alr_last_send_time_ms :: "int option"
  alr_budget :: IntervalBudget
  alr_started_time_ms :: "int option"

definition new_AlrDetector :: "AlrDetectorConfig \<Rightarrow> AlrDetector" where
  "new_AlrDetector config =
     \<lparr>alr_conf = config, alr_last_send_time_ms = None, alr_budget = new_IntervalBudget 0 True,
      alr_started_time_ms = None\<rparr>"

text \<open>The last argument is \<open>rtc::TimeMillis()\<close>; the boolean result is the event log entry, if any.\<close>

definition OnBytesSent :: "int \<Rightarrow> int \<Rightarrow> int \<Rightarrow> AlrDetector \<Rightarrow> bool option \<times> AlrDetector" where
  "OnBytesSent bytes_sent send_time_ms time_millis a =
     (case alr_last_send_time_ms a of
        None \<Rightarrow> (None, a\<lparr>alr_last_send_time_ms := Some send_time_ms\<rparr>)
      | Some last_send_time_ms \<Rightarrow>
          let delta_time_ms = send_time_ms - last_send_time_ms;
              budget = IncreaseBudget delta_time_ms (UseBudget bytes_sent (alr_budget a));
              a = a\<lparr>alr_last_send_time_ms := Some send_time_ms, alr_budget := budget\<rparr>
          in if budget_ratio budget > start_budget_level_ratio (alr_conf a) \<and> alr_started_time_ms a = None
             then (Some True, a\<lparr>alr_started_time_ms := Some time_millis\<rparr>)
             else if budget_ratio budget < stop_budget_level_ratio (alr_conf a) \<and> alr_started_time_ms a \<noteq> None
             then (Some False, a\<lparr>alr_started_time_ms := None\<rparr>)
             else (None, a))"

definition SetEstimatedBitrate :: "int \<Rightarrow> AlrDetector \<Rightarrow> AlrDetector" where
  "SetEstimatedBitrate bitrate_bps a =
     (let target_rate_kbps =
            trunc (ddiv (dmul (f64 (of_int bitrate_bps)) (bandwidth_usage_ratio (alr_conf a))) 1000)
      in a\<lparr>alr_budget := set_target_rate_kbps target_rate_kbps (alr_budget a)\<rparr>)"

definition GetApplicationLimitedRegionStartTime :: "AlrDetector \<Rightarrow> int option" where
  "GetApplicationLimitedRegionStartTime a = alr_started_time_ms a"

section \<open>Runs of the detector\<close>

datatype alr_op =
    AlrSent int int int
  | AlrEstimate int

fun alr_step :: "alr_op \<Rightarrow> AlrDetector \<Rightarrow> AlrDetector" where
  "alr_step (AlrSent bytes send_time now) a = snd (OnBytesSent bytes send_time now a)"
| "alr_step (AlrEstimate bitrate) a = SetEstimatedBitrate bitrate a"

text \<open>What the callers guarantee: byte counts below 2 GiB, send times in order, positive estimates.\<close>

fun alr_op_ok :: "alr_op \<Rightarrow> AlrDetector \<Rightarrow> bool" where
  "alr_op_ok (AlrSent bytes send_time now) a \<longleftrightarrow> 0 \<le> bytes \<and> bytes < 2 ^ 31 \<and>
     (case alr_last_send_time_ms a of None \<Rightarrow> True | Some last_time \<Rightarrow> last_time \<le> send_time)"
| "alr_op_ok (AlrEstimate bitrate) a \<longleftrightarrow> 0 \<le> bitrate"

fun alr_ops_ok :: "alr_op list \<Rightarrow> AlrDetector \<Rightarrow> bool" where
  "alr_ops_ok [] a \<longleftrightarrow> True"
| "alr_ops_ok (op # ops) a \<longleftrightarrow> alr_op_ok op a \<and> alr_ops_ok ops (alr_step op a)"

section \<open>Invariant\<close>

definition budget_ok :: "IntervalBudget \<Rightarrow> bool" where
  "budget_ok b \<longleftrightarrow> 0 \<le> ib_target_rate_kbps b \<and>
     ib_max_bytes_in_budget b = (kWindowMs * ib_target_rate_kbps b) div 8 \<and>
     \<bar>ib_bytes_remaining b\<bar> \<le> ib_max_bytes_in_budget b"

lemma narrow_int_id: "0 \<le> v \<Longrightarrow> v < 2 ^ 31 \<Longrightarrow> narrow_int v = v"
  by (simp add: narrow_int_def)

lemma budget_ok_set_rate: "0 \<le> rate \<Longrightarrow> budget_ok (set_target_rate_kbps rate b)"
  by (auto simp: budget_ok_def set_target_rate_kbps_def Let_def kWindowMs_def sdiv_nonneg)

lemma budget_ok_use: "budget_ok b \<Longrightarrow> 0 \<le> n \<Longrightarrow> n < 2 ^ 31 \<Longrightarrow> budget_ok (UseBudget n b)"
  by (auto simp: budget_ok_def UseBudget_def narrow_int_id)

lemma budget_ok_increase:
  assumes "budget_ok b" and "0 \<le> d"
  shows "budget_ok (IncreaseBudget d b)"
proof -
  have "0 \<le> ib_target_rate_kbps b * d" using assms by (simp add: budget_ok_def)
  then show ?thesis
    using assms(1) by (auto simp: budget_ok_def IncreaseBudget_def Let_def sdiv_nonneg)
qed

definition alr_ok :: "AlrDetector \<Rightarrow> bool" where
  "alr_ok a \<longleftrightarrow> budget_ok (alr_budget a) \<and> ib_can_build_up_underuse (alr_budget a) \<and>
     0 \<le> bandwidth_usage_ratio (alr_conf a)"

lemma alr_ok_new: "0 \<le> bandwidth_usage_ratio c \<Longrightarrow> alr_ok (new_AlrDetector c)"
  by (simp add: alr_ok_def new_AlrDetector_def new_IntervalBudget_def budget_ok_set_rate set_target_rate_kbps_def Let_def)
    (simp add: budget_ok_def kWindowMs_def)

lemma trunc_ge_0: "0 \<le> x \<Longrightarrow> 0 \<le> trunc x"
  by (simp add: trunc_def)

lemma alr_ok_step:
  assumes "alr_ok a" and "alr_op_ok op a"
  shows "alr_ok (alr_step op a)"
proof (cases op)
  case (AlrSent bytes send_time now)
  let ?b = "\<lambda>t. IncreaseBudget (send_time - t) (UseBudget bytes (alr_budget a))"
  have "budget_ok (?b t)" if "alr_last_send_time_ms a = Some t" for t
    using assms that AlrSent by (auto simp: alr_ok_def intro!: budget_ok_increase budget_ok_use)
  moreover have "ib_can_build_up_underuse (?b t) = ib_can_build_up_underuse (alr_budget a)" for t
    by (simp add: IncreaseBudget_def UseBudget_def Let_def)
  ultimately show ?thesis
    using assms(1) AlrSent by (auto simp: alr_ok_def OnBytesSent_def Let_def split: option.splits)
next
  case (AlrEstimate bitrate)
  have "0 \<le> trunc (ddiv (dmul (f64 (of_int bitrate)) (bandwidth_usage_ratio (alr_conf a))) 1000)"
    using assms AlrEstimate
    by (auto simp: alr_ok_def ddiv_def dmul_def intro!: trunc_ge_0 f64_nonneg mult_nonneg_nonneg divide_nonneg_nonneg)
  then show ?thesis
    using assms AlrEstimate
    by (simp add: alr_ok_def SetEstimatedBitrate_def Let_def budget_ok_set_rate) (simp add: set_target_rate_kbps_def Let_def)
qed

lemma alr_ok_run: "alr_ok a \<Longrightarrow> alr_ops_ok ops a \<Longrightarrow> alr_ok (fold alr_step ops a)"
  by (induction ops arbitrary: a) (auto simp: alr_ok_step)

lemma ddiv_self_bound:
  assumes "\<bar>r\<bar> \<le> m" and "m \<noteq> 0"
  shows "- 1 \<le> ddiv (f64 (of_int r)) (f64 (of_int m))" "ddiv (f64 (of_int r)) (f64 (of_int m)) \<le> 1"
proof -
  let ?m = "f64 (of_int m)" and ?r = "f64 (of_int r)"
  have "1 \<le> ?m" using double.rnd_ge [of 1 "of_int m"] assms by simp
  then have m: "0 < ?m" by simp
  have "?r \<le> ?m" using assms by (intro double.rnd_mono) simp
  moreover have "- ?m \<le> ?r" unfolding round_to_minus [symmetric] using assms by (intro double.rnd_mono) simp
  ultimately have q: "?r / ?m \<le> 1" "- 1 \<le> ?r / ?m" using m by (simp_all add: field_simps)
  have "representable 53 (- 1)" using representable_of_int [of "- 1" 53] by simp
  then show "- 1 \<le> ddiv ?r ?m" "ddiv ?r ?m \<le> 1"
    unfolding ddiv_def using q by (auto intro: double.rnd_le double.rnd_ge)
qed

lemma alr_conf_run: "alr_conf (fold alr_step ops a) = alr_conf a"
proof (induction ops arbitrary: a)
  case (Cons op ops)
  have "alr_conf (alr_step op a) = alr_conf a"
    by (cases op) (auto simp: OnBytesSent_def SetEstimatedBitrate_def Let_def split: option.splits)
  then show ?case using Cons by simp
qed simp

text \<open>A second at the target rate refills the budget from its lowest level.\<close>

lemma budget_refill:
  assumes "budget_ok b" and "ib_can_build_up_underuse b" and "1000 \<le> d" and "2 \<le> ib_target_rate_kbps b"
  shows "ib_bytes_remaining (IncreaseBudget d b) = ib_max_bytes_in_budget b"
    and "budget_ratio (IncreaseBudget d b) = 1"
proof -
  let ?r = "ib_target_rate_kbps b" and ?m = "ib_max_bytes_in_budget b"
  have "?r * 1000 \<le> ?r * d" using assms(3,4) by (intro mult_left_mono) auto
  then have "(?r * 1000) div 8 \<le> ?r * d div 8" by (intro zdiv_mono1) auto
  moreover have d: "0 \<le> ?r * d" using assms(3,4) by simp
  moreover have "?m = (500 * ?r) div 8" using assms(1) by (simp add: budget_ok_def kWindowMs_def)
  ultimately have "2 * ?m \<le> ?r * d div 8" "0 < ?m" using assms(4) by linarith+
  then show e: "ib_bytes_remaining (IncreaseBudget d b) = ?m"
    using assms(1,2) d by (auto simp: budget_ok_def IncreaseBudget_def Let_def sdiv_nonneg)
  have m: "ib_max_bytes_in_budget (IncreaseBudget d b) = ?m" by (simp add: IncreaseBudget_def Let_def)
  have "1 \<le> f64 (of_int ?m)" using double.rnd_ge [of 1 "of_int ?m"] \<open>0 < ?m\<close> by simp
  then show "budget_ratio (IncreaseBudget d b) = 1"
    unfolding budget_ratio_def e m using \<open>0 < ?m\<close> double.rnd_exact [of 1] by (simp add: ddiv_def)
qed

section \<open>Properties\<close>

text \<open>
  C29. The detector's budget never leaves its window: after any sequence of estimates and sends the
  remaining budget is within half a second of the target rate in either direction, and the ratio the
  thresholds are compared with lies in [-1, 1].
\<close>

theorem alr_budget_bounded:
  assumes "0 \<le> bandwidth_usage_ratio c" and "alr_ops_ok ops (new_AlrDetector c)"
  defines "b \<equiv> alr_budget (fold alr_step ops (new_AlrDetector c))"
  shows "\<bar>ib_bytes_remaining b\<bar> \<le> (kWindowMs * ib_target_rate_kbps b) div 8 \<and>
    - 1 \<le> budget_ratio b \<and> budget_ratio b \<le> 1"
proof -
  have "budget_ok b" using alr_ok_run [OF alr_ok_new [OF assms(1)] assms(2)] by (simp add: b_def alr_ok_def)
  then show ?thesis
    using ddiv_self_bound by (auto simp: budget_ok_def budget_ratio_def)
qed

text \<open>
  C28. An idle sender is noticed: a send that comes a second or more after the previous one, of whatever
  size, finds the budget full and leaves the detector in an application-limited region, provided the
  target rate is not so small that the window is empty and the start threshold is below one.
\<close>

theorem alr_detects_idle:
  assumes "0 \<le> bandwidth_usage_ratio c" and "alr_ops_ok ops (new_AlrDetector c)"
    and "alr_last_send_time_ms (fold alr_step ops (new_AlrDetector c)) = Some t"
    and "t + 1000 \<le> send_time" and "2 \<le> ib_target_rate_kbps (alr_budget (fold alr_step ops (new_AlrDetector c)))"
    and "start_budget_level_ratio c < 1" and "stop_budget_level_ratio c \<le> 1"
    and "0 \<le> bytes" and "bytes < 2 ^ 31"
  shows "GetApplicationLimitedRegionStartTime
    (snd (OnBytesSent bytes send_time now (fold alr_step ops (new_AlrDetector c)))) \<noteq> None"
proof -
  let ?a = "fold alr_step ops (new_AlrDetector c)"
  have ok: "alr_ok ?a" by (rule alr_ok_run [OF alr_ok_new [OF assms(1)] assms(2)])
  have conf: "alr_conf ?a = c" by (simp add: alr_conf_run new_AlrDetector_def)
  have "budget_ok (UseBudget bytes (alr_budget ?a))" using ok assms(8,9) by (simp add: alr_ok_def budget_ok_use)
  then have "budget_ratio (IncreaseBudget (send_time - t) (UseBudget bytes (alr_budget ?a))) = 1"
    using ok assms(4,5) by (intro budget_refill(2)) (auto simp: alr_ok_def UseBudget_def)
  then show ?thesis
    using assms(3,6,7) conf
    by (auto simp: OnBytesSent_def Let_def GetApplicationLimitedRegionStartTime_def)
qed

definition sample_alr_ops :: "alr_op list" where
  "sample_alr_ops = [AlrEstimate 1000000, AlrSent 1000 0 0, AlrSent 2000 20 20]"

lemma sample_alr_ok:
  "alr_ops_ok sample_alr_ops (new_AlrDetector default_AlrDetectorConfig)"
  "alr_last_send_time_ms (fold alr_step sample_alr_ops (new_AlrDetector default_AlrDetectorConfig)) = Some 20"
  "ib_target_rate_kbps (alr_budget (fold alr_step sample_alr_ops (new_AlrDetector default_AlrDetectorConfig))) = 650"
  by code_simp+

lemma default_alr_thresholds:
  "0 \<le> bandwidth_usage_ratio default_AlrDetectorConfig"
  "start_budget_level_ratio default_AlrDetectorConfig < 1"
  "stop_budget_level_ratio default_AlrDetectorConfig \<le> 1"
  by code_simp+

theorem alr_budget_bounded_witness:
  "\<bar>ib_bytes_remaining (alr_budget (fold alr_step sample_alr_ops (new_AlrDetector default_AlrDetectorConfig)))\<bar> \<le> 40625"
  using alr_budget_bounded [OF default_alr_thresholds(1) sample_alr_ok(1)]
  by (simp add: sample_alr_ok(3) kWindowMs_def)

theorem alr_detects_idle_witness:
  "GetApplicationLimitedRegionStartTime (snd (OnBytesSent 1200 1020 1020
     (fold alr_step sample_alr_ops (new_AlrDetector default_AlrDetectorConfig)))) \<noteq> None"
  by (rule alr_detects_idle [OF default_alr_thresholds(1) sample_alr_ok(1,2)])
    (simp_all add: sample_alr_ok(3) default_alr_thresholds)

end
