(* ===== verification/BitrateProber.thy ===== *)
theory BitrateProber
  imports AlrDetector "HOL-Library.Monad_Syntax"
begin

text \<open>
  The bandwidth prober \<open>modules/pacing/bitrate_prober.cc\<close>: a queue of probe clusters and a three-state
  machine. Times may be infinite, as in the code. The narrowings from 64-bit rates and sizes to the
  \<open>int\<close> members of \<open>PacedPacketInfo\<close> are written out; a failing \<open>RTC_CHECK\<close> and a signed overflow of
  the byte count are \<^term>\<open>None\<close>. The debug assertions of the prober state what its callers owe it,
  so they are modelled too, as \<open>create_asserts\<close> and \<open>sent_asserts\<close>: the operations are those of a release
  build, and a run stops at a call whose assertions do not hold. Field trial values are the
  configuration record.
\<close>

definition kProbeClusterTimeout :: int where
  "kProbeClusterTimeout = Seconds 5"

definition kMaxPendingProbeClusters :: nat where
  "kMaxPendingProbeClusters = 5"

definition kNotAProbe :: int where
  "kNotAProbe = - 1"

record PacedPacketInfo =
  send_bitrate_bps :: int
  probe_cluster_id :: int
  probe_cluster_min_probes :: int
  probe_cluster_min_bytes :: int
  probe_cluster_bytes_sent :: int

definition default_PacedPacketInfo :: PacedPacketInfo where
  "default_PacedPacketInfo =
     \<lparr>send_bitrate_bps = - 1, probe_cluster_id = kNotAProbe, probe_cluster_min_probes = - 1,
      probe_cluster_min_bytes = - 1, probe_cluster_bytes_sent = 0\<rparr>"

record ProbeClusterConfig =
  at_time :: int
  target_data_rate :: int
  target_duration :: int
  target_probe_count :: int
  cluster_config_id :: int

record BitrateProberConfig =
  min_probe_delta :: int
  max_probe_delay :: int
  min_packet_size :: int

definition default_BitrateProberConfig :: BitrateProberConfig where
  "default_BitrateProberConfig =
     \<lparr>min_probe_delta = Millis 2, max_probe_delay = Millis 10, min_packet_size = 200\<rparr>"

datatype ProbingState = StateDisabled | StateInactive | StateActive

record ProbeCluster =
  pc_pace_info :: PacedPacketInfo
  sent_probes :: int
  sent_bytes :: int
  requested_at :: int
  started_at :: int

record BitrateProber =
  probing_state :: ProbingState
  pr_clusters :: "ProbeCluster list"
  next_probe_time :: int
  prober_config :: BitrateProberConfig

definition SetEnabled :: "bool \<Rightarrow> BitrateProber \<Rightarrow> BitrateProber" where
  "SetEnabled enable p =
     (if enable
      then if probing_state p = StateDisabled then p\<lparr>probing_state := StateInactive\<rparr> else p
      else p\<lparr>probing_state := StateDisabled\<rparr>)"

definition new_BitrateProber :: "BitrateProberConfig \<Rightarrow> BitrateProber" where
  "new_BitrateProber config =
     SetEnabled True \<lparr>probing_state = StateDisabled, pr_clusters = [],
       next_probe_time = PlusInfinityVal, prober_config = config\<rparr>"

definition is_probing :: "BitrateProber \<Rightarrow> bool" where
  "is_probing p \<longleftrightarrow> probing_state p = StateActive"

definition RecommendedMinProbeSize :: "BitrateProber \<Rightarrow> int" where
  "RecommendedMinProbeSize p =
     (case pr_clusters p of
        [] \<Rightarrow> 0
      | c # _ \<Rightarrow> size_of (send_bitrate_bps (pc_pace_info c)) (min_probe_delta (prober_config p)))"

definition ReadyToSetActiveState :: "int \<Rightarrow> BitrateProber \<Rightarrow> bool" where
  "ReadyToSetActiveState packet_size p =
     (if pr_clusters p = [] then False
      else case probing_state p of
          StateDisabled \<Rightarrow> False
        | StateActive \<Rightarrow> False
        | StateInactive \<Rightarrow> packet_size \<ge> min (RecommendedMinProbeSize p) (min_packet_size (prober_config p)))"

definition prober_OnIncomingPacket :: "int \<Rightarrow> BitrateProber \<Rightarrow> BitrateProber" where
  "prober_OnIncomingPacket packet_size p =
     (if ReadyToSetActiveState packet_size p
      then p\<lparr>next_probe_time := MinusInfinityVal, probing_state := StateActive\<rparr> else p)"

fun expire_clusters :: "int \<Rightarrow> ProbeCluster list \<Rightarrow> ProbeCluster list" where
  "expire_clusters now [] = []"
| "expire_clusters now (c # cs) =
     (if unit_minus now (requested_at c) > kProbeClusterTimeout \<or>
         length (c # cs) > kMaxPendingProbeClusters
      then expire_clusters now cs else c # cs)"

definition CreateProbeCluster :: "ProbeClusterConfig \<Rightarrow> BitrateProber \<Rightarrow> BitrateProber" where
  "CreateProbeCluster cluster_config p =
     (let clusters = expire_clusters (at_time cluster_config) (pr_clusters p);
          pace_info =
            \<lparr>send_bitrate_bps = narrow_int (target_data_rate cluster_config),
             probe_cluster_id = cluster_config_id cluster_config,
             probe_cluster_min_probes = target_probe_count cluster_config,
             probe_cluster_min_bytes =
               narrow_int (size_of (target_data_rate cluster_config) (target_duration cluster_config)),
             probe_cluster_bytes_sent = 0\<rparr>;
          cluster = \<lparr>pc_pace_info = pace_info, sent_probes = 0, sent_bytes = 0,
             requested_at = at_time cluster_config, started_at = MinusInfinityVal\<rparr>;
          p = p\<lparr>pr_clusters := clusters @ [cluster]\<rparr>
      in if ReadyToSetActiveState 0 p
         then p\<lparr>next_probe_time := MinusInfinityVal, probing_state := StateActive\<rparr> else p)"

definition NextProbeTime :: "BitrateProber \<Rightarrow> int" where
  "NextProbeTime p =
     (if probing_state p \<noteq> StateActive \<or> pr_clusters p = [] then PlusInfinityVal
      else next_probe_time p)"

definition CurrentCluster :: "int \<Rightarrow> BitrateProber \<Rightarrow> PacedPacketInfo option \<times> BitrateProber" where
  "CurrentCluster now p =
     (if pr_clusters p = [] \<or> probing_state p \<noteq> StateActive then (None, p)
      else let p = (if IsFinite (next_probe_time p) \<and>
                       unit_minus now (next_probe_time p) > max_probe_delay (prober_config p)
                    then p\<lparr>pr_clusters := tl (pr_clusters p)\<rparr> else p)
           in case pr_clusters p of
                [] \<Rightarrow> (None, p\<lparr>probing_state := StateInactive\<rparr>)
              | c # _ \<Rightarrow> (Some ((pc_pace_info c)\<lparr>probe_cluster_bytes_sent := sent_bytes c\<rparr>), p))"

definition CalculateNextProbeTime :: "ProbeCluster \<Rightarrow> int option" where
  "CalculateNextProbeTime cluster =
     (if send_bitrate_bps (pc_pace_info cluster) \<le> 0 then None
      else if \<not> IsFinite (started_at cluster) then None
      else do {
        delta \<leftarrow> time_of (sent_bytes cluster) (send_bitrate_bps (pc_pace_info cluster));
        Some (unit_plus (started_at cluster) delta)
      })"

definition ProbeSent :: "int \<Rightarrow> int \<Rightarrow> BitrateProber \<Rightarrow> BitrateProber option" where
  "ProbeSent now probe_size p =
     (case pr_clusters p of
        [] \<Rightarrow> Some p
      | c # cs \<Rightarrow>
          if sent_bytes c + probe_size > 2147483647 then None
          else do {
            let cluster = (if sent_probes c = 0 then c\<lparr>started_at := now\<rparr> else c);
            let cluster = cluster\<lparr>sent_bytes := sent_bytes cluster + probe_size,
                                  sent_probes := sent_probes cluster + 1\<rparr>;
            probe_time \<leftarrow> CalculateNextProbeTime cluster;
            let p = p\<lparr>next_probe_time := probe_time\<rparr>;
            let clusters =
              (if sent_bytes cluster \<ge> probe_cluster_min_bytes (pc_pace_info cluster) \<and>
                  sent_probes cluster \<ge> probe_cluster_min_probes (pc_pace_info cluster)
               then cs else cluster # cs);
            let p = p\<lparr>pr_clusters := clusters\<rparr>;
            Some (if clusters = [] then p\<lparr>probing_state := StateInactive\<rparr> else p)
          })"

section \<open>Assertions\<close>

text \<open>The assertions of \<^const>\<open>CreateProbeCluster\<close>: on entry, on the narrowed byte count, on exit.\<close>

definition create_asserts :: "ProbeClusterConfig \<Rightarrow> BitrateProber \<Rightarrow> bool" where
  "create_asserts cluster_config p \<longleftrightarrow>
     probing_state p \<noteq> StateDisabled \<and>
     0 \<le> narrow_int (size_of (target_data_rate cluster_config) (target_duration cluster_config)) \<and>
     (probing_state (CreateProbeCluster cluster_config p) = StateActive \<or>
      probing_state (CreateProbeCluster cluster_config p) = StateInactive)"

text \<open>The assertions of \<^const>\<open>ProbeSent\<close>: two on entry, one for a cluster's first probe.\<close>

definition sent_asserts :: "int \<Rightarrow> BitrateProber \<Rightarrow> bool" where
  "sent_asserts probe_size p \<longleftrightarrow>
     probing_state p = StateActive \<and> probe_size \<noteq> 0 \<and>
     (case pr_clusters p of
        [] \<Rightarrow> True
      | c # _ \<Rightarrow> sent_probes c = 0 \<longrightarrow> \<not> IsFinite (started_at c))"

section \<open>Runs\<close>

datatype prober_op =
    ProberEnable bool
  | ProberIncoming int
  | ProberCreate ProbeClusterConfig
  | ProberCurrent int
  | ProberSent int int

text \<open>A call whose assertions fail stops the run.\<close>

fun prober_step :: "prober_op \<Rightarrow> BitrateProber \<Rightarrow> BitrateProber option" where
  "prober_step (ProberEnable b) p = Some (SetEnabled b p)"
| "prober_step (ProberIncoming probe_size) p = Some (prober_OnIncomingPacket probe_size p)"
| "prober_step (ProberCreate c) p = (if create_asserts c p then Some (CreateProbeCluster c p) else None)"
| "prober_step (ProberCurrent now) p = Some (snd (CurrentCluster now p))"
| "prober_step (ProberSent now probe_size) p =
     (if sent_asserts probe_size p then ProbeSent now probe_size p else None)"

fun prober_run :: "prober_op list \<Rightarrow> BitrateProber \<Rightarrow> BitrateProber option" where
  "prober_run [] p = Some p"
| "prober_run (op # ops) p = Option.bind (prober_step op p) (prober_run ops)"

fun bytes_of :: "prober_op \<Rightarrow> int" where
  "bytes_of (ProberSent now probe_size) = probe_size"
| "bytes_of _ = 0"

text \<open>
  What the caller owes the prober: values in range (\<open>prober_op_ok\<close>), clusters only while the prober is
  enabled and probes only while it reports to be probing (\<open>prober_accepts\<close>, at every call of a run).
\<close>

fun prober_op_ok :: "prober_op \<Rightarrow> bool" where
  "prober_op_ok (ProberCreate c) \<longleftrightarrow> 0 < target_data_rate c \<and> target_data_rate c < 2 ^ 31 \<and>
     0 \<le> size_of (target_data_rate c) (target_duration c) \<and>
     size_of (target_data_rate c) (target_duration c) < 2 ^ 31"
| "prober_op_ok (ProberSent now probe_size) \<longleftrightarrow> IsFinite now \<and> 0 < probe_size"
| "prober_op_ok _ \<longleftrightarrow> True"

fun prober_accepts :: "prober_op \<Rightarrow> BitrateProber \<Rightarrow> bool" where
  "prober_accepts (ProberCreate c) p \<longleftrightarrow> probing_state p \<noteq> StateDisabled"
| "prober_accepts (ProberSent now probe_size) p \<longleftrightarrow> is_probing p"
| "prober_accepts _ p \<longleftrightarrow> True"

fun prober_accepts_all :: "prober_op list \<Rightarrow> BitrateProber \<Rightarrow> bool" where
  "prober_accepts_all [] p \<longleftrightarrow> True"
| "prober_accepts_all (op # ops) p \<longleftrightarrow> prober_accepts op p \<and>
     (case prober_step op p of None \<Rightarrow> True | Some p' \<Rightarrow> prober_accepts_all ops p')"

section \<open>Invariant\<close>

definition cluster_ok :: "int \<Rightarrow> ProbeCluster \<Rightarrow> bool" where
  "cluster_ok sent c \<longleftrightarrow> 0 < send_bitrate_bps (pc_pace_info c) \<and> 0 \<le> sent_probes c \<and>
     0 \<le> sent_bytes c \<and> sent_bytes c \<le> sent \<and> (sent_probes c = 0 \<longleftrightarrow> \<not> IsFinite (started_at c))"

definition prober_ok :: "int \<Rightarrow> BitrateProber \<Rightarrow> bool" where
  "prober_ok sent p \<longleftrightarrow> (\<forall>c\<in>set (pr_clusters p). cluster_ok sent c) \<and>
     (probing_state p = StateActive \<longrightarrow> pr_clusters p \<noteq> []) \<and>
     length (pr_clusters p) \<le> kMaxPendingProbeClusters + 1"

lemma cluster_ok_mono: "cluster_ok t c \<Longrightarrow> t \<le> t' \<Longrightarrow> cluster_ok t' c"
  by (auto simp: cluster_ok_def)

lemma expire_subset: "set (expire_clusters now cs) \<subseteq> set cs"
  by (induction cs) auto

lemma expire_length: "length (expire_clusters now cs) \<le> kMaxPendingProbeClusters"
  by (induction cs) (auto simp: not_less)

lemma create_asserts_hold:
  assumes "prober_op_ok (ProberCreate c)" and "prober_accepts (ProberCreate c) p"
  shows "create_asserts c p"
  using assms by (cases "probing_state p") (auto simp: create_asserts_def CreateProbeCluster_def Let_def narrow_int_id)

lemma sent_asserts_hold:
  assumes "prober_ok sent p" and "prober_op_ok (ProberSent now probe_size)"
    and "prober_accepts (ProberSent now probe_size) p"
  shows "sent_asserts probe_size p"
  using assms by (auto simp: sent_asserts_def prober_ok_def cluster_ok_def is_probing_def split: list.splits)

lemma prober_ok_create:
  assumes "prober_ok sent p" and "prober_op_ok (ProberCreate c)" and "0 \<le> sent"
  shows "prober_ok sent (CreateProbeCluster c p)"
  using assms expire_subset [of "at_time c" "pr_clusters p"] expire_length [of "at_time c" "pr_clusters p"]
  by (auto simp: prober_ok_def CreateProbeCluster_def Let_def cluster_ok_def narrow_int_id IsFinite_def)

lemma prober_ok_current: "prober_ok sent p \<Longrightarrow> prober_ok sent (snd (CurrentCluster now p))"
  by (cases "pr_clusters p")
    (auto simp: prober_ok_def CurrentCluster_def Let_def split: list.splits)

lemma prober_ok_sent:
  assumes "prober_ok sent p" and "IsFinite now" and "0 \<le> probe_size" and "sent + probe_size < 2 ^ 31"
  shows "\<exists>p'. ProbeSent now probe_size p = Some p' \<and> prober_ok (sent + probe_size) p'"
proof (cases "pr_clusters p")
  case Nil
  then show ?thesis using assms by (auto simp: ProbeSent_def prober_ok_def)
next
  case (Cons c cs)
  have c: "cluster_ok sent c" and cs: "\<forall>d\<in>set cs. cluster_ok (sent + probe_size) d"
    and len: "length (c # cs) \<le> kMaxPendingProbeClusters + 1"
    using assms Cons cluster_ok_mono [of sent _ "sent + probe_size"] by (auto simp: prober_ok_def)
  define d where "d = (if sent_probes c = 0 then c\<lparr>started_at := now\<rparr> else c)
      \<lparr>sent_bytes := sent_bytes c + probe_size, sent_probes := sent_probes c + 1\<rparr>"
  have d: "cluster_ok (sent + probe_size) d" and fin: "IsFinite (started_at d)"
    using c assms(2,3) by (auto simp: d_def cluster_ok_def)
  then obtain t where t: "CalculateNextProbeTime d = Some t"
    by (auto simp: CalculateNextProbeTime_def cluster_ok_def time_of_def)
  have small: "\<not> sent_bytes c + probe_size > 2147483647" using c assms(4) by (auto simp: cluster_ok_def)
  define cs' where "cs' = (if sent_bytes d \<ge> probe_cluster_min_bytes (pc_pace_info d) \<and>
      sent_probes d \<ge> probe_cluster_min_probes (pc_pace_info d) then cs else d # cs)"
  have "ProbeSent now probe_size p = Some (let p = p\<lparr>next_probe_time := t, pr_clusters := cs'\<rparr>
      in if cs' = [] then p\<lparr>probing_state := StateInactive\<rparr> else p)"
    using small t by (cases "sent_probes c = 0") (simp_all add: ProbeSent_def Cons d_def cs'_def Let_def)
  moreover have "\<forall>e\<in>set cs'. cluster_ok (sent + probe_size) e" "length cs' \<le> kMaxPendingProbeClusters + 1"
    using d cs len by (auto simp: cs'_def)
  ultimately show ?thesis by (auto simp: prober_ok_def Let_def)
qed

lemma prober_ok_step:
  assumes "prober_ok sent p" and "prober_op_ok op" and "prober_accepts op p"
    and "0 \<le> sent" and "sent + bytes_of op < 2 ^ 31"
  shows "\<exists>p'. prober_step op p = Some p' \<and> prober_ok (sent + bytes_of op) p'"
proof (cases op)
  case (ProberEnable b)
  then show ?thesis using assms by (auto simp: prober_ok_def SetEnabled_def)
next
  case (ProberIncoming probe_size)
  then show ?thesis
    using assms by (auto simp: prober_ok_def prober_OnIncomingPacket_def ReadyToSetActiveState_def)
next
  case (ProberCreate c)
  then show ?thesis using prober_ok_create create_asserts_hold [of c p] assms by simp
next
  case (ProberCurrent now)
  then show ?thesis using prober_ok_current assms by simp
next
  case (ProberSent now probe_size)
  then show ?thesis
    using prober_ok_sent [OF assms(1), of now probe_size] sent_asserts_hold [OF assms(1), of now probe_size] assms
    by simp
qed

lemma prober_ok_run:
  assumes "prober_ok sent p" and "\<forall>op\<in>set ops. prober_op_ok op" and "prober_accepts_all ops p" and "0 \<le> sent"
    and "sent + sum_list (map bytes_of ops) < 2 ^ 31"
  shows "\<exists>p'. prober_run ops p = Some p' \<and> prober_ok (sent + sum_list (map bytes_of ops)) p'"
  using assms
proof (induction ops arbitrary: p sent)
  case (Cons op ops)
  have nn: "0 \<le> bytes_of op" "\<forall>o'\<in>set ops. 0 \<le> bytes_of o'"
    using Cons.prems(2) by (auto elim!: prober_op_ok.elims)
  then have "0 \<le> sum_list (map bytes_of ops)" by (intro sum_list_nonneg) auto
  with Cons.prems nn obtain p1 where p1: "prober_step op p = Some p1" "prober_ok (sent + bytes_of op) p1"
    using prober_ok_step [of sent p op] by auto
  with Cons.IH [of "sent + bytes_of op" p1] Cons.prems nn show ?case by (simp add: add.assoc)
qed simp

lemma prober_ok_new: "prober_ok 0 (new_BitrateProber c)"
  by (simp add: prober_ok_def new_BitrateProber_def SetEnabled_def)

section \<open>Properties\<close>

text \<open>
  C25. The prober never runs into one of its checks, fatal or debug: in every sequence of enabling and
  disabling, incoming packets, cluster requests, queries and sent probes in which clusters are
  requested only while the prober is enabled (at positive rates below 2^31 bits per second, for less
  than 2 GiB each) and probes are reported only while it says it is probing (non-empty ones, at finite
  times, of less than 2 GiB in total), every step succeeds and every assertion of the code holds; while
  it reports to be probing it has a cluster to probe with, whose rate is positive, and it never holds
  more than six clusters.
\<close>

theorem prober_safe:
  assumes "\<forall>op\<in>set ops. prober_op_ok op" and "sum_list (map bytes_of ops) < 2 ^ 31"
    and "prober_accepts_all ops (new_BitrateProber c)"
  shows "\<exists>p. prober_run ops (new_BitrateProber c) = Some p \<and>
    (is_probing p \<longrightarrow> pr_clusters p \<noteq> []) \<and>
    (\<forall>cl\<in>set (pr_clusters p). 0 < send_bitrate_bps (pc_pace_info cl)) \<and>
    length (pr_clusters p) \<le> 6"
proof -
  obtain p where "prober_run ops (new_BitrateProber c) = Some p" "prober_ok (sum_list (map bytes_of ops)) p"
    using prober_ok_run [OF prober_ok_new assms(1,3)] assms(2) by auto
  then show ?thesis
    by (auto simp: prober_ok_def cluster_ok_def is_probing_def kMaxPendingProbeClusters_def)
qed

definition sample_prober_ops :: "prober_op list" where
  "sample_prober_ops =
     [ProberCreate \<lparr>at_time = 0, target_data_rate = 900000, target_duration = Millis 15,
        target_probe_count = 1, cluster_config_id = 1\<rparr>,
      ProberIncoming 1200, ProberCurrent 1000, ProberSent 1000 400, ProberSent 5000 1400,
      ProberEnable False, ProberIncoming 1200, ProberEnable True]"

lemma sample_prober_accepted:
  "prober_accepts_all sample_prober_ops (new_BitrateProber default_BitrateProberConfig)"
  by code_simp

theorem prober_safe_witness:
  "\<exists>p. prober_run sample_prober_ops (new_BitrateProber default_BitrateProberConfig) = Some p \<and>
     length (pr_clusters p) \<le> 6"
proof -
  have "\<forall>op\<in>set sample_prober_ops. prober_op_ok op" by code_simp
  moreover have "sum_list (map bytes_of sample_prober_ops) < 2 ^ 31" by (simp add: sample_prober_ops_def)
  ultimately show ?thesis using prober_safe [OF _ _ sample_prober_accepted] by blast
qed

end
