(* ===== verification/PacingController.thy ===== *)
theory PacingController
  imports PacketQueueDrain BitrateProber
begin

text \<open>
  The pacer, \<open>modules/pacing/pacing_controller.cc\<close>, on top of the packet queue and the prober. The
  clock and the \<open>PacketSender\<close> it calls (packet router, FEC and padding generation) are outside: they
  are the record \<open>packet_sender\<close> of functions over an environment state. The field trials are members
  of the controller's record. Clock readings and durations are finite; the infinities that
  \<open>NextSendTime\<close> distinguishes keep their values. \<^term>\<open>None\<close> is a failing \<open>RTC_CHECK\<close>, a division by
  zero or a failure of the queue or the prober. Logging is left out.
\<close>

section \<open>Environment and state\<close>

record 'e packet_sender =
  clock_CurrentTime :: "'e \<Rightarrow> int \<times> 'e"
  SendPacket :: "PacedPacket \<Rightarrow> PacedPacketInfo \<Rightarrow> 'e \<Rightarrow> 'e"
  FetchFec :: "'e \<Rightarrow> PacedPacket list \<times> 'e"
  GeneratePadding :: "int \<Rightarrow> 'e \<Rightarrow> PacedPacket list \<times> 'e"
  OnBatchComplete :: "'e \<Rightarrow> 'e"
  GetRtxSsrcForMedia :: "uint32_t \<Rightarrow> 'e \<Rightarrow> uint32_t option"

record PacingController =
  drain_large_queues :: bool
  send_padding_if_silent :: bool
  pace_audio :: bool
  ignore_transport_overhead :: bool
  fast_retransmissions :: bool
  keyframe_flushing :: bool
  transport_overhead_per_packet :: int
  send_burst_interval :: int
  last_timestamp :: int
  pacer_paused :: bool
  media_debt :: int
  padding_debt :: int
  pacing_rate :: int
  adjusted_media_rate :: int
  padding_rate :: int
  prober :: BitrateProber
  probing_send_failure :: bool
  last_process_time :: int
  last_send_time :: int
  first_sent_packet_time :: "int option"
  seen_first_packet :: bool
  packet_queue :: PrioritizedPacketQueue
  congested :: bool
  queue_time_limit :: int
  account_for_audio :: bool
  include_overhead :: bool
  circuit_breaker_threshold :: int

definition kCongestedPacketInterval :: int where
  "kCongestedPacketInterval = Millis 500"

definition kMaxDebtInTime :: int where
  "kMaxDebtInTime = Millis 500"

definition kMaxElapsedTime :: int where
  "kMaxElapsedTime = Seconds 2"

definition kMaxExpectedQueueLength :: int where
  "kMaxExpectedQueueLength = Millis 2000"

definition kPausedProcessInterval :: int where
  "kPausedProcessInterval = kCongestedPacketInterval"

definition kTargetPaddingDuration :: int where
  "kTargetPaddingDuration = Millis 5"

definition kMaxPaddingReplayDuration :: int where
  "kMaxPaddingReplayDuration = Millis 50"

definition kMaxEarlyProbeProcessing :: int where
  "kMaxEarlyProbeProcessing = Millis 1"

text \<open>The constructor; the arguments are the clock reading, the six field trials and the prober's
  configuration.\<close>

definition new_PacingController ::
  "int \<Rightarrow> bool \<Rightarrow> bool \<Rightarrow> bool \<Rightarrow> bool \<Rightarrow> bool \<Rightarrow> bool \<Rightarrow> BitrateProberConfig \<Rightarrow> PacingController" where
  "new_PacingController now drain pad_in_silence block_audio ignore_overhead fast_rtx flush_keyframes trials =
     \<lparr>drain_large_queues = drain, send_padding_if_silent = pad_in_silence, pace_audio = block_audio,
      ignore_transport_overhead = ignore_overhead, fast_retransmissions = fast_rtx,
      keyframe_flushing = flush_keyframes, transport_overhead_per_packet = 0, send_burst_interval = 0,
      last_timestamp = now, pacer_paused = False, media_debt = 0, padding_debt = 0, pacing_rate = 0,
      adjusted_media_rate = 0, padding_rate = 0, prober = new_BitrateProber trials,
      probing_send_failure = False, last_process_time = now, last_send_time = now,
      first_sent_packet_time = None, seen_first_packet = False,
      packet_queue = new_PrioritizedPacketQueue now, congested = False,
      queue_time_limit = kMaxExpectedQueueLength, account_for_audio = False, include_overhead = False,
      circuit_breaker_threshold = 65536\<rparr>"

type_synonym 'e pacer = "PacingController \<times> 'e"

section \<open>Clock and budgets\<close>

definition CurrentTime :: "'e packet_sender \<Rightarrow> 'e pacer \<Rightarrow> int \<times> 'e pacer" where
  "CurrentTime io st =
     (let (c, e) = st;
          (time, e) = clock_CurrentTime io e;
          time = (if time < last_timestamp c then last_timestamp c else time)
      in (time, (c\<lparr>last_timestamp := time\<rparr>, e)))"

definition UpdateTimeAndGetElapsed :: "int \<Rightarrow> PacingController \<Rightarrow> int \<times> PacingController" where
  "UpdateTimeAndGetElapsed now c =
     (if last_process_time c = MinusInfinityVal \<or> now < last_process_time c then (0, c)
      else let elapsed_time = now - last_process_time c;
               c = c\<lparr>last_process_time := now\<rparr>
           in (if elapsed_time > kMaxElapsedTime then kMaxElapsedTime else elapsed_time, c))"

definition UpdateBudgetWithElapsedTime :: "int \<Rightarrow> PacingController \<Rightarrow> PacingController" where
  "UpdateBudgetWithElapsedTime delta c =
     c\<lparr>media_debt := media_debt c - min (media_debt c) (size_of (adjusted_media_rate c) delta),
       padding_debt := padding_debt c - min (padding_debt c) (size_of (padding_rate c) delta)\<rparr>"

definition elapse_until :: "int \<Rightarrow> PacingController \<Rightarrow> PacingController" where
  "elapse_until now c =
     (let (elapsed, c) = UpdateTimeAndGetElapsed now c in UpdateBudgetWithElapsedTime elapsed c)"

definition UpdatePaddingBudgetWithSentData :: "int \<Rightarrow> PacingController \<Rightarrow> PacingController" where
  "UpdatePaddingBudgetWithSentData sent c =
     c\<lparr>padding_debt := min (padding_debt c + sent) (size_of (padding_rate c) kMaxDebtInTime)\<rparr>"

definition UpdateBudgetWithSentData :: "int \<Rightarrow> PacingController \<Rightarrow> PacingController" where
  "UpdateBudgetWithSentData sent c =
     UpdatePaddingBudgetWithSentData sent
       (c\<lparr>media_debt := min (media_debt c + sent) (size_of (adjusted_media_rate c) kMaxDebtInTime)\<rparr>)"

definition OnPacketSent :: "RtpPacketMediaType \<Rightarrow> int \<Rightarrow> int \<Rightarrow> PacingController \<Rightarrow> PacingController" where
  "OnPacketSent packet_type packet_size send_time c =
     (let c = (if first_sent_packet_time c = None \<and> packet_type \<noteq> kPadding
               then c\<lparr>first_sent_packet_time := Some send_time\<rparr> else c);
          c = (if (packet_type \<noteq> kAudio \<or> account_for_audio c) \<and> packet_size > 0
               then UpdateBudgetWithSentData packet_size c else c)
      in c\<lparr>last_send_time := send_time\<rparr>)"

definition QueueSizeData :: "PacingController \<Rightarrow> int" where
  "QueueSizeData c =
     SizeInPayloadBytes (packet_queue c) +
     (if include_overhead c then SizeInPackets (packet_queue c) * transport_overhead_per_packet c else 0)"

definition MaybeUpdateMediaRateDueToLongQueue :: "int \<Rightarrow> PacingController \<Rightarrow> PacingController option" where
  "MaybeUpdateMediaRateDueToLongQueue now c =
     (let c = c\<lparr>adjusted_media_rate := pacing_rate c\<rparr>
      in if \<not> drain_large_queues c then Some c
         else let queue_size_data = QueueSizeData c
         in if queue_size_data > 0
            then do {
              q \<leftarrow> UpdateAverageQueueTime now (packet_queue c);
              let c = c\<lparr>packet_queue := q\<rparr>;
              let avg_time_left = max (Millis 1) (queue_time_limit c - AverageQueueTime q);
              min_rate_needed \<leftarrow> rate_of queue_size_data avg_time_left;
              Some (if min_rate_needed > pacing_rate c
                    then c\<lparr>adjusted_media_rate := min_rate_needed\<rparr> else c)
            }
            else Some c)"

section \<open>Configuration\<close>

definition CreateProbeClusters :: "ProbeClusterConfig list \<Rightarrow> PacingController \<Rightarrow> PacingController" where
  "CreateProbeClusters configs c = c\<lparr>prober := fold CreateProbeCluster configs (prober c)\<rparr>"

definition pacer_SetPause :: "'e packet_sender \<Rightarrow> bool \<Rightarrow> 'e pacer \<Rightarrow> 'e pacer option" where
  "pacer_SetPause io paused st = do {
     let (now, (c, e)) = CurrentTime io st;
     q \<leftarrow> SetPauseState paused now (packet_queue c);
     Some (c\<lparr>pacer_paused := paused, packet_queue := q\<rparr>, e)
   }"

definition Pause :: "'e packet_sender \<Rightarrow> 'e pacer \<Rightarrow> 'e pacer option" where
  "Pause io = pacer_SetPause io True"

definition Resume :: "'e packet_sender \<Rightarrow> 'e pacer \<Rightarrow> 'e pacer option" where
  "Resume io = pacer_SetPause io False"

definition SetCongested :: "'e packet_sender \<Rightarrow> bool \<Rightarrow> 'e pacer \<Rightarrow> 'e pacer" where
  "SetCongested io now_congested st =
     (let (c, e) = (if congested (fst st) \<and> \<not> now_congested
                    then let (now, (c, e)) = CurrentTime io st in (elapse_until now c, e)
                    else st)
      in (c\<lparr>congested := now_congested\<rparr>, e))"

definition pacer_RemovePacketsForSsrc :: "uint32_t \<Rightarrow> PacingController \<Rightarrow> PacingController option" where
  "pacer_RemovePacketsForSsrc ssrc c = do {
     q \<leftarrow> RemovePacketsForSsrc ssrc (packet_queue c);
     Some (c\<lparr>packet_queue := q\<rparr>)
   }"

definition SetProbingEnabled :: "bool \<Rightarrow> PacingController \<Rightarrow> PacingController option" where
  "SetProbingEnabled enabled c =
     (if seen_first_packet c then None else Some (c\<lparr>prober := SetEnabled enabled (prober c)\<rparr>))"

definition SetPacingRates :: "'e packet_sender \<Rightarrow> int \<Rightarrow> int \<Rightarrow> 'e pacer \<Rightarrow> 'e pacer option" where
  "SetPacingRates io new_pacing_rate new_padding_rate st =
     (if new_pacing_rate \<le> 0 \<or> new_padding_rate < 0 then None
      else do {
        let (c, e) = st;
        let padding = (if new_padding_rate > new_pacing_rate then new_pacing_rate else new_padding_rate);
        let (now, (c, e)) = CurrentTime io (c\<lparr>pacing_rate := new_pacing_rate, padding_rate := padding\<rparr>, e);
        c \<leftarrow> MaybeUpdateMediaRateDueToLongQueue now c;
        Some (c, e)
      })"

definition SetCircuitBreakerThreshold :: "int \<Rightarrow> PacingController \<Rightarrow> PacingController" where
  "SetCircuitBreakerThreshold num_iterations c = c\<lparr>circuit_breaker_threshold := num_iterations\<rparr>"

definition SetAccountForAudioPackets :: "bool \<Rightarrow> PacingController \<Rightarrow> PacingController" where
  "SetAccountForAudioPackets account c = c\<lparr>account_for_audio := account\<rparr>"

definition SetIncludeOverhead :: "PacingController \<Rightarrow> PacingController" where
  "SetIncludeOverhead c = c\<lparr>include_overhead := True\<rparr>"

definition SetSendBurstInterval :: "int \<Rightarrow> PacingController \<Rightarrow> PacingController" where
  "SetSendBurstInterval burst_interval c = c\<lparr>send_burst_interval := burst_interval\<rparr>"

definition SetQueueTimeLimit :: "int \<Rightarrow> PacingController \<Rightarrow> PacingController" where
  "SetQueueTimeLimit limit c = c\<lparr>queue_time_limit := limit\<rparr>"

definition SetTransportOverhead :: "int \<Rightarrow> PacingController \<Rightarrow> PacingController" where
  "SetTransportOverhead overhead_per_packet c =
     (if ignore_transport_overhead c then c
      else c\<lparr>transport_overhead_per_packet := overhead_per_packet\<rparr>)"

definition ExpectedQueueTime :: "PacingController \<Rightarrow> int option" where
  "ExpectedQueueTime c = time_of (QueueSizeData c) (adjusted_media_rate c)"

definition CurrentBufferLevel :: "PacingController \<Rightarrow> int" where
  "CurrentBufferLevel c = max (media_debt c) (padding_debt c)"

section \<open>When to send next\<close>

definition ShouldSendKeepalive :: "int \<Rightarrow> PacingController \<Rightarrow> bool" where
  "ShouldSendKeepalive now c \<longleftrightarrow>
     (send_padding_if_silent c \<or> pacer_paused c \<or> congested c \<or> \<not> seen_first_packet c) \<and>
     now - last_send_time c \<ge> kCongestedPacketInterval"

definition NextUnpacedSendTime :: "PacingController \<Rightarrow> int option" where
  "NextUnpacedSendTime c = do {
     audio \<leftarrow> (if pace_audio c then Some MinusInfinityVal
              else LeadingPacketEnqueueTime kAudio (packet_queue c));
     if IsFinite audio then Some audio
     else do {
       retransmission \<leftarrow> (if fast_retransmissions c
                         then LeadingPacketEnqueueTime kRetransmission (packet_queue c)
                         else Some MinusInfinityVal);
       Some (if IsFinite retransmission then retransmission else MinusInfinityVal)
     }
   }"

definition paced_send_time :: "PacingController \<Rightarrow> int option" where
  "paced_send_time c = do {
     next_send_time \<leftarrow>
       (if adjusted_media_rate c > 0 \<and> \<not> pq_Empty (packet_queue c)
        then do {
          drain_time \<leftarrow> time_of (media_debt c) (adjusted_media_rate c);
          Some (last_process_time c + (if send_burst_interval c > drain_time then 0 else drain_time))
        }
        else if padding_rate c > 0 \<and> pq_Empty (packet_queue c)
        then do {
          media_time \<leftarrow> time_of (media_debt c) (adjusted_media_rate c);
          padding_time \<leftarrow> time_of (padding_debt c) (padding_rate c);
          let drain_time = max media_time padding_time;
          Some (last_process_time c +
            (if drain_time = 0 \<and> (media_debt c \<noteq> 0 \<or> padding_debt c \<noteq> 0) then 1 else drain_time))
        }
        else Some (last_process_time c + kPausedProcessInterval));
     Some (if send_padding_if_silent c
           then min next_send_time (last_send_time c + kPausedProcessInterval) else next_send_time)
   }"

definition NextSendTime :: "'e packet_sender \<Rightarrow> 'e pacer \<Rightarrow> (int \<times> 'e pacer) option" where
  "NextSendTime io st =
     (let (now, (c, e)) = CurrentTime io st
      in if pacer_paused c then Some (last_send_time c + kPausedProcessInterval, (c, e))
         else let probe_time = (if is_probing (prober c) \<and> \<not> probing_send_failure c
                                then NextProbeTime (prober c) else PlusInfinityVal)
         in if probe_time \<noteq> PlusInfinityVal
            then Some (if probe_time = MinusInfinityVal then now else probe_time, (c, e))
            else do {
              unpaced_send_time \<leftarrow> NextUnpacedSendTime c;
              if IsFinite unpaced_send_time then Some (unpaced_send_time, (c, e))
              else if congested c \<or> \<not> seen_first_packet c
              then Some (last_send_time c + kCongestedPacketInterval, (c, e))
              else do {
                next_send_time \<leftarrow> paced_send_time c;
                Some (next_send_time, (c, e))
              }
            })"

section \<open>Enqueueing\<close>

definition flush_for_keyframe :: "'e packet_sender \<Rightarrow> PacedPacket \<Rightarrow> 'e pacer \<Rightarrow> PacingController option" where
  "flush_for_keyframe io packet st =
     (let (c, e) = st
      in if keyframe_flushing c \<and> pk_packet_type packet = kVideo \<and> pk_is_key_frame packet \<and>
            pk_is_first_packet_of_frame packet \<and> \<not> HasKeyframePackets (pk_ssrc packet) (packet_queue c)
         then do {
           c \<leftarrow> pacer_RemovePacketsForSsrc (pk_ssrc packet) c;
           case GetRtxSsrcForMedia io (pk_ssrc packet) e of
             None \<Rightarrow> Some c
           | Some rtx_ssrc \<Rightarrow> pacer_RemovePacketsForSsrc rtx_ssrc c
         }
         else Some c)"

definition pacer_EnqueuePacket :: "'e packet_sender \<Rightarrow> PacedPacket \<Rightarrow> 'e pacer \<Rightarrow> 'e pacer option" where
  "pacer_EnqueuePacket io packet st = (if \<not> pk_has_packet_type packet then None else do {
     c \<leftarrow> flush_for_keyframe io packet st;
     let c = c\<lparr>prober := prober_OnIncomingPacket (pk_payload_size packet) (prober c)\<rparr>;
     let (now, (c, e)) = CurrentTime io (c, snd st);
     (c, e) \<leftarrow>
       (if pq_Empty (packet_queue c)
        then do {
          (next_send_time, (c, e)) \<leftarrow> NextSendTime io (c, e);
          let target_process_time = (if IsFinite next_send_time then min now next_send_time else now);
          Some (elapse_until target_process_time c, e)
        }
        else Some (c, e));
     q \<leftarrow> Push now packet (packet_queue c);
     c \<leftarrow> MaybeUpdateMediaRateDueToLongQueue now (c\<lparr>packet_queue := q, seen_first_packet := True\<rparr>);
     Some (c, e)
   })"

fun enqueue_all :: "'e packet_sender \<Rightarrow> PacedPacket list \<Rightarrow> 'e pacer \<Rightarrow> 'e pacer option" where
  "enqueue_all io [] st = Some st"
| "enqueue_all io (packet # packets) st = do {
     st \<leftarrow> pacer_EnqueuePacket io packet st;
     enqueue_all io packets st
   }"

section \<open>Sending\<close>

definition PaddingToAdd :: "int \<Rightarrow> int \<Rightarrow> PacingController \<Rightarrow> int" where
  "PaddingToAdd recommended_probe_size data_sent c =
     (if \<not> pq_Empty (packet_queue c) then 0
      else if congested c then 0
      else if recommended_probe_size \<noteq> 0
      then if recommended_probe_size > data_sent then recommended_probe_size - data_sent else 0
      else if padding_rate c > 0 \<and> padding_debt c = 0
      then size_of (padding_rate c) kTargetPaddingDuration
      else 0)"

definition send_and_fetch_fec ::
  "'e packet_sender \<Rightarrow> PacedPacket \<Rightarrow> PacedPacketInfo \<Rightarrow> 'e pacer \<Rightarrow> 'e pacer option" where
  "send_and_fetch_fec io packet pacing_info st =
     (let (c, e) = st;
          e = SendPacket io packet pacing_info e;
          (fec_packets, e) = FetchFec io e
      in enqueue_all io fec_packets (c, e))"

definition pop_when_allowed :: "bool \<Rightarrow> int \<Rightarrow> int \<Rightarrow> PacingController \<Rightarrow> (PacedPacket option \<times> PacingController) option" where
  "pop_when_allowed is_probe target_send_time now c =
     (if pq_Empty (packet_queue c) then Some (None, c)
      else do {
        unpaced \<leftarrow> NextUnpacedSendTime c;
        hold \<leftarrow>
          (if \<not> IsFinite unpaced \<and> \<not> is_probe
           then if congested c then Some True
                else if now \<le> target_send_time \<and> send_burst_interval c = 0
                then do {
                  flush_time \<leftarrow> time_of (media_debt c) (adjusted_media_rate c);
                  Some (now + flush_time > target_send_time)
                }
                else Some False
           else Some False);
        if hold then Some (None, c)
        else do {
          (packet, q) \<leftarrow> Pop (packet_queue c);
          Some (packet, c\<lparr>packet_queue := q\<rparr>)
        }
      })"

definition GetPendingPacket ::
  "'e packet_sender \<Rightarrow> PacedPacketInfo \<Rightarrow> int \<Rightarrow> int \<Rightarrow> 'e pacer \<Rightarrow> (PacedPacket option \<times> 'e pacer) option" where
  "GetPendingPacket io pacing_info target_send_time now st =
     (let (c, e) = st;
          is_probe = (probe_cluster_id pacing_info \<noteq> kNotAProbe);
          (padding, e) = (if is_probe \<and> probe_cluster_bytes_sent pacing_info = 0
                          then GeneratePadding io 1 e else ([], e))
      in case padding of
           packet # _ \<Rightarrow> Some (Some packet, (c, e))
         | [] \<Rightarrow> do {
             (packet, c) \<leftarrow> pop_when_allowed is_probe target_send_time now c;
             Some (packet, (c, e))
           })"

definition paced_size :: "PacingController \<Rightarrow> PacedPacket \<Rightarrow> int" where
  "paced_size c packet =
     pk_payload_size packet + pk_padding_size packet +
     (if include_overhead c then pk_headers_size packet + transport_overhead_per_packet c else 0)"

text \<open>
  The send loop; the first argument counts the iterations left before the circuit breaker trips. The
  result says whether it tripped and how much was sent.
\<close>

fun send_loop ::
  "nat \<Rightarrow> 'e packet_sender \<Rightarrow> int \<Rightarrow> bool \<Rightarrow> int \<Rightarrow> PacedPacketInfo \<Rightarrow> int \<Rightarrow> int \<Rightarrow> 'e pacer \<Rightarrow>
   (bool \<times> int \<times> 'e pacer) option" where
  "send_loop 0 io now probing recommended_probe_size pacing_info target_send_time data_sent st =
     Some (True, data_sent, st)"
| "send_loop (Suc n) io now probing recommended_probe_size pacing_info target_send_time data_sent st = do {
     (rtp_packet, (c, e)) \<leftarrow> GetPendingPacket io pacing_info target_send_time now st;
     case rtp_packet of
       None \<Rightarrow>
         let late = (now - target_send_time > kMaxPaddingReplayDuration);
             target_send_time = (if late then now - kMaxPaddingReplayDuration else target_send_time);
             c = (if late then c\<lparr>last_process_time := max (last_process_time c) target_send_time\<rparr> else c);
             padding_to_add = PaddingToAdd recommended_probe_size data_sent c
         in if padding_to_add > 0
            then let (padding_packets, e) = GeneratePadding io padding_to_add e
                 in if padding_packets \<noteq> []
                    then do {
                      st \<leftarrow> enqueue_all io padding_packets (c, e);
                      send_loop n io now probing recommended_probe_size pacing_info target_send_time data_sent st
                    }
                    else Some (False, data_sent, (UpdatePaddingBudgetWithSentData padding_to_add c, e))
            else Some (False, data_sent, (c, e))
     | Some packet \<Rightarrow> do {
         let packet_size = paced_size c packet;
         (c, e) \<leftarrow> send_and_fetch_fec io packet pacing_info (c, e);
         let data_sent = data_sent + packet_size;
         let c = OnPacketSent (pk_packet_type packet) packet_size now c;
         let pacing_info = (if probing
               then pacing_info\<lparr>probe_cluster_bytes_sent := probe_cluster_bytes_sent pacing_info + packet_size\<rparr>
               else pacing_info);
         if probing \<and> data_sent \<ge> recommended_probe_size then Some (False, data_sent, (c, e))
         else do {
           (target_send_time, (c, e)) \<leftarrow> NextSendTime io (c, e);
           if target_send_time > now \<and> \<not> probing then Some (False, data_sent, (c, e))
           else let target_send_time = (if target_send_time > now then now else target_send_time)
                in send_loop n io now probing recommended_probe_size pacing_info target_send_time data_sent
                     (elapse_until target_send_time c, e)
         }
       }
   }"

fun send_keepalives ::
  "'e packet_sender \<Rightarrow> PacedPacket list \<Rightarrow> int \<Rightarrow> 'e pacer \<Rightarrow> (int \<times> 'e pacer) option" where
  "send_keepalives io [] keepalive_data_sent st = Some (keepalive_data_sent, st)"
| "send_keepalives io (packet # packets) keepalive_data_sent st = do {
     st \<leftarrow> send_and_fetch_fec io packet default_PacedPacketInfo st;
     send_keepalives io packets (keepalive_data_sent + (pk_payload_size packet + pk_padding_size packet)) st
   }"

definition maybe_keepalive :: "'e packet_sender \<Rightarrow> int \<Rightarrow> 'e pacer \<Rightarrow> 'e pacer option" where
  "maybe_keepalive io now st =
     (let (c, e) = st
      in if ShouldSendKeepalive now c
         then do {
           let (keepalive_packets, e) = (if seen_first_packet c then GeneratePadding io 1 e else ([], e));
           (keepalive_data_sent, (c, e)) \<leftarrow> send_keepalives io keepalive_packets 0 (c, e);
           Some (OnPacketSent kPadding keepalive_data_sent now c, e)
         }
         else Some (c, e))"

definition after_loop ::
  "'e packet_sender \<Rightarrow> int \<Rightarrow> bool \<Rightarrow> bool \<Rightarrow> int \<Rightarrow> 'e pacer \<Rightarrow> 'e pacer option" where
  "after_loop io now probing tripped data_sent st =
     (if tripped
      then let (c, e) = st in Some (c\<lparr>last_send_time := now, last_process_time := now\<rparr>, e)
      else do {
        (c, e) \<leftarrow>
          (if probing
           then let (c, e) = st; c = c\<lparr>probing_send_failure := (data_sent = 0)\<rparr>
                in if probing_send_failure c then Some (c, e)
                   else do {
                     let (time, (c, e)) = CurrentTime io (c, e);
                     p \<leftarrow> ProbeSent time data_sent (prober c);
                     Some (c\<lparr>prober := p\<rparr>, e)
                   }
           else Some st);
        let (time, (c, e)) = CurrentTime io (c, e);
        c \<leftarrow> MaybeUpdateMediaRateDueToLongQueue time c;
        Some (c, e)
      })"

definition process_due :: "'e packet_sender \<Rightarrow> int \<Rightarrow> int \<Rightarrow> 'e pacer \<Rightarrow> 'e pacer option" where
  "process_due io now target_send_time st = do {
     let (c, e) = st;
     let (elapsed_time, c) = UpdateTimeAndGetElapsed target_send_time c;
     let c = (if elapsed_time > 0 then UpdateBudgetWithElapsedTime elapsed_time c else c);
     let (cluster, p) = (if is_probing (prober c) then CurrentCluster now (prober c) else (None, prober c));
     let pacing_info = (case cluster of None \<Rightarrow> default_PacedPacketInfo | Some info \<Rightarrow> info);
     let probing = (is_probing (prober c) \<and> probe_cluster_id pacing_info \<noteq> kNotAProbe);
     let recommended_probe_size = (if probing then RecommendedMinProbeSize p else 0);
     (tripped, data_sent, st) \<leftarrow>
       send_loop (nat (circuit_breaker_threshold c)) io now probing recommended_probe_size pacing_info
         target_send_time 0 (c\<lparr>prober := p\<rparr>, e);
     after_loop io now probing tripped data_sent st
   }"

definition process_packets_body :: "'e packet_sender \<Rightarrow> 'e pacer \<Rightarrow> 'e pacer option" where
  "process_packets_body io st = do {
     let (now, st) = CurrentTime io st;
     (c, e) \<leftarrow> maybe_keepalive io now st;
     if pacer_paused c then Some (c, e)
     else do {
       let early_execute_margin = (if is_probing (prober c) then kMaxEarlyProbeProcessing else 0);
       (target_send_time, (c, e)) \<leftarrow> NextSendTime io (c, e);
       if now + early_execute_margin < target_send_time
       then Some (elapse_until now c, e)
       else process_due io now target_send_time (c, e)
     }
   }"

definition ProcessPackets :: "'e packet_sender \<Rightarrow> 'e pacer \<Rightarrow> 'e pacer option" where
  "ProcessPackets io st = do {
     (c, e) \<leftarrow> process_packets_body io st;
     Some (c, OnBatchComplete io e)
   }"

end
