(* ===== verification/PacerSafety.thy ===== *)
theory PacerSafety
  imports PacingController
begin

text \<open>
  Correctness of the pacer against an arbitrary environment: no operation runs into a failing check or
  a division by zero, debts stay non-negative, the media rate never falls below the configured one and
  is high enough to empty the queue in time, and a paused pacer keeps its queue. These proofs are
  about a pacer without probe clusters; the prober has its own safety theorem.
\<close>

section \<open>Invariant\<close>

definition pacer_ok :: "PacingController \<Rightarrow> bool" where
  "pacer_ok c \<longleftrightarrow> queue_ok (packet_queue c) \<and> last_update_time (packet_queue c) \<le> last_timestamp c \<and>
     0 < pacing_rate c \<and> pacing_rate c \<le> adjusted_media_rate c \<and> 0 \<le> padding_rate c \<and>
     0 \<le> media_debt c \<and> 0 \<le> padding_debt c \<and> pr_clusters (prober c) = [] \<and> \<not> is_probing (prober c)"

definition later :: "PacingController \<Rightarrow> PacingController \<Rightarrow> bool" where
  "later c c' \<longleftrightarrow> (\<exists>t\<ge>last_timestamp c. c' = c\<lparr>last_timestamp := t\<rparr>)"

lemma later_ok: "pacer_ok c \<Longrightarrow> later c c' \<Longrightarrow> pacer_ok c'"
  by (auto simp: later_def pacer_ok_def)

lemma CurrentTime_later:
  obtains now c' e' where "CurrentTime io (c, e) = (now, (c', e'))" "later c c'"
    "last_timestamp c' = now" "last_timestamp c \<le> now"
proof -
  obtain time e' where "clock_CurrentTime io e = (time, e')" by (cases "clock_CurrentTime io e")
  then have "CurrentTime io (c, e) = (max time (last_timestamp c), (c\<lparr>last_timestamp := max time (last_timestamp c)\<rparr>, e'))"
    by (simp add: CurrentTime_def Let_def max_def)
  moreover have "later c (c\<lparr>last_timestamp := max time (last_timestamp c)\<rparr>)"
    unfolding later_def by (intro exI [of _ "max time (last_timestamp c)"]) simp
  ultimately show thesis using that by simp
qed

lemma ok_elapse: "pacer_ok c \<Longrightarrow> pacer_ok (elapse_until t c)"
  by (simp add: pacer_ok_def elapse_until_def UpdateTimeAndGetElapsed_def UpdateBudgetWithElapsedTime_def Let_def)

lemma elapse_frame [simp]:
  "packet_queue (elapse_until t c) = packet_queue c" "last_timestamp (elapse_until t c) = last_timestamp c"
  by (simp_all add: elapse_until_def UpdateTimeAndGetElapsed_def UpdateBudgetWithElapsedTime_def Let_def)

lemma ok_padding_sent: "pacer_ok c \<Longrightarrow> 0 \<le> n \<Longrightarrow> pacer_ok (UpdatePaddingBudgetWithSentData n c)"
  by (simp add: pacer_ok_def UpdatePaddingBudgetWithSentData_def size_of_nonneg kMaxDebtInTime_def Millis_def)

lemma ok_data_sent: "pacer_ok c \<Longrightarrow> 0 \<le> n \<Longrightarrow> pacer_ok (UpdateBudgetWithSentData n c)"
  by (simp add: pacer_ok_def UpdateBudgetWithSentData_def UpdatePaddingBudgetWithSentData_def size_of_nonneg
      kMaxDebtInTime_def Millis_def)

lemma ok_packet_sent: "pacer_ok c \<Longrightarrow> pacer_ok (OnPacketSent ty n t c)"
proof -
  have "pacer_ok (c\<lparr>first_sent_packet_time := x\<rparr>) = pacer_ok c" "pacer_ok (c\<lparr>last_send_time := y\<rparr>) = pacer_ok c" for c x y
    by (simp_all add: pacer_ok_def)
  then show "pacer_ok c \<Longrightarrow> pacer_ok (OnPacketSent ty n t c)"
    by (simp add: OnPacketSent_def Let_def ok_data_sent)
qed

section \<open>The queue seen by the pacer\<close>

lemma leading_defined:
  assumes "queue_ok q"
  shows "LeadingPacketEnqueueTime ty q \<noteq> None"
proof (cases "streams_by_prio q (GetPriorityForType ty)")
  case Nil
  then show ?thesis by (simp add: LeadingPacketEnqueueTime_def)
next
  case (Cons s ss)
  have "tables_ok (stream_view q) (streams_by_prio q)" using assms by (simp add: queue_ok_def view_ok_def)
  from tables_mem [OF this, of s "GetPriorityForType ty"]
  have "stream_view q s (GetPriorityForType ty) \<noteq> []" using Cons by simp
  then show ?thesis
    using Cons by (auto simp: LeadingPacketEnqueueTime_def stream_view_def sq_LeadingPacketEnqueueTime_def
        split: option.splits list.splits)
qed

lemma unpaced_defined:
  assumes "queue_ok (packet_queue c)"
  obtains t where "NextUnpacedSendTime c = Some t"
proof -
  have "NextUnpacedSendTime c \<noteq> None"
    using leading_defined [OF assms, of kAudio] leading_defined [OF assms, of kRetransmission]
    by (auto simp: NextUnpacedSendTime_def)
  then show thesis using that by blast
qed

lemma tick_defined:
  assumes "queue_ok q" and "last_update_time q \<le> now"
  obtains q' where "UpdateAverageQueueTime now q = Some q'" "queue_ok q'" "last_update_time q' = now"
  using assms queue_ok_tick [OF assms(1), of now] by (auto simp: UpdateAverageQueueTime_eq)

lemma push_defined:
  assumes "queue_ok q" and "last_update_time q \<le> now"
  obtains q' where "Push now p q = Some q'" "queue_ok q'" "last_update_time q' = now"
proof -
  obtain q1 where q1: "UpdateAverageQueueTime now q = Some q1" "last_update_time q1 = now"
    using tick_defined [OF assms] by blast
  then have "Push now p q = Some (cull_streams now (push_now p q1))" by (simp add: Push_eq)
  moreover have "last_update_time (cull_streams now (push_now p q1)) = now"
    using q1(2) by (simp add: cull_streams_def push_now_def Let_def)
  ultimately show thesis using that queue_step_push(2) [OF assms(1)] by blast
qed

lemma abs_now: "last_update_time q = sp_now (queue_abs q)"
  by (simp add: queue_abs_sel)

lemma remove_defined:
  assumes "queue_ok q"
  obtains q' where "RemovePacketsForSsrc s q = Some q'" "queue_ok q'" "last_update_time q' = last_update_time q"
  using queue_step_remove [OF assms, of s] by (auto simp: abs_now spec_remove_def)

lemma pop_defined:
  assumes "queue_ok q"
  obtains p q' where "Pop q = Some (p, q')" "queue_ok q'" "last_update_time q' = last_update_time q"
proof -
  have "sp_now (snd (spec_pop S)) = sp_now S" for S
    by (auto simp: spec_pop_def split: option.splits)
  then show thesis using that queue_step_pop [OF assms] by (auto simp: abs_now)
qed

lemma rate_update_defined:
  assumes "pacer_ok (c\<lparr>adjusted_media_rate := pacing_rate c\<rparr>)" and "last_update_time (packet_queue c) \<le> now"
    and "now \<le> last_timestamp c"
  obtains c' where "MaybeUpdateMediaRateDueToLongQueue now c = Some c'" "pacer_ok c'"
    "last_timestamp c' = last_timestamp c"
proof -
  let ?c = "c\<lparr>adjusted_media_rate := pacing_rate c\<rparr>"
  have "queue_ok (packet_queue c)" using assms(1) by (simp add: pacer_ok_def)
  from tick_defined [OF this assms(2)] obtain q where
    q: "UpdateAverageQueueTime now (packet_queue c) = Some q" "queue_ok q" "last_update_time q = now" by blast
  let ?T = "max (Millis 1) (queue_time_limit c - AverageQueueTime q)"
  have "rate_of (QueueSizeData ?c) ?T = Some (Microbits (QueueSizeData ?c) sdiv ?T)"
    by (auto simp: rate_of_def Millis_def)
  then have "\<exists>c'. MaybeUpdateMediaRateDueToLongQueue now c = Some c' \<and> pacer_ok c' \<and>
      last_timestamp c' = last_timestamp c"
    using assms q by (auto simp: MaybeUpdateMediaRateDueToLongQueue_def Let_def pacer_ok_def)
  then show thesis using that by blast
qed

section \<open>Operations\<close>

lemma paced_defined: "pacer_ok c \<Longrightarrow> paced_send_time c \<noteq> None"
  by (auto simp: paced_send_time_def time_of_def pacer_ok_def Let_def)

lemma next_send_defined:
  assumes "pacer_ok c"
  obtains t c' e' where "NextSendTime io (c, e) = Some (t, (c', e'))" "later c c'"
proof -
  obtain now c' e' where C: "CurrentTime io (c, e) = (now, (c', e'))" "later c c'"
    using CurrentTime_later by metis
  have ok: "pacer_ok c'" by (rule later_ok [OF assms C(2)])
  then obtain t where "NextUnpacedSendTime c' = Some t" using unpaced_defined by (auto simp: pacer_ok_def)
  then have "\<exists>t. NextSendTime io (c, e) = Some (t, (c', e'))"
    using ok paced_defined [OF ok] C(1) by (auto simp: NextSendTime_def Let_def pacer_ok_def)
  then show thesis using that C(2) by blast
qed

lemma ok_set_queue:
  "pacer_ok c \<Longrightarrow> queue_ok q \<Longrightarrow> last_update_time q \<le> last_timestamp c \<Longrightarrow> pacer_ok (c\<lparr>packet_queue := q\<rparr>)"
  by (simp add: pacer_ok_def)

lemma remove_ssrc_defined:
  assumes "pacer_ok c"
  obtains c' where "pacer_RemovePacketsForSsrc s c = Some c'" "pacer_ok c'" "last_timestamp c' = last_timestamp c"
    "last_update_time (packet_queue c') = last_update_time (packet_queue c)"
proof -
  have "queue_ok (packet_queue c)" using assms by (simp add: pacer_ok_def)
  from remove_defined [OF this, of s] obtain q where
    "RemovePacketsForSsrc s (packet_queue c) = Some q" "queue_ok q"
    "last_update_time q = last_update_time (packet_queue c)" by blast
  then show thesis
    using that [of "c\<lparr>packet_queue := q\<rparr>"] assms by (simp add: pacer_RemovePacketsForSsrc_def pacer_ok_def)
qed

lemma flush_defined:
  assumes "pacer_ok c"
  obtains c' where "flush_for_keyframe io p (c, e) = Some c'" "pacer_ok c'" "last_timestamp c' = last_timestamp c"
proof -
  obtain c1 where c1: "pacer_RemovePacketsForSsrc (pk_ssrc p) c = Some c1" "pacer_ok c1" "last_timestamp c1 = last_timestamp c"
    using remove_ssrc_defined [OF assms] by metis
  have "\<exists>c2. pacer_RemovePacketsForSsrc s c1 = Some c2 \<and> pacer_ok c2 \<and> last_timestamp c2 = last_timestamp c" for s
    using remove_ssrc_defined [OF c1(2), of s] c1(3) by metis
  then have "\<exists>c'. flush_for_keyframe io p (c, e) = Some c' \<and> pacer_ok c' \<and> last_timestamp c' = last_timestamp c"
    using assms c1 by (auto simp: flush_for_keyframe_def split: option.splits)
  then show thesis using that by blast
qed

lemma later_fields:
  assumes "later c c'"
  shows "packet_queue c' = packet_queue c" "last_timestamp c \<le> last_timestamp c'" "pacing_rate c' = pacing_rate c"
  using assms by (auto simp: later_def)

lemma ok_incoming: "pacer_ok c \<Longrightarrow> pacer_ok (c\<lparr>prober := prober_OnIncomingPacket n (prober c)\<rparr>)"
  by (simp add: pacer_ok_def prober_OnIncomingPacket_def ReadyToSetActiveState_def)

lemma push_and_rate_defined:
  assumes "pacer_ok c" and "last_update_time (packet_queue c) \<le> now" and "now \<le> last_timestamp c"
  obtains q c' where "Push now p (packet_queue c) = Some q"
    "MaybeUpdateMediaRateDueToLongQueue now (c\<lparr>packet_queue := q, seen_first_packet := True\<rparr>) = Some c'" "pacer_ok c'"
proof -
  have "queue_ok (packet_queue c)" using assms(1) by (simp add: pacer_ok_def)
  from push_defined [OF this assms(2), of p] obtain q where
    q: "Push now p (packet_queue c) = Some q" "queue_ok q" "last_update_time q = now" by blast
  let ?c = "c\<lparr>packet_queue := q, seen_first_packet := True\<rparr>"
  have "pacer_ok (?c\<lparr>adjusted_media_rate := pacing_rate ?c\<rparr>)" using assms q by (simp add: pacer_ok_def)
  from rate_update_defined [OF this, of now] assms(3) q obtain c' where
    "MaybeUpdateMediaRateDueToLongQueue now ?c = Some c'" "pacer_ok c'" by auto
  then show thesis using that q(1) by blast
qed

lemma enqueue_defined:
  assumes "pacer_ok c" and "pk_has_packet_type p"
  obtains c' e' where "pacer_EnqueuePacket io p (c, e) = Some (c', e')" "pacer_ok c'"
proof -
  obtain c1 where c1: "flush_for_keyframe io p (c, e) = Some c1" "pacer_ok c1"
    using flush_defined [OF assms(1)] by metis
  let ?c = "c1\<lparr>prober := prober_OnIncomingPacket (pk_payload_size p) (prober c1)\<rparr>"
  obtain now c2 e2 where C: "CurrentTime io (?c, e) = (now, (c2, e2))" "later ?c c2" "last_timestamp c2 = now"
    using CurrentTime_later by metis
  have ok2: "pacer_ok c2" by (rule later_ok [OF ok_incoming [OF c1(2)] C(2)])
  obtain t c3 e3 where N: "NextSendTime io (c2, e2) = Some (t, (c3, e3))" "later c2 c3"
    using next_send_defined [OF ok2] by metis
  define t' where "t' = (if IsFinite t then min now t else now)"
  define c4 e4 where "c4 = (if pq_Empty (packet_queue c2) then elapse_until t' c3 else c2)"
    and "e4 = (if pq_Empty (packet_queue c2) then e3 else e2)"
  have ok4: "pacer_ok c4" using ok2 ok_elapse [OF later_ok [OF ok2 N(2)]] by (simp add: c4_def)
  have "last_update_time (packet_queue c4) \<le> now" "now \<le> last_timestamp c4"
    using ok2 C(3) later_fields [OF N(2)] by (auto simp: c4_def pacer_ok_def)
  from push_and_rate_defined [OF ok4 this, of p] obtain q c5 where
    q: "Push now p (packet_queue c4) = Some q"
      "MaybeUpdateMediaRateDueToLongQueue now (c4\<lparr>packet_queue := q, seen_first_packet := True\<rparr>) = Some c5" "pacer_ok c5"
    by blast
  have "pacer_EnqueuePacket io p (c, e) = Some (c5, e4)"
    using assms(2) c1(1) C(1) N(1) q by (simp add: pacer_EnqueuePacket_def c4_def e4_def t'_def Let_def split: if_splits)
  then show thesis using that q(3) by blast
qed

lemma enqueue_all_defined:
  assumes "pacer_ok c" and "\<forall>p\<in>set ps. pk_has_packet_type p"
  obtains c' e' where "enqueue_all io ps (c, e) = Some (c', e')" "pacer_ok c'"
proof -
  have "\<exists>c' e'. enqueue_all io ps (c, e) = Some (c', e') \<and> pacer_ok c'"
    using assms
  proof (induction ps arbitrary: c e)
    case (Cons p ps)
    obtain c1 e1 where "pacer_EnqueuePacket io p (c, e) = Some (c1, e1)" "pacer_ok c1"
      using enqueue_defined [OF Cons.prems(1)] Cons.prems(2) by (metis list.set_intros(1))
    then show ?case using Cons.IH [of c1 e1] Cons.prems(2) by simp
  qed simp
  then show thesis using that by blast
qed

text \<open>
  The packet sender is code outside of the pacer; \<open>EnqueuePacket\<close> requires that the packets it makes,
  for error correction and for padding, have a type.
\<close>

definition typed_sender :: "'e packet_sender \<Rightarrow> bool" where
  "typed_sender io \<longleftrightarrow>
     (\<forall>e. \<forall>p\<in>set (fst (FetchFec io e)). pk_has_packet_type p) \<and>
     (\<forall>n e. \<forall>p\<in>set (fst (GeneratePadding io n e)). pk_has_packet_type p)"

lemma typed_senderD:
  "typed_sender io \<Longrightarrow> FetchFec io e = (ps, e') \<Longrightarrow> \<forall>p\<in>set ps. pk_has_packet_type p"
  "typed_sender io \<Longrightarrow> GeneratePadding io n e = (ps, e') \<Longrightarrow> \<forall>p\<in>set ps. pk_has_packet_type p"
  unfolding typed_sender_def by (metis fst_conv)+

lemma send_defined:
  assumes "typed_sender io" and "pacer_ok c"
  obtains c' e' where "send_and_fetch_fec io p info (c, e) = Some (c', e')" "pacer_ok c'"
proof -
  obtain fec e1 where F: "FetchFec io (SendPacket io p info e) = (fec, e1)" by (cases "FetchFec io (SendPacket io p info e)")
  then show thesis using that enqueue_all_defined [OF assms(2) typed_senderD(1) [OF assms(1) F], of io e1]
    by (auto simp: send_and_fetch_fec_def)
qed

lemma pop_allowed_defined:
  assumes "pacer_ok c"
  obtains p c' where "pop_when_allowed pr target now c = Some (p, c')" "pacer_ok c'"
proof -
  have q: "queue_ok (packet_queue c)" "adjusted_media_rate c \<noteq> 0" using assms by (auto simp: pacer_ok_def)
  obtain t where t: "NextUnpacedSendTime c = Some t" using unpaced_defined [OF q(1)] by blast
  obtain p q' where "Pop (packet_queue c) = Some (p, q')" "queue_ok q'"
    "last_update_time q' = last_update_time (packet_queue c)"
    using pop_defined [OF q(1)] by blast
  then have "\<exists>p c'. pop_when_allowed pr target now c = Some (p, c') \<and> pacer_ok c'"
    using t q assms by (auto simp: pop_when_allowed_def time_of_def pacer_ok_def)
  then show thesis using that by blast
qed

lemma pending_defined:
  assumes "pacer_ok c" and "probe_cluster_id info = kNotAProbe"
  obtains p c' e' where "GetPendingPacket io info target now (c, e) = Some (p, (c', e'))" "pacer_ok c'"
proof -
  obtain p c' where "pop_when_allowed False target now c = Some (p, c')" "pacer_ok c'"
    using pop_allowed_defined [OF assms(1)] by metis
  then show thesis using that assms(2) by (simp add: GetPendingPacket_def)
qed

lemma padding_add_nonneg: "pacer_ok c \<Longrightarrow> 0 \<le> PaddingToAdd 0 n c"
  by (simp add: PaddingToAdd_def pacer_ok_def size_of_nonneg kTargetPaddingDuration_def Millis_def)

abbreviation loop_ok :: "'e packet_sender \<Rightarrow> int \<Rightarrow> PacedPacketInfo \<Rightarrow> nat \<Rightarrow> int \<Rightarrow> int \<Rightarrow> 'e pacer \<Rightarrow> bool" where
  "loop_ok io now info n target sent st \<equiv>
     \<exists>b d c' e'. send_loop n io now False 0 info target sent st = Some (b, d, (c', e')) \<and> pacer_ok c'"

lemma loop_idle_ok:
  assumes "typed_sender io" and "GetPendingPacket io info target now (c, e) = Some (None, (c1, e1))" and "pacer_ok c1"
    and "\<And>c e target sent. pacer_ok c \<Longrightarrow> loop_ok io now info n target sent (c, e)"
  shows "loop_ok io now info (Suc n) target sent (c, e)"
proof -
  define late where "late = (now - target > kMaxPaddingReplayDuration)"
  define target' where "target' = (if late then now - kMaxPaddingReplayDuration else target)"
  define c2 where "c2 = (if late then c1\<lparr>last_process_time := max (last_process_time c1) target'\<rparr> else c1)"
  have ok2: "pacer_ok c2" using assms(3) by (simp add: c2_def pacer_ok_def)
  obtain ps e2 where G: "GeneratePadding io (PaddingToAdd 0 sent c2) e1 = (ps, e2)"
    by (cases "GeneratePadding io (PaddingToAdd 0 sent c2) e1")
  obtain c3 e3 where E: "enqueue_all io ps (c2, e2) = Some (c3, e3)" "pacer_ok c3"
    using enqueue_all_defined [OF ok2 typed_senderD(2) [OF assms(1) G]] by metis
  have "send_loop (Suc n) io now False 0 info target sent (c, e) =
      (if PaddingToAdd 0 sent c2 > 0
       then if ps \<noteq> [] then send_loop n io now False 0 info target' sent (c3, e3)
            else Some (False, sent, (UpdatePaddingBudgetWithSentData (PaddingToAdd 0 sent c2) c2, e2))
       else Some (False, sent, (c2, e1)))"
    using assms(2) G E(1) unfolding c2_def target'_def by (cases late) (simp_all add: Let_def late_def)
  then show ?thesis using assms(4) [OF E(2)] ok2 ok_padding_sent [OF ok2 padding_add_nonneg [OF ok2]] by auto
qed

lemma loop_sent_ok:
  assumes "typed_sender io" and "GetPendingPacket io info target now (c, e) = Some (Some packet, (c1, e1))" and "pacer_ok c1"
    and "\<And>c e target sent. pacer_ok c \<Longrightarrow> loop_ok io now info n target sent (c, e)"
  shows "loop_ok io now info (Suc n) target sent (c, e)"
proof -
  obtain c2 e2 where S: "send_and_fetch_fec io packet info (c1, e1) = Some (c2, e2)" "pacer_ok c2"
    using send_defined [OF assms(1,3)] by metis
  define c3 where "c3 = OnPacketSent (pk_packet_type packet) (paced_size c1 packet) now c2"
  have ok3: "pacer_ok c3" unfolding c3_def by (rule ok_packet_sent [OF S(2)])
  obtain t c4 e4 where N: "NextSendTime io (c3, e2) = Some (t, (c4, e4))" "later c3 c4"
    using next_send_defined [OF ok3] by metis
  have ok4: "pacer_ok c4" by (rule later_ok [OF ok3 N(2)])
  have "send_loop (Suc n) io now False 0 info target sent (c, e) =
      (if t > now then Some (False, sent + paced_size c1 packet, (c4, e4))
       else send_loop n io now False 0 info t (sent + paced_size c1 packet) (elapse_until t c4, e4))"
    using assms(2) S(1) N(1) by (simp add: Let_def flip: c3_def)
  then show ?thesis using assms(4) [OF ok_elapse [OF ok4]] ok4 by auto
qed

lemma send_loop_defined:
  assumes "typed_sender io" and "pacer_ok c" and "probe_cluster_id info = kNotAProbe"
  obtains b d c' e' where "send_loop n io now False 0 info target sent (c, e) = Some (b, d, (c', e'))" "pacer_ok c'"
proof -
  have "loop_ok io now info n target sent (c, e)"
    using assms(2)
  proof (induction n arbitrary: c e target sent)
    case (Suc n)
    obtain p c1 e1 where P: "GetPendingPacket io info target now (c, e) = Some (p, (c1, e1))" "pacer_ok c1"
      using pending_defined [OF Suc.prems assms(3)] by metis
    then show ?case using loop_idle_ok [OF assms(1) _ P(2) Suc.IH] loop_sent_ok [OF assms(1) _ P(2) Suc.IH] by (cases p) simp_all
  qed auto
  then show thesis using that by blast
qed

lemma keepalives_defined:
  assumes "typed_sender io" and "pacer_ok c"
  shows "\<exists>d c' e'. send_keepalives io ps n (c, e) = Some (d, (c', e')) \<and> pacer_ok c'"
  using assms(2)
proof (induction ps arbitrary: c e n)
  case (Cons p ps)
  obtain c1 e1 where "send_and_fetch_fec io p default_PacedPacketInfo (c, e) = Some (c1, e1)" "pacer_ok c1"
    using send_defined [OF assms(1) Cons.prems] by metis
  then show ?case using Cons.IH [of c1] by simp
qed simp

lemma keepalive_defined:
  assumes "typed_sender io" and "pacer_ok c"
  obtains c' e' where "maybe_keepalive io now (c, e) = Some (c', e')" "pacer_ok c'"
proof -
  obtain ps e1 where G: "(if seen_first_packet c then GeneratePadding io 1 e else ([], e)) = (ps, e1)" by fastforce
  obtain d c' e' where "send_keepalives io ps 0 (c, e1) = Some (d, (c', e'))" "pacer_ok c'"
    using keepalives_defined [OF assms] by metis
  then have "\<exists>c' e'. maybe_keepalive io now (c, e) = Some (c', e') \<and> pacer_ok c'"
    using assms(2) G ok_packet_sent by (auto simp: maybe_keepalive_def)
  then show thesis using that by blast
qed

lemma after_loop_defined:
  assumes "pacer_ok c"
  obtains c' e' where "after_loop io now False b d (c, e) = Some (c', e')" "pacer_ok c'"
proof -
  obtain t c1 e1 where C: "CurrentTime io (c, e) = (t, (c1, e1))" "later c c1" "last_timestamp c1 = t"
    using CurrentTime_later by metis
  have ok1: "pacer_ok c1" by (rule later_ok [OF assms C(2)])
  then have "pacer_ok (c1\<lparr>adjusted_media_rate := pacing_rate c1\<rparr>)" "last_update_time (packet_queue c1) \<le> t"
    using C(3) by (auto simp: pacer_ok_def)
  from rate_update_defined [OF this] C(3) obtain c2 where
    "MaybeUpdateMediaRateDueToLongQueue t c1 = Some c2" "pacer_ok c2" by auto
  moreover have "pacer_ok (c\<lparr>last_send_time := now, last_process_time := now\<rparr>)"
    using assms by (simp add: pacer_ok_def)
  ultimately show thesis using that C(1) by (cases b) (auto simp: after_loop_def)
qed

text \<open>The controller with its budget brought forward to the target time.\<close>

definition due_state :: "int \<Rightarrow> PacingController \<Rightarrow> PacingController" where
  "due_state target c =
     (case UpdateTimeAndGetElapsed target c of
        (elapsed, c) \<Rightarrow> if elapsed > 0 then UpdateBudgetWithElapsedTime elapsed c else c)"

lemma due_state_fields [simp]:
  "packet_queue (due_state target c) = packet_queue c" "congested (due_state target c) = congested c"
  "prober (due_state target c) = prober c"
  "circuit_breaker_threshold (due_state target c) = circuit_breaker_threshold c"
  by (simp_all add: due_state_def UpdateTimeAndGetElapsed_def UpdateBudgetWithElapsedTime_def Let_def)

lemma due_state_ok: "pacer_ok c \<Longrightarrow> pacer_ok (due_state target c)"
  by (simp add: due_state_def UpdateTimeAndGetElapsed_def UpdateBudgetWithElapsedTime_def Let_def pacer_ok_def)

lemma process_due_eq:
  assumes "\<not> is_probing (prober c)"
  shows "process_due io now target (c, e) = do {
    (b, d, st) \<leftarrow> send_loop (nat (circuit_breaker_threshold c)) io now False 0 default_PacedPacketInfo target 0
      (due_state target c, e);
    after_loop io now False b d st
  }"
proof -
  obtain d c1 where U: "UpdateTimeAndGetElapsed target c = (d, c1)" by (cases "UpdateTimeAndGetElapsed target c")
  then have D: "(if d > 0 then UpdateBudgetWithElapsedTime d c1 else c1) = due_state target c"
    by (simp add: due_state_def)
  have same: "due_state target c\<lparr>prober := prober c\<rparr> = due_state target c" by simp
  show ?thesis
    unfolding process_due_def using assms by (simp add: U D Let_def same)
qed

lemma default_not_probe: "probe_cluster_id default_PacedPacketInfo = kNotAProbe"
  by (simp add: default_PacedPacketInfo_def)

lemma process_due_defined:
  assumes "typed_sender io" and "pacer_ok c"
  obtains c' e' where "process_due io now target (c, e) = Some (c', e')" "pacer_ok c'"
proof -
  have np: "\<not> is_probing (prober c)" using assms(2) by (simp add: pacer_ok_def)
  obtain b s c2 e2 where L: "send_loop (nat (circuit_breaker_threshold c)) io now False 0 default_PacedPacketInfo
      target 0 (due_state target c, e) = Some (b, s, (c2, e2))" "pacer_ok c2"
    using send_loop_defined [OF assms(1) due_state_ok [OF assms(2)] default_not_probe] by metis
  obtain c3 e3 where A: "after_loop io now False b s (c2, e2) = Some (c3, e3)" "pacer_ok c3"
    using after_loop_defined [OF L(2)] by metis
  have "process_due io now target (c, e) = Some (c3, e3)"
    using L(1) A(1) by (simp add: process_due_eq [OF np] del: send_loop.simps)
  then show thesis using that A(2) by blast
qed

lemma process_defined:
  assumes "typed_sender io" and "pacer_ok c"
  obtains c' e' where "ProcessPackets io (c, e) = Some (c', e')" "pacer_ok c'"
proof -
  obtain now c1 e1 where C: "CurrentTime io (c, e) = (now, (c1, e1))" "later c c1"
    using CurrentTime_later by metis
  obtain c2 e2 where K: "maybe_keepalive io now (c1, e1) = Some (c2, e2)" "pacer_ok c2"
    using keepalive_defined [OF assms(1) later_ok [OF assms(2) C(2)]] by metis
  obtain t c3 e3 where N: "NextSendTime io (c2, e2) = Some (t, (c3, e3))" "later c2 c3"
    using next_send_defined [OF K(2)] by metis
  have ok3: "pacer_ok c3" by (rule later_ok [OF K(2) N(2)])
  obtain c4 e4 where D: "process_due io now t (c3, e3) = Some (c4, e4)" "pacer_ok c4"
    using process_due_defined [OF assms(1) ok3] by metis
  have "\<exists>c' e'. process_packets_body io (c, e) = Some (c', e') \<and> pacer_ok c'"
    using C K N D ok3 ok_elapse by (auto simp: process_packets_body_def Let_def)
  then show thesis using that by (auto simp: ProcessPackets_def)
qed

section \<open>Runs of the pacer\<close>

datatype pacer_op =
    PacerEnqueue PacedPacket
  | PacerProcess
  | PacerPause
  | PacerResume
  | PacerCongested bool
  | PacerRates int int
  | PacerRemove uint32_t
  | PacerThreshold int
  | PacerAccountAudio bool
  | PacerIncludeOverhead
  | PacerOverhead int
  | PacerBurst int
  | PacerTimeLimit int

fun pacer_step :: "'e packet_sender \<Rightarrow> pacer_op \<Rightarrow> 'e pacer \<Rightarrow> 'e pacer option" where
  "pacer_step io (PacerEnqueue p) st = pacer_EnqueuePacket io p st"
| "pacer_step io PacerProcess st = ProcessPackets io st"
| "pacer_step io PacerPause st = Pause io st"
| "pacer_step io PacerResume st = Resume io st"
| "pacer_step io (PacerCongested b) st = Some (SetCongested io b st)"
| "pacer_step io (PacerRates r p) st = SetPacingRates io r p st"
| "pacer_step io (PacerRemove s) st = map_option (\<lambda>c. (c, snd st)) (pacer_RemovePacketsForSsrc s (fst st))"
| "pacer_step io (PacerThreshold n) st = Some (SetCircuitBreakerThreshold n (fst st), snd st)"
| "pacer_step io (PacerAccountAudio b) st = Some (SetAccountForAudioPackets b (fst st), snd st)"
| "pacer_step io PacerIncludeOverhead st = Some (SetIncludeOverhead (fst st), snd st)"
| "pacer_step io (PacerOverhead n) st = Some (SetTransportOverhead n (fst st), snd st)"
| "pacer_step io (PacerBurst n) st = Some (SetSendBurstInterval n (fst st), snd st)"
| "pacer_step io (PacerTimeLimit n) st = Some (SetQueueTimeLimit n (fst st), snd st)"

fun pacer_run :: "'e packet_sender \<Rightarrow> pacer_op list \<Rightarrow> 'e pacer \<Rightarrow> 'e pacer option" where
  "pacer_run io [] st = Some st"
| "pacer_run io (op # ops) st = Option.bind (pacer_step io op st) (pacer_run io ops)"

text \<open>What the callers of the pacer owe it: positive pacing rates, and packets with a type.\<close>

fun pacer_op_ok :: "pacer_op \<Rightarrow> bool" where
  "pacer_op_ok (PacerRates r p) \<longleftrightarrow> 0 < r \<and> 0 \<le> p"
| "pacer_op_ok (PacerEnqueue p) \<longleftrightarrow> pk_has_packet_type p"
| "pacer_op_ok _ \<longleftrightarrow> True"

lemma pause_defined:
  assumes "pacer_ok c"
  obtains c' e' where "pacer_SetPause io b (c, e) = Some (c', e')" "pacer_ok c'"
proof -
  obtain t c1 e1 where C: "CurrentTime io (c, e) = (t, (c1, e1))" "later c c1" "last_timestamp c1 = t"
    using CurrentTime_later by metis
  have ok1: "pacer_ok c1" by (rule later_ok [OF assms C(2)])
  then have q: "queue_ok (packet_queue c1)" "last_update_time (packet_queue c1) \<le> t" using C(3) by (auto simp: pacer_ok_def)
  obtain q where q': "UpdateAverageQueueTime t (packet_queue c1) = Some q" "queue_ok q" "last_update_time q = t"
    using tick_defined [OF q] by blast
  then have s: "SetPauseState b t (packet_queue c1) = Some (q\<lparr>pq_paused := b\<rparr>)" by (simp add: SetPauseState_def)
  from queue_step_pause(2) [OF q(1) s] have "pacer_ok (c1\<lparr>pacer_paused := b, packet_queue := q\<lparr>pq_paused := b\<rparr>\<rparr>)"
    using ok1 q' C(3) by (simp add: pacer_ok_def)
  then show thesis using that C(1) s by (auto simp: pacer_SetPause_def)
qed

lemma rates_defined:
  assumes "pacer_ok (c\<lparr>pacing_rate := 1, adjusted_media_rate := 1, padding_rate := 0\<rparr>)" and "0 < r" and "0 \<le> p"
  obtains c' e' where "SetPacingRates io r p (c, e) = Some (c', e')" "pacer_ok c'"
proof -
  let ?c = "c\<lparr>pacing_rate := r, padding_rate := (if p > r then r else p)\<rparr>"
  obtain t c1 e1 where C: "CurrentTime io (?c, e) = (t, (c1, e1))" "later ?c c1" "last_timestamp c1 = t"
    using CurrentTime_later by metis
  have "pacer_ok (c1\<lparr>adjusted_media_rate := pacing_rate c1\<rparr>)" "last_update_time (packet_queue c1) \<le> t"
    using C(2,3) assms by (auto simp: later_def pacer_ok_def)
  from rate_update_defined [OF this] C(3) obtain c2 where
    "MaybeUpdateMediaRateDueToLongQueue t c1 = Some c2" "pacer_ok c2" by auto
  then show thesis using that C(1) assms(2,3) by (auto simp: SetPacingRates_def Let_def)
qed

lemma congested_ok:
  assumes "pacer_ok c"
  shows "pacer_ok (fst (SetCongested io b (c, e)))"
proof -
  obtain t c1 e1 where C: "CurrentTime io (c, e) = (t, (c1, e1))" "later c c1"
    using CurrentTime_later by metis
  have "pacer_ok (x\<lparr>congested := b'\<rparr>) = pacer_ok x" for x b' by (simp add: pacer_ok_def)
  then show ?thesis
    using assms C(1) ok_elapse [OF later_ok [OF assms C(2)]] by (simp add: SetCongested_def Let_def)
qed

lemma settings_ok:
  assumes "pacer_ok c"
  shows "pacer_ok (SetCircuitBreakerThreshold n c)" "pacer_ok (SetAccountForAudioPackets b c)"
    "pacer_ok (SetIncludeOverhead c)" "pacer_ok (SetTransportOverhead n c)"
    "pacer_ok (SetSendBurstInterval n c)" "pacer_ok (SetQueueTimeLimit n c)"
  using assms
  by (simp_all add: pacer_ok_def SetCircuitBreakerThreshold_def SetAccountForAudioPackets_def
      SetIncludeOverhead_def SetTransportOverhead_def SetSendBurstInterval_def SetQueueTimeLimit_def)

lemma pacer_step_defined:
  assumes "typed_sender io" and "pacer_ok c" and "pacer_op_ok op"
  shows "\<exists>c' e'. pacer_step io op (c, e) = Some (c', e') \<and> pacer_ok c'"
proof (cases op)
  case (PacerEnqueue p)
  then show ?thesis using assms(3) by simp (metis enqueue_defined [OF assms(2)])
next
  case PacerProcess
  then show ?thesis by simp (metis process_defined [OF assms(1,2)])
next
  case PacerPause
  then show ?thesis by (simp add: Pause_def) (metis pause_defined [OF assms(2)])
next
  case PacerResume
  then show ?thesis by (simp add: Resume_def) (metis pause_defined [OF assms(2)])
next
  case (PacerCongested b)
  then show ?thesis using congested_ok [OF assms(2), of io b e] by (cases "SetCongested io b (c, e)") simp
next
  case (PacerRates r p)
  have "pacer_ok (c\<lparr>pacing_rate := 1, adjusted_media_rate := 1, padding_rate := 0\<rparr>)"
    using assms(2) by (simp add: pacer_ok_def)
  then show ?thesis using assms(3) PacerRates by simp (metis rates_defined)
next
  case (PacerRemove s)
  then show ?thesis by simp (metis remove_ssrc_defined [OF assms(2)])
qed (use assms(2) in \<open>simp_all add: settings_ok\<close>)

lemma pacer_run_defined:
  assumes "typed_sender io" and "pacer_ok c" and "\<forall>op\<in>set ops. pacer_op_ok op"
  shows "\<exists>c' e'. pacer_run io ops (c, e) = Some (c', e') \<and> pacer_ok c'"
  using assms(2,3)
proof (induction ops arbitrary: c e)
  case (Cons op ops)
  obtain c1 e1 where "pacer_step io op (c, e) = Some (c1, e1)" "pacer_ok c1"
    using pacer_step_defined [OF assms(1) Cons.prems(1), of op e] Cons.prems(2) by auto
  then show ?case using Cons.IH [of c1 e1] Cons.prems(2) by simp
qed simp

section \<open>What the sender sees\<close>

text \<open>The environment keeps a log: sending a packet appends it, nothing else touches the log.\<close>

definition records :: "'e packet_sender \<Rightarrow> ('e \<Rightarrow> PacedPacket list) \<Rightarrow> bool" where
  "records io sent_log \<longleftrightarrow>
     (\<forall>p info e. sent_log (SendPacket io p info e) = sent_log e @ [p]) \<and>
     (\<forall>e. sent_log (snd (clock_CurrentTime io e)) = sent_log e) \<and>
     (\<forall>e. sent_log (snd (FetchFec io e)) = sent_log e) \<and>
     (\<forall>n e. sent_log (snd (GeneratePadding io n e)) = sent_log e) \<and>
     (\<forall>e. sent_log (OnBatchComplete io e) = sent_log e)"

lemma log_CurrentTime:
  "records io sent_log \<Longrightarrow> CurrentTime io (c, e) = (t, (c', e')) \<Longrightarrow> sent_log e' = sent_log e"
  by (auto simp: records_def CurrentTime_def Let_def split: prod.splits) (metis snd_conv)+

lemma log_NextSendTime:
  assumes "records io sent_log" and "NextSendTime io (c, e) = Some (t, (c', e'))"
  shows "sent_log e' = sent_log e"
proof -
  obtain now c1 e1 where C: "CurrentTime io (c, e) = (now, (c1, e1))" by (metis prod.exhaust)
  have "e' = e1"
    using assms(2) C by (auto simp: NextSendTime_def Let_def split: if_splits Option.bind_splits)
  then show ?thesis using log_CurrentTime [OF assms(1) C] by simp
qed

lemma log_enqueue:
  assumes "records io sent_log" and "pacer_EnqueuePacket io p (c, e) = Some (c', e')"
  shows "sent_log e' = sent_log e"
proof -
  obtain c1 where f: "flush_for_keyframe io p (c, e) = Some c1"
    using assms(2) by (auto simp: pacer_EnqueuePacket_def split: if_splits Option.bind_splits)
  let ?c = "c1\<lparr>prober := prober_OnIncomingPacket (pk_payload_size p) (prober c1)\<rparr>"
  obtain now c2 e2 where C: "CurrentTime io (?c, e) = (now, (c2, e2))" by (metis prod.exhaust)
  have "e' = e2 \<or> (\<exists>t c3. NextSendTime io (c2, e2) = Some (t, (c3, e')))"
    using assms(2) f C by (auto simp: pacer_EnqueuePacket_def Let_def split: if_splits Option.bind_splits)
  then show ?thesis using log_CurrentTime [OF assms(1) C] log_NextSendTime [OF assms(1)] by metis
qed

lemma log_enqueue_all:
  "records io sent_log \<Longrightarrow> enqueue_all io ps (c, e) = Some (c', e') \<Longrightarrow> sent_log e' = sent_log e"
proof (induction ps arbitrary: c e)
  case (Cons p ps)
  then show ?case by (auto split: Option.bind_splits dest: log_enqueue)
qed simp

lemma log_send:
  assumes "records io sent_log" and "send_and_fetch_fec io p info (c, e) = Some (c', e')"
  shows "sent_log e' = sent_log e @ [p]"
proof -
  obtain fec e1 where F: "FetchFec io (SendPacket io p info e) = (fec, e1)" by (metis prod.exhaust)
  then have "sent_log e1 = sent_log e @ [p]" using assms(1) unfolding records_def by (metis snd_conv)
  moreover have "enqueue_all io fec (c, e1) = Some (c', e')" using assms(2) F by (simp add: send_and_fetch_fec_def)
  ultimately show ?thesis using log_enqueue_all [OF assms(1)] by metis
qed

lemma log_pending:
  assumes "records io sent_log" and "probe_cluster_id info = kNotAProbe"
    and "GetPendingPacket io info target now (c, e) = Some (p, (c', e'))"
  shows "e' = e"
  using assms by (auto simp: GetPendingPacket_def split: Option.bind_splits)

lemma log_sent_round:
  assumes "records io sent_log"
    and "GetPendingPacket io info target now (c, e) = Some (Some packet, (c1, e))"
    and "send_loop (Suc n) io now False 0 info target sent (c, e) = Some (b, d, (c', e'))"
    and rest: "\<And>c e target sent. send_loop n io now False 0 info target sent (c, e) = Some (b, d, (c', e')) \<Longrightarrow>
      \<exists>xs. sent_log e' = sent_log e @ xs"
  shows "\<exists>xs. sent_log e' = sent_log e @ packet # xs"
proof -
  obtain c2 e2 where S: "send_and_fetch_fec io packet info (c1, e) = Some (c2, e2)"
    using assms(2,3) by (auto simp: Let_def split: Option.bind_splits)
  define c3 where "c3 = OnPacketSent (pk_packet_type packet) (paced_size c1 packet) now c2"
  obtain t c4 e4 where N: "NextSendTime io (c3, e2) = Some (t, (c4, e4))"
    using assms(2,3) S by (auto simp: Let_def c3_def split: if_splits Option.bind_splits)
  have "e' = e4 \<or> send_loop n io now False 0 info t (sent + paced_size c1 packet) (elapse_until t c4, e4) = Some (b, d, (c', e'))"
    using assms(2,3) S N by (auto simp: Let_def c3_def split: if_splits)
  then obtain xs where "sent_log e' = sent_log e4 @ xs" using rest by (metis append_Nil2)
  then show ?thesis using log_NextSendTime [OF assms(1) N] log_send [OF assms(1) S] by simp
qed

lemma log_send_loop:
  assumes "records io sent_log" and "probe_cluster_id info = kNotAProbe"
    and "send_loop n io now False 0 info target sent (c, e) = Some (b, d, (c', e'))"
  shows "\<exists>xs. sent_log e' = sent_log e @ xs"
  using assms(3)
proof (induction n arbitrary: c e target sent)
  case (Suc n)
  obtain p c1 where P: "GetPendingPacket io info target now (c, e) = Some (p, (c1, e))"
    using Suc.prems log_pending [OF assms(1,2)] by (auto split: Option.bind_splits)
  show ?case
  proof (cases p)
    case None
    have pad: "sent_log (snd (GeneratePadding io k e)) = sent_log e" for k using assms(1) by (simp add: records_def)
    have "e' = e \<or> (\<exists>k. e' = snd (GeneratePadding io k e)) \<or>
        (\<exists>k ps c2 c3 e3 t. enqueue_all io ps (c2, snd (GeneratePadding io k e)) = Some (c3, e3) \<and>
           send_loop n io now False 0 info t sent (c3, e3) = Some (b, d, (c', e')))"
      using Suc.prems P None
      by (auto simp: Let_def split: if_splits Option.bind_splits prod.splits) (metis snd_conv)+
    then show ?thesis
      using Suc.IH log_enqueue_all [OF assms(1)] pad by (metis append_Nil2)
  next
    case (Some packet)
    with P have P': "GetPendingPacket io info target now (c, e) = Some (Some packet, (c1, e))" by simp
    have "\<exists>xs. sent_log e' = sent_log e @ packet # xs"
      by (rule log_sent_round [OF assms(1) P' Suc.prems]) (rule Suc.IH)
    then show ?thesis by auto
  qed
qed simp

lemma log_after_loop:
  assumes "records io sent_log" and "after_loop io now False b d (c, e) = Some (c', e')"
  shows "sent_log e' = sent_log e"
proof -
  obtain t c1 e1 where C: "CurrentTime io (c, e) = (t, (c1, e1))" by (metis prod.exhaust)
  have "e' = e \<or> e' = e1"
    using assms(2) C by (auto simp: after_loop_def Let_def split: if_splits Option.bind_splits)
  then show ?thesis using log_CurrentTime [OF assms(1) C] by auto
qed

text \<open>The first round of the loop, once the pacer is past its target time.\<close>

lemma loop_sends:
  assumes "records io sent_log" and "pacer_ok c" and "probe_cluster_id info = kNotAProbe"
    and "\<not> pq_Empty (packet_queue c)" and "\<not> congested c" and "target < now"
    and "send_loop (Suc n) io now False 0 info target sent (c, e) = Some (b, d, (c', e'))"
  shows "\<exists>p q xs. Pop (packet_queue c) = Some (Some p, q) \<and> sent_log e' = sent_log e @ p # xs"
proof -
  have q: "queue_ok (packet_queue c)" using assms(2) by (simp add: pacer_ok_def)
  have ne: "size_packets (packet_queue c) \<noteq> 0" using assms(4) by (simp add: pq_Empty_def)
  obtain l s others sq x ps where t: "top_active_prio_level (packet_queue c) = int l" "l < kNumPriorityLevels"
    "\<And>k. k < l \<Longrightarrow> streams_by_prio (packet_queue c) k = []" "streams_by_prio (packet_queue c) l = s # others"
    "pq_streams (packet_queue c) s = Some sq" "sq_packets sq l = x # ps"
    using Pop_target [OF q ne] by metis
  obtain p q' where pop: "Pop (packet_queue c) = Some (Some p, q')"
    using Pop_effect [OF q t ne] by metis
  obtain u where "NextUnpacedSendTime c = Some u" using unpaced_defined [OF q] by blast
  then have G: "GetPendingPacket io info target now (c, e) = Some (Some p, (c\<lparr>packet_queue := q'\<rparr>, e))"
    using assms(3,4,5,6) pop by (simp add: GetPendingPacket_def pop_when_allowed_def)
  have "\<exists>xs. sent_log e' = sent_log e @ p # xs"
    by (rule log_sent_round [OF assms(1) G assms(7)]) (rule log_send_loop [OF assms(1,3)])
  then show ?thesis using pop by blast
qed

lemma process_due_sends:
  assumes "records io sent_log" and "typed_sender io" and "pacer_ok c" and "\<not> pq_Empty (packet_queue c)" and "\<not> congested c"
    and "0 < circuit_breaker_threshold c" and "target < now"
  shows "\<exists>p q c' e' xs. Pop (packet_queue c) = Some (Some p, q) \<and> process_due io now target (c, e) = Some (c', e') \<and>
    sent_log e' = sent_log e @ p # xs"
proof -
  have np: "\<not> is_probing (prober c)" using assms(3) by (simp add: pacer_ok_def)
  obtain n where n: "nat (circuit_breaker_threshold c) = Suc n"
    using assms(6) by (metis gr0_implies_Suc zero_less_nat_eq)
  obtain b s c2 e2 where L: "send_loop (Suc n) io now False 0 default_PacedPacketInfo target 0
      (due_state target c, e) = Some (b, s, (c2, e2))" "pacer_ok c2"
    using send_loop_defined [OF assms(2) due_state_ok [OF assms(3)] default_not_probe] by metis
  obtain c3 e3 where A: "after_loop io now False b s (c2, e2) = Some (c3, e3)"
    using after_loop_defined [OF L(2)] by metis
  have "process_due io now target (c, e) = Some (c3, e3)"
    using L(1) A n by (simp add: process_due_eq [OF np] del: send_loop.simps)
  moreover have "\<exists>p q xs. Pop (packet_queue (due_state target c)) = Some (Some p, q) \<and> sent_log e2 = sent_log e @ p # xs"
    by (rule loop_sends [OF assms(1) due_state_ok [OF assms(3)] default_not_probe _ _ assms(7) L(1)])
      (use assms(4,5) in simp_all)
  ultimately show ?thesis using log_after_loop [OF assms(1) A] by auto
qed

lemma log_keepalives:
  assumes "records io sent_log" and "send_keepalives io ps n (c, e) = Some (d, (c', e'))"
  shows "sent_log e' = sent_log e @ ps"
  using assms(2)
proof (induction ps arbitrary: n c e)
  case (Cons p ps)
  then obtain c1 e1 n1 where S: "send_and_fetch_fec io p default_PacedPacketInfo (c, e) = Some (c1, e1)"
    "send_keepalives io ps n1 (c1, e1) = Some (d, (c', e'))"
    by (auto split: Option.bind_splits)
  then show ?case using Cons.IH [OF S(2)] log_send [OF assms(1) S(1)] by simp
qed simp

text \<open>Enqueueing leaves the pause state alone.\<close>

lemma paused_MaybeUpdate:
  "MaybeUpdateMediaRateDueToLongQueue now c = Some c' \<Longrightarrow> pacer_paused c' = pacer_paused c"
  by (auto simp: MaybeUpdateMediaRateDueToLongQueue_def Let_def split: if_splits Option.bind_splits)

lemma paused_CurrentTime: "CurrentTime io (c, e) = (t, (c', e')) \<Longrightarrow> pacer_paused c' = pacer_paused c"
  by (auto simp: CurrentTime_def Let_def split: prod.splits)

lemma paused_NextSendTime:
  assumes "NextSendTime io (c, e) = Some (t, (c', e'))"
  shows "pacer_paused c' = pacer_paused c"
proof -
  obtain now c1 e1 where C: "CurrentTime io (c, e) = (now, (c1, e1))" by (metis prod.exhaust)
  then have "c' = c1" using assms by (auto simp: NextSendTime_def Let_def split: if_splits Option.bind_splits)
  then show ?thesis using paused_CurrentTime [OF C] by simp
qed

lemma paused_elapse [simp]: "pacer_paused (elapse_until t c) = pacer_paused c"
  by (simp add: elapse_until_def UpdateTimeAndGetElapsed_def UpdateBudgetWithElapsedTime_def Let_def)

lemma paused_flush:
  assumes "flush_for_keyframe io p (c, e) = Some c'"
  shows "pacer_paused c' = pacer_paused c"
proof -
  have "pacer_RemovePacketsForSsrc s c = Some c' \<Longrightarrow> pacer_paused c' = pacer_paused c" for s c c'
    by (auto simp: pacer_RemovePacketsForSsrc_def split: Option.bind_splits)
  then show ?thesis
    using assms by (auto simp: flush_for_keyframe_def split: if_splits Option.bind_splits option.splits)
qed

lemma paused_enqueue:
  assumes "pacer_EnqueuePacket io p (c, e) = Some (c', e')"
  shows "pacer_paused c' = pacer_paused c"
proof -
  obtain c1 where f: "flush_for_keyframe io p (c, e) = Some c1"
    using assms by (auto simp: pacer_EnqueuePacket_def split: if_splits Option.bind_splits)
  let ?c = "c1\<lparr>prober := prober_OnIncomingPacket (pk_payload_size p) (prober c1)\<rparr>"
  obtain now c2 e2 where C: "CurrentTime io (?c, e) = (now, (c2, e2))" by (metis prod.exhaust)
  have "\<exists>c3 q. (c3 = c2 \<or> (\<exists>t c4 e4 t'. NextSendTime io (c2, e2) = Some (t, (c4, e4)) \<and> c3 = elapse_until t' c4)) \<and>
      MaybeUpdateMediaRateDueToLongQueue now (c3\<lparr>packet_queue := q, seen_first_packet := True\<rparr>) = Some c'"
    using assms f C by (auto simp: pacer_EnqueuePacket_def Let_def split: if_splits Option.bind_splits) blast+
  then obtain c3 q where c3: "c3 = c2 \<or> (\<exists>t c4 e4 t'. NextSendTime io (c2, e2) = Some (t, (c4, e4)) \<and> c3 = elapse_until t' c4)"
    and M: "MaybeUpdateMediaRateDueToLongQueue now (c3\<lparr>packet_queue := q, seen_first_packet := True\<rparr>) = Some c'" by blast
  have "pacer_paused c3 = pacer_paused c2" using c3 paused_NextSendTime by fastforce
  then show ?thesis using paused_MaybeUpdate [OF M] paused_CurrentTime [OF C] paused_flush [OF f] by simp
qed

lemma paused_enqueue_all: "enqueue_all io ps (c, e) = Some (c', e') \<Longrightarrow> pacer_paused c' = pacer_paused c"
proof (induction ps arbitrary: c e)
  case (Cons p ps)
  then show ?case by (auto split: Option.bind_splits dest: paused_enqueue)
qed simp

lemma paused_keepalives:
  "send_keepalives io ps n (c, e) = Some (d, (c', e')) \<Longrightarrow> pacer_paused c' = pacer_paused c"
proof (induction ps arbitrary: n c e)
  case (Cons p ps)
  then show ?case
    by (auto simp: send_and_fetch_fec_def Let_def split: Option.bind_splits prod.splits dest: paused_enqueue_all)
qed simp

section \<open>Rates\<close>

lemma rate_drains:
  assumes "0 \<le> rate" and "Microbits n sdiv T \<le> rate" and "0 < n" and "0 < T" and "T \<le> 4000000"
  shows "n \<le> size_of rate T"
proof -
  have "Microbits n sdiv T = (n * 8000000) div T" using assms(3,4) by (simp add: Microbits_def sdiv_nonneg)
  then have "(n * 8000000) div T * T \<le> rate * T" using assms(2,4) by (simp add: mult_right_mono)
  moreover have "n * 8000000 - T < (n * 8000000) div T * T"
    using assms(4) by (metis add.commute add_strict_left_mono div_mult_mod_eq less_diff_eq pos_mod_bound diff_less_eq)
  ultimately have "n * 8000000 \<le> rate * T + 4000000" using assms(5) by linarith
  then show ?thesis
    using assms(1,4) by (simp add: size_of_div zdiv_mono1 [of "n * 8000000" _ 8000000, simplified])
qed

lemma average_nonneg: "queue_ok q \<Longrightarrow> 0 \<le> AverageQueueTime q"
proof -
  assume "queue_ok q"
  then obtain M where "size_packets q = int (size M)" "queue_time_sum q = (\<Sum>p\<in>#M. waited q p)" "\<forall>p\<in>#M. 0 \<le> waited q p"
    by (auto simp: queue_ok_def view_ok_def counters_ok_def)
  moreover have "(\<forall>p\<in>#M. 0 \<le> f p) \<Longrightarrow> 0 \<le> (\<Sum>p\<in>#M. f p)" for f :: "QueuedPacket \<Rightarrow> int"
    by (induction M) auto
  ultimately have "0 \<le> queue_time_sum q" "0 \<le> size_packets q" by auto
  then show ?thesis
    by (auto simp: AverageQueueTime_def sdiv_nonneg pos_imp_zdiv_nonneg_iff)
qed

lemma size_tick:
  "UpdateAverageQueueTime now q = Some q' \<Longrightarrow> SizeInPayloadBytes q' = SizeInPayloadBytes q \<and> SizeInPackets q' = SizeInPackets q"
  by (auto simp: UpdateAverageQueueTime_eq SizeInPayloadBytes_def SizeInPackets_def split: if_splits)

lemma QueueSizeData_frame [simp]: "QueueSizeData (c\<lparr>adjusted_media_rate := r\<rparr>) = QueueSizeData c"
  by (simp add: QueueSizeData_def)

lemma rate_update_drains:
  assumes "MaybeUpdateMediaRateDueToLongQueue now c = Some c'" and "drain_large_queues c'"
    and "0 \<le> pacing_rate c'" and "queue_time_limit c' \<le> Seconds 4" and "queue_ok (packet_queue c')"
  shows "QueueSizeData c' \<le>
    size_of (adjusted_media_rate c') (max (Millis 1) (queue_time_limit c' - AverageQueueTime (packet_queue c')))"
proof -
  let ?T = "max (Millis 1) (queue_time_limit c' - AverageQueueTime (packet_queue c'))"
  have T: "0 < ?T" "?T \<le> 4000000"
    using assms(4) average_nonneg [OF assms(5)] by (auto simp: Millis_def Seconds_def)
  have drain: "drain_large_queues c"
    using assms(1,2) by (auto simp: MaybeUpdateMediaRateDueToLongQueue_def Let_def split: if_splits Option.bind_splits)
  show ?thesis
  proof (cases "QueueSizeData c > 0")
    case True
    then have c': "QueueSizeData c' = QueueSizeData c" "0 \<le> adjusted_media_rate c'"
      "Microbits (QueueSizeData c') sdiv ?T \<le> adjusted_media_rate c'"
      using assms(1,3) drain size_tick [of now "packet_queue c"]
      by (auto simp: MaybeUpdateMediaRateDueToLongQueue_def Let_def QueueSizeData_def rate_of_def
          split: if_splits Option.bind_splits)
    then show ?thesis using rate_drains [OF c'(2,3)] True T by simp
  next
    case False
    then have c': "c' = c\<lparr>adjusted_media_rate := pacing_rate c\<rparr>"
      using assms(1) drain by (simp add: MaybeUpdateMediaRateDueToLongQueue_def Let_def)
    then have "QueueSizeData c' \<le> 0" using False by simp
    also have "0 \<le> size_of (adjusted_media_rate c') ?T"
      using T(1) assms(3) c' by (intro size_of_nonneg) auto
    finally show ?thesis .
  qed
qed

end
