(* ===== verification/PacerProperties.thy ===== *)
theory PacerProperties
  imports PacerSafety
begin

text \<open>
  The properties of the pacer, for every sequence of operations that starts with setting the pacing
  rates, for every clock and for every packet sender whose packets have a type.
\<close>

lemma fresh_ok:
  assumes "typed_sender io" and "0 < rate" and "0 \<le> padding" and "\<forall>op\<in>set ops. pacer_op_ok op"
  shows "\<exists>c e'. pacer_run io (PacerRates rate padding # ops)
      (new_PacingController now drain silence block overhead fast flush trials, e) = Some (c, e') \<and> pacer_ok c"
proof -
  let ?c = "new_PacingController now drain silence block overhead fast flush trials"
  have "pacer_ok (?c\<lparr>pacing_rate := 1, adjusted_media_rate := 1, padding_rate := 0\<rparr>)"
    by (simp add: pacer_ok_def new_PacingController_def queue_ok_new new_BitrateProber_def SetEnabled_def is_probing_def)
      (simp add: new_PrioritizedPacketQueue_def)
  then obtain c1 e1 where "SetPacingRates io rate padding (?c, e) = Some (c1, e1)" "pacer_ok c1"
    using assms(2,3) by (metis rates_defined)
  then show ?thesis using pacer_run_defined [OF assms(1), of c1 ops e1] assms(4) by simp
qed

lemma run_ok:
  assumes "pacer_run io (PacerRates rate padding # ops)
      (new_PacingController now drain silence block overhead fast flush trials, e) = Some (c, e')"
    and "typed_sender io" and "0 < rate" and "0 \<le> padding" and "\<forall>op\<in>set ops. pacer_op_ok op"
  shows "pacer_ok c"
  using fresh_ok [OF assms(2-5), of now drain silence block overhead fast flush trials e] assms(1) by auto

lemma pacer_run_append:
  "pacer_run io (xs @ ys) st = Option.bind (pacer_run io xs st) (pacer_run io ys)"
  by (induction xs arbitrary: st) (auto split: Option.bind_splits)


text \<open>
  C23. With the draining of large queues enabled (the default; \<open>WebRTC-Pacer-DrainQueue\<close> disables it)
  and without probing: after a packet has been enqueued, the media rate suffices to send the whole
  queue before the average packet exceeds the queue time limit (at least a millisecond, at most the
  four seconds for which the rounding of rates is harmless).
\<close>

theorem pacer_rate_drains_queue:
  assumes "pacer_run io ((PacerRates rate padding # ops) @ [PacerEnqueue packet])
      (new_PacingController now drain silence block overhead fast flush trials, e) = Some (c, e')"
    and "typed_sender io" and "0 < rate" and "0 \<le> padding" and "\<forall>op\<in>set ops. pacer_op_ok op"
    and "drain_large_queues c" and "queue_time_limit c \<le> Seconds 4"
  shows "QueueSizeData c \<le>
    size_of (adjusted_media_rate c) (max (Millis 1) (queue_time_limit c - AverageQueueTime (packet_queue c)))"
proof -
  obtain st where E: "pacer_EnqueuePacket io packet st = Some (c, e')"
    using assms(1) unfolding pacer_run_append by (auto split: Option.bind_splits)
  then have typed: "pk_has_packet_type packet" by (simp add: pacer_EnqueuePacket_def split: if_splits)
  have ok: "pacer_ok c"
    by (rule run_ok [of io rate padding "ops @ [PacerEnqueue packet]"]) (use assms typed in auto)
  obtain t c1 where "MaybeUpdateMediaRateDueToLongQueue t c1 = Some c"
    using E by (auto simp: pacer_EnqueuePacket_def Let_def split: if_splits Option.bind_splits prod.splits)
  then show ?thesis using rate_update_drains assms(6,7) ok by (auto simp: pacer_ok_def)
qed

text \<open>
  C13. A pacer that is due sends: without probing, if it is neither paused nor congested, has packets
  and its next send time has passed, \<^const>\<open>ProcessPackets\<close> succeeds and the first packet it hands to the
  sender is the one at the head of its queue. The circuit breaker must allow at least one round, and
  the keep-alive of \<open>WebRTC-Pacer-PadInSilence\<close>, whose padding would go first, is off; as everywhere,
  rates are positive and packets have a type.
\<close>

theorem pacer_sends_when_due:
  assumes "pacer_run io (PacerRates rate padding # ops)
      (new_PacingController now drain silence block overhead fast flush trials, e) = Some (c, e')"
    and "typed_sender io" and "0 < rate" and "0 \<le> padding" and "\<forall>op\<in>set ops. pacer_op_ok op"
    and "records io sent_log"
    and "\<not> pacer_paused c" and "\<not> congested c" and "\<not> send_padding_if_silent c" and "seen_first_packet c"
    and "\<not> pq_Empty (packet_queue c)" and "0 < circuit_breaker_threshold c"
    and "CurrentTime io (c, e') = (time, st)" and "NextSendTime io st = Some (target, st')" and "target < time"
  shows "\<exists>p q c2 e2 xs. Pop (packet_queue c) = Some (Some p, q) \<and> ProcessPackets io (c, e') = Some (c2, e2) \<and>
    sent_log e2 = sent_log e' @ p # xs"
proof -
  have ok: "pacer_ok c" by (rule run_ok [OF assms(1-5)])
  obtain c1 e1 c2 e2 where st: "st = (c1, e1)" "st' = (c2, e2)" by (metis prod.exhaust)
  have l1: "later c c1" using CurrentTime_later [of io c e'] assms(13) st by (metis Pair_inject)
  have ok1: "pacer_ok c1" by (rule later_ok [OF ok l1])
  have l2: "later c1 c2" using next_send_defined [OF ok1, of io e1] assms(14) st by (metis Pair_inject option.inject)
  have ok2: "pacer_ok c2" by (rule later_ok [OF ok1 l2])
  have np: "\<not> is_probing (prober c2)" "\<not> is_probing (prober c1)" using ok1 ok2 by (simp_all add: pacer_ok_def)
  have f: "packet_queue c2 = packet_queue c" "\<not> congested c2" "0 < circuit_breaker_threshold c2"
    "\<not> pacer_paused c1" "\<not> ShouldSendKeepalive time c1"
    using l1 l2 assms(7-12) by (auto simp: later_def ShouldSendKeepalive_def)
  have "\<exists>p q c' e'' xs. Pop (packet_queue c2) = Some (Some p, q) \<and>
      process_due io time target (c2, e2) = Some (c', e'') \<and> sent_log e'' = sent_log e2 @ p # xs"
    by (rule process_due_sends [OF assms(6,2) ok2]) (use f assms(11,15) in auto)
  then obtain p q c3 e3 xs where P: "Pop (packet_queue c) = Some (Some p, q)"
      "process_due io time target (c2, e2) = Some (c3, e3)" "sent_log e3 = sent_log e2 @ p # xs"
    using f(1) by auto
  have "sent_log e2 = sent_log e'"
    using log_CurrentTime [OF assms(6), of c e'] log_NextSendTime [OF assms(6), of c1 e1] assms(13,14) st by metis
  moreover have "ProcessPackets io (c, e') = Some (c3, OnBatchComplete io e3)"
    using assms(13-15) st f np P(2)
    by (simp add: ProcessPackets_def process_packets_body_def maybe_keepalive_def Let_def)
  moreover have "sent_log (OnBatchComplete io e3) = sent_log e3" using assms(6) by (simp add: records_def)
  ultimately show ?thesis using P by auto
qed

text \<open>
  C24. A paused pacer sends nothing but the keep-alive padding it asks the sender for, and stays paused.
\<close>

theorem pacer_pause_holds:
  assumes "pacer_paused c" and "records io sent_log" and "ProcessPackets io (c, e) = Some (c', e')"
  shows "pacer_paused c' \<and>
    (\<exists>xs. sent_log e' = sent_log e @ xs \<and> (xs = [] \<or> (\<exists>e1. xs = fst (GeneratePadding io 1 e1))))"
proof -
  obtain now c1 e1 where C: "CurrentTime io (c, e) = (now, (c1, e1))" by (metis prod.exhaust)
  have p1: "pacer_paused c1" using paused_CurrentTime [OF C] assms(1) by simp
  have log1: "sent_log e1 = sent_log e" by (rule log_CurrentTime [OF assms(2) C])
  obtain c2 e2 where K: "maybe_keepalive io now (c1, e1) = Some (c2, e2)"
    using assms(3) C by (auto simp: ProcessPackets_def process_packets_body_def split: Option.bind_splits)
  have "pacer_paused c2 \<and> (\<exists>xs. sent_log e2 = sent_log e1 @ xs \<and> (xs = [] \<or> (\<exists>e1. xs = fst (GeneratePadding io 1 e1))))"
  proof (cases "ShouldSendKeepalive now c1")
    case False
    then show ?thesis using K p1 by (simp add: maybe_keepalive_def)
  next
    case True
    obtain ps e3 where G: "(if seen_first_packet c1 then GeneratePadding io 1 e1 else ([], e1)) = (ps, e3)" by fastforce
    obtain d c4 where S: "send_keepalives io ps 0 (c1, e3) = Some (d, (c4, e2))" "c2 = OnPacketSent kPadding d now c4"
      using K True G by (auto simp: maybe_keepalive_def split: Option.bind_splits)
    have "sent_log e3 = sent_log e1" using G assms(2) by (auto simp: records_def split: if_splits) (metis snd_conv)
    moreover have "ps = [] \<or> (\<exists>e1. ps = fst (GeneratePadding io 1 e1))" using G by (auto split: if_splits) (metis fst_conv)
    moreover have "pacer_paused c2"
      using S(2) paused_keepalives [OF S(1)] p1
      by (simp add: OnPacketSent_def UpdateBudgetWithSentData_def UpdatePaddingBudgetWithSentData_def Let_def)
    ultimately show ?thesis using log_keepalives [OF assms(2) S(1)] by auto
  qed
  moreover have "c' = c2" "e' = OnBatchComplete io e2"
    using assms(3) C K calculation by (auto simp: ProcessPackets_def process_packets_body_def)
  ultimately show ?thesis using log1 assms(2) by (auto simp: records_def)
qed

section \<open>Witnesses\<close>

text \<open>A sender that records what it is given; its clock advances ten milliseconds per reading.\<close>

definition recorder :: "(int \<times> PacedPacket list) packet_sender" where
  "recorder =
     \<lparr>clock_CurrentTime = (\<lambda>(t, sent). (t, (t + 10000, sent))),
      SendPacket = (\<lambda>p info (t, sent). (t, sent @ [p])),
      FetchFec = (\<lambda>e. ([], e)),
      GeneratePadding = (\<lambda>n e. ([sample_packet 9 kPadding False], e)),
      OnBatchComplete = (\<lambda>e. e),
      GetRtxSsrcForMedia = (\<lambda>s e. None)\<rparr>"

lemma recorder_records: "records recorder snd"
  by (auto simp: records_def recorder_def)

lemma recorder_typed: "typed_sender recorder"
  by (simp add: typed_sender_def recorder_def sample_packet_def)

definition sample_pacer :: PacingController where
  "sample_pacer = new_PacingController 0 True False False False False False default_BitrateProberConfig"

definition sample_pacer_ops :: "pacer_op list" where
  "sample_pacer_ops =
     [PacerThreshold 4, PacerEnqueue (sample_packet 1 kVideo True), PacerProcess, PacerEnqueue (sample_packet 1 kVideo False),
      PacerPause, PacerResume]"

definition sample_pacer_state :: "(int \<times> PacedPacket list) pacer option" where
  "sample_pacer_state = pacer_run recorder (PacerRates 800000 0 # sample_pacer_ops) (sample_pacer, (0, []))"

lemma sample_ops_ok: "\<forall>op\<in>set sample_pacer_ops. pacer_op_ok op"
  by (simp add: sample_pacer_ops_def sample_packet_def)

lemma sample_pacer_facts:
  "(case sample_pacer_state of
      None \<Rightarrow> False
    | Some (c, e) \<Rightarrow> \<not> pacer_paused c \<and> \<not> congested c \<and> \<not> send_padding_if_silent c \<and> seen_first_packet c \<and>
        \<not> pq_Empty (packet_queue c) \<and> 0 < circuit_breaker_threshold c \<and>
        (case CurrentTime recorder (c, e) of
           (time, st) \<Rightarrow> (case NextSendTime recorder st of None \<Rightarrow> False | Some (target, st') \<Rightarrow> target < time)))"
  by code_simp

lemma sample_enqueue_facts:
  "(case pacer_run recorder ((PacerRates 1000 0 # []) @ [PacerEnqueue (sample_packet 1 kVideo True)]) (sample_pacer, (0, [])) of
      None \<Rightarrow> False
    | Some (c, e) \<Rightarrow> drain_large_queues c \<and> queue_time_limit c = 2000000 \<and> QueueSizeData c = 1000 \<and>
        AverageQueueTime (packet_queue c) = 0 \<and> pacing_rate c = 1000)"
  by code_simp


theorem pacer_rate_drains_queue_witness:
  "\<exists>c e. pacer_run recorder ((PacerRates 1000 0 # []) @ [PacerEnqueue (sample_packet 1 kVideo True)]) (sample_pacer, (0, [])) =
      Some (c, e) \<and> pacing_rate c = 1000 \<and> 1000 \<le> size_of (adjusted_media_rate c) (Seconds 2)"
proof -
  obtain c e where r: "pacer_run recorder ((PacerRates 1000 0 # []) @ [PacerEnqueue (sample_packet 1 kVideo True)])
      (new_PacingController 0 True False False False False False default_BitrateProberConfig, (0, [])) = Some (c, e)"
    and f: "drain_large_queues c" "queue_time_limit c = 2000000" "QueueSizeData c = 1000"
      "AverageQueueTime (packet_queue c) = 0" "pacing_rate c = 1000"
    using sample_enqueue_facts unfolding sample_pacer_def by (auto split: option.splits)
  have "1000 \<le> size_of (adjusted_media_rate c) (Seconds 2)"
    using pacer_rate_drains_queue [OF r recorder_typed] f by (simp add: Seconds_def Millis_def)
  then show ?thesis using r f(5) unfolding sample_pacer_def by blast
qed

theorem pacer_sends_when_due_witness:
  "\<exists>c e p q c2 e2 xs. sample_pacer_state = Some (c, e) \<and> Pop (packet_queue c) = Some (Some p, q) \<and>
     ProcessPackets recorder (c, e) = Some (c2, e2) \<and> snd e2 = snd e @ p # xs"
proof -
  obtain c e where r: "sample_pacer_state = Some (c, e)" using sample_pacer_facts by (auto split: option.splits)
  obtain time st where t: "CurrentTime recorder (c, e) = (time, st)" by (metis prod.exhaust)
  obtain target st' where n: "NextSendTime recorder st = Some (target, st')"
    using sample_pacer_facts unfolding r option.case prod.case t by (metis (no_types, lifting) not_Some_eq option.case(1) prod.exhaust)
  note f = sample_pacer_facts [unfolded r option.case prod.case t n]
  have "\<exists>p q c2 e2 xs. Pop (packet_queue c) = Some (Some p, q) \<and> ProcessPackets recorder (c, e) = Some (c2, e2) \<and>
      snd e2 = snd e @ p # xs"
    by (rule pacer_sends_when_due [OF r [unfolded sample_pacer_state_def sample_pacer_def] recorder_typed _ _ sample_ops_ok
        recorder_records _ _ _ _ _ _ t n]) (use f in auto)
  then show ?thesis using r by blast
qed

theorem pacer_pause_holds_witness:
  "\<exists>c e c' e'. pacer_run recorder [PacerRates 800000 0, PacerEnqueue (sample_packet 1 kVideo True), PacerPause]
      (sample_pacer, (0, [])) = Some (c, e) \<and> ProcessPackets recorder (c, e) = Some (c', e') \<and>
     pacer_paused c'"
proof -
  have e: "(case pacer_run recorder [PacerRates 800000 0, PacerEnqueue (sample_packet 1 kVideo True), PacerPause]
      (sample_pacer, (0, [])) of None \<Rightarrow> False
    | Some (c, e) \<Rightarrow> pacer_paused c \<and> ProcessPackets recorder (c, e) \<noteq> None)"
    by code_simp
  then obtain c e where r: "pacer_run recorder [PacerRates 800000 0, PacerEnqueue (sample_packet 1 kVideo True), PacerPause]
      (sample_pacer, (0, [])) = Some (c, e)" "pacer_paused c" "ProcessPackets recorder (c, e) \<noteq> None"
    by (auto split: option.splits simp del: pacer_run.simps)
  then obtain c' e' where p: "ProcessPackets recorder (c, e) = Some (c', e')" by force
  show ?thesis using pacer_pause_holds [OF r(2) recorder_records p] r(1) p by blast
qed

end
