(* ===== verification/Spec2Isabelle.thy ===== *)
theory Spec2Isabelle
  imports SeqNum DelayBasedBwe BitrateAllocator EncoderProtocol RtpDepacketizerH264 PacerProperties
begin

text \<open>
  Verification of the send-side rate path of MAE, the "More Adaptive Encoder", as it is built
  into this fork of WebRTC.

  \<^bold>\<open>The program.\<close> Transport feedback reaches the congestion controller, whose trendline
  estimator fits a line to the one-way delay of the last 100 ms of packet groups and reports, next
  to the usual over-use state, the ratio of the trend to half of the over-use threshold. The
  delay-based estimator turns the state into a target rate. The ratio travels with the target rate
  through the bitrate allocator, which splits the rate over the streams of the call, to the encoder,
  where the x264 wrapper shrinks the VBV buffer while the network is over-used. The encoded NAL units are packetised into RTP packets and
  released by the pacer.

  \<^bold>\<open>Theories.\<close>
  \<^item> \<open>Prelude\<close>: integer type names, C++ integer promotion, shared lemmas.
  \<^item> \<open>Float64\<close>: IEEE arithmetic as rationals rounded after every operation (to 53 bits for
    \<open>double\<close>, 24 for \<open>float\<close>); the locale \<open>nearest_rounding\<close> collects what proofs use of rounding.
    The exponent is unbounded, so NaN, infinities and subnormals are outside the model.
  \<^item> \<open>SeqNum\<close>: \<open>rtc_base/numerics\<close> wrapping numbers and the sequence number unwrapper; the locale
    \<open>serial_order\<close> is the contract of a newer-than test.
  \<^item> \<open>Trendline\<close>: \<open>modules/congestion_controller/goog_cc/trendline_estimator.cc\<close>.
  \<^item> \<open>InterArrivalDelta\<close>, \<open>AimdRateControl\<close>, \<open>DelayBasedBwe\<close>: \<open>inter_arrival_delta.cc\<close>,
    \<open>link_capacity_estimator.cc\<close> and \<open>delay_based_bwe.cc\<close> of the same directory and
    \<open>modules/remote_bitrate_estimator/aimd_rate_control.cc\<close>.
  \<^item> \<open>BitrateAllocator\<close>: \<open>call/bitrate_allocator.cc\<close>.
  \<^item> \<open>BitrateAllocation\<close>: \<open>api/video/video_bitrate_allocation.cc\<close>.
  \<^item> \<open>Units\<close>: the saturating time, size and rate units of \<open>api/units\<close>; \<open>UnitsDouble\<close>: their conversions
    to and from \<open>double\<close>.
  \<^item> \<open>SimulcastRate\<close>: codec settings and \<open>modules/video_coding/utility/simulcast_rate_allocator.cc\<close>.
  \<^item> \<open>RateControl\<close>: the global settings of \<open>rtc_base/helpers.cc\<close>, \<open>RateControlParameters\<close>.
  \<^item> \<open>H264Encoder\<close>: the x264 wrapper \<open>modules/video_coding/codecs/h264/h264_encoder_impl.cc\<close>;
    \<open>EncoderProtocol\<close>: the wrapper as a state machine and what holds in its reachable states.
  \<^item> \<open>H264Nal\<close>: \<open>common_video/h264/h264_common.cc\<close>, start codes and escaping; \<open>ByteIO\<close>:
    \<open>modules/rtp_rtcp/source/byte_io.h\<close>.
  \<^item> \<open>RtpFormat\<close>, \<open>RtpFormatH264\<close>: the packetiser \<open>modules/rtp_rtcp/source/rtp_format_h264.cc\<close> with the
    payload split of \<open>rtp_format.cc\<close>; \<open>RtpDepacketizerH264\<close>: \<open>video_rtp_depacketizer_h264.cc\<close> and
    \<open>modules/video_coding/h264_sps_pps_tracker.cc\<close>.

  \<^item> \<open>PacketQueue\<close>: \<open>modules/pacing/prioritized_packet_queue.cc\<close>; \<open>PacketQueueSpec\<close> is its
    specification, a FIFO per stream and priority level served round robin, with the locale
    \<open>functional_refinement\<close>; \<open>PacketQueueRefinement\<close> interprets the locale on the queue and
    \<open>PacketQueueDrain\<close> reads the counters and the order of departures off the specification.
  \<^item> \<open>AlrDetector\<close>: \<open>modules/pacing/interval_budget.cc\<close> and
    \<open>modules/congestion_controller/goog_cc/alr_detector.cc\<close>; \<open>BitrateProber\<close>:
    \<open>modules/pacing/bitrate_prober.cc\<close>.
  \<^item> \<open>PacingController\<close>: \<open>modules/pacing/pacing_controller.cc\<close> on top of the queue and the prober, with
    the clock and the packet sender as a record of functions; \<open>PacerSafety\<close>: its invariant and the
    operations under it; \<open>PacerProperties\<close>: what holds for every run.

  \<^bold>\<open>What is shown.\<close>
  \<^item> Arithmetic: unwrapping is right for streams that move by less than half of the number range;
    rate and size conversions round and invert as intended; every rounding of a \<open>double\<close> is explicit.
  \<^item> Over-use: the estimator never fails and keeps its threshold in range; the aggressive ratio
    handed to the encoder agrees with the detector's decision. The optional slope cap is the exception:
    an example shows that it can read outside of the window.
  \<^item> Estimate: the delay-based estimator never fails and stays above its minimum rate. A report that
    ends in over-use never raises the rate; with a measured throughput and a reduction due, the rate
    falls below the throughput, while the ratio for the encoder is at least 2. The deltas handed to
    the detectors add up to the span of the packet groups.
  \<^item> Allocation: the shares of the streams never exceed the bandwidth or the enforced minima, in spite
    of rounding, for rates and priorities in the range given there; every stream is told its share and
    the over-use signal.
  \<^item> Rates: the allocation table keeps its sum, the simulcast split stays within its budget, the
    temporal split loses at most the rounding.
  \<^item> Encoder: the x264 handle is opened, used and closed in order in every reachable state; the VBV
    buffer programmed by \<open>SetRates\<close> is the one of the mode and the over-use signal; a key frame request
    is never cleared.
  \<^item> Packets: packetising and depacketising an H.264 frame restores it; sizes stay within limits.
  \<^item> Pacing: the queue refines its specification and drains; without probing the pacer never stops on
    a failing check for any clock and for any sender whose packets have a type, sends when it is due,
    holds back while paused and raises its rate so that the queue empties within its time limit. The
    prober alone never stops on a check either, as long as its callers keep to what it asserts.

  \<^bold>\<open>Conventions.\<close> A C++ class is a record, a method a function returning the new state. An
  \<open>option\<close> result \<^term>\<open>None\<close> is a failed \<open>RTC_CHECK\<close>, an access outside a container, a stale
  pointer or a division by zero. Log statements are left out unless they read memory that may be out of
  range. The model is that of a release build: \<open>RTC_DCHECK\<close> is compiled out and is not a branch. Where a
  debug assertion states what the callers owe a component, it is a hypothesis (NAL units of at least
  four bytes, positive pacing rates) or, for the prober, part of the runs, which stop at a call that
  violates it. Times, sizes and rates are unbounded integers of the unit's
  64 bit representation where the values of the code stay far inside its range, and words where
  the code relies on the width.

  \<^bold>\<open>Loops.\<close> Loops over containers are structural recursion. The scan for start codes and the payload
  split terminate by a measure. The pacer's send loop is bounded by the code itself: its circuit
  breaker counts iterations, and that count is the recursion's argument, so no fuel is added.

  \<^bold>\<open>Not modelled.\<close> x264, the parsers of parameter sets and slice headers, the scalability
  controllers, the network state predictor, the C library's \<open>pow\<close>, the packet sender and the clocks
  are parameters. The loss-based estimators and the controller that combines them with the
  delay-based one, the frame handling of the video stream encoder, RTP header extensions and protection, task queues, the receive side behind the parameter set tracker, audio, transport and
  the session layer are outside of the development: they are either thread and socket plumbing or not
  on the path MAE changes.
\<close>

end
